(* ===== verification/Prelude.thy ===== *)
theory Prelude
  imports Main
begin

text \<open>
  Shared vocabulary of the development.

  Field elements and amounts of the TypeScript code are \<open>bigint\<close> values, which are unbounded:
  they are modelled by \<^typ>\<open>int\<close>. Array indices and leaf indices are JavaScript numbers that the
  code keeps below \<open>2 ^ 32\<close>, far under the \<open>2 ^ 53\<close> where doubles stop being exact: they are
  modelled by \<^typ>\<open>nat\<close>. The Poseidon hash comes from the package \<open>poseidon-lite\<close>, which is
  not part of the repository: every definition that hashes takes the hash as an argument.

  A JavaScript array of \<open>T | undefined\<close> that is written at arbitrary indices is a list of
  options: writing beyond the end fills the gap with \<open>undefined\<close>, reading beyond the end
  answers \<open>undefined\<close>.
\<close>

named_theorems js_array \<open>reading and writing sparse arrays\<close>

type_synonym hash2 = "int \<Rightarrow> int \<Rightarrow> int"

text \<open>A concrete hash for the closed examples.\<close>

definition demo_hash :: hash2 where
  "demo_hash a b = a + 2 * b + 1"

subsection \<open>Sparse arrays\<close>

definition js_get :: "'a option list \<Rightarrow> nat \<Rightarrow> 'a option" where
  "js_get xs i = (if i < length xs then xs ! i else None)"

definition js_set :: "'a option list \<Rightarrow> nat \<Rightarrow> 'a option \<Rightarrow> 'a option list" where
  "js_set xs i v =
     (if i < length xs then xs[i := v] else xs @ replicate (i - length xs) None @ [v])"

lemma js_get_Nil [simp]: "js_get [] i = None"
  by (simp add: js_get_def)

lemma js_get_set [js_array]: "js_get (js_set xs i v) j = (if j = i then v else js_get xs j)"
  by (auto simp: js_get_def js_set_def nth_append nth_list_update)

lemma js_get_set_fun [js_array]: "js_get (js_set xs i (Some v)) = (js_get xs)(i \<mapsto> v)"
  by (rule ext) (simp add: js_get_set)

lemma js_set_twice [simp]: "js_set (js_set xs i v) i w = js_set xs i w"
  by (auto simp: js_set_def list_update_append nth_append)

lemma js_set_same: "js_get xs i = Some v \<Longrightarrow> js_set xs i (Some v) = xs"
  by (auto simp: js_set_def js_get_def split: if_splits) (metis list_update_id)

lemma length_js_set [js_array]: "length (js_set xs i v) = max (length xs) (Suc i)"
  by (auto simp: js_set_def)

lemma js_set_end [js_array]: "js_set xs (length xs) v = xs @ [v]"
  by (simp add: js_set_def)

text \<open>Writing a run of values starting at an index, one element after the other.\<close>

fun js_set_run :: "'a option list \<Rightarrow> nat \<Rightarrow> 'a option list \<Rightarrow> 'a option list" where
  "js_set_run xs i [] = xs"
| "js_set_run xs i (v # vs) = js_set_run (js_set xs i v) (Suc i) vs"

lemma js_get_set_run [js_array]:
  "js_get (js_set_run xs i vs) j =
     (if i \<le> j \<and> j < i + length vs then vs ! (j - i) else js_get xs j)"
proof (induction vs arbitrary: xs i j)
  case Nil
  show ?case by auto
next
  case (Cons v vs)
  show ?case
    by (cases "j = i") (auto simp: Cons.IH js_get_set nth_Cons' Suc_le_eq le_less)
qed

lemma length_js_set_run [js_array]: "vs \<noteq> [] \<Longrightarrow> length (js_set_run xs i vs) = max (length xs) (i + length vs)"
proof (induction vs arbitrary: xs i)
  case (Cons v vs)
  then show ?case by (cases vs) (auto simp: length_js_set max_def)
qed simp

lemma length_js_set_run_le: "length xs \<le> length (js_set_run xs i vs)"
  by (cases "vs = []") (auto simp: length_js_set_run)

lemma js_set_run_same:
  "i + length vs \<le> length xs \<Longrightarrow> (\<And>k. k < length vs \<Longrightarrow> js_get xs (i + k) = vs ! k) \<Longrightarrow> js_set_run xs i vs = xs"
proof (induction vs arbitrary: i)
  case (Cons v vs)
  have "xs ! i = v" using Cons.prems(1) Cons.prems(2) [of 0] by (simp add: js_get_def)
  then have "js_set xs i v = xs" using Cons.prems(1) by (auto simp: js_set_def)
  moreover have "js_set_run xs (Suc i) vs = xs"
    using Cons.prems(1) Cons.prems(2) [of "Suc _"] by (intro Cons.IH) auto
  ultimately show ?case by simp
qed simp

lemma js_get_in_range: "js_get xs i = Some v \<Longrightarrow> i < length xs"
  by (simp add: js_get_def split: if_splits)

lemma js_set_run_values:
  assumes "\<forall>k<length ls. js_get xs (i + k) = Some (ls ! k)"
  shows "js_set_run xs i (map Some ls) = xs"
proof (cases "ls = []")
  case False
  then have "i + (length ls - 1) < length xs" using assms by (intro js_get_in_range) force
  then show ?thesis using assms False by (intro js_set_run_same) auto
qed simp

lemma js_set_run_end [js_array]: "js_set_run xs (length xs) vs = xs @ vs"
proof (induction vs arbitrary: xs)
  case Nil
  then show ?case by simp
next
  case (Cons v vs)
  from Cons.IH [of "xs @ [v]"] show ?case by (simp add: js_set_end)
qed

subsection \<open>Integer logarithm\<close>

fun log2n :: "nat \<Rightarrow> nat" where
  "log2n n = (if n \<le> 1 then 0 else Suc (log2n (n div 2)))"

declare log2n.simps [simp del]

lemma log2n_power [simp]: "log2n (2 ^ k) = k"
proof (induction k)
  case 0
  show ?case by (simp add: log2n.simps)
next
  case (Suc k)
  have "\<not> (2::nat) ^ Suc k \<le> 1"
    by (metis Suc_1 leD one_less_power lessI zero_less_Suc)
  then have "log2n (2 ^ Suc k) = Suc (log2n (2 ^ Suc k div 2))"
    by (subst log2n.simps) presburger
  then show ?case using Suc by simp
qed

subsection \<open>Division of indices by powers of two\<close>

lemma div_pow_Suc: "(n::nat) div 2 ^ Suc i = n div 2 ^ i div 2"
  by (metis div_mult2_eq power_Suc2)

lemma double_half: "even (q::nat) \<Longrightarrow> 2 * (q div 2) = q" "odd q \<Longrightarrow> Suc (2 * (q div 2)) = q"
  by presburger+

lemma half_of:
  "(q::nat) mod 2 = 1 \<Longrightarrow> 2 * (q div 2) = q - 1"
  "q mod 2 = 1 \<Longrightarrow> Suc (2 * (q div 2)) = q"
  "q mod 2 \<noteq> 1 \<Longrightarrow> 2 * (q div 2) = q"
  by presburger+

lemma aligned_step:
  assumes "(L::nat) \<le> i" and "2 ^ L dvd n"
  shows "n + 2 ^ L \<le> Suc (n div 2 ^ i) * 2 ^ i"
proof -
  have d: "(2::nat) ^ L dvd Suc (n div 2 ^ i) * 2 ^ i"
    using assms(1) by (simp add: le_imp_power_dvd dvd_mult)
  have "n < Suc (n div 2 ^ i) * 2 ^ i"
    using mod_less_divisor [of "2 ^ i" n] div_mult_mod_eq [of n "2 ^ i"]
    by (metis add.commute add_less_cancel_left mult_Suc zero_less_numeral zero_less_power)
  then show ?thesis using d assms(2)
    by (metis add_less_cancel_left dvd_imp_le dvd_diff_nat le_add_diff_inverse less_imp_le
        nat_add_left_cancel_le zero_less_diff)
qed

lemma dvd_div_pow_even:
  assumes "(i::nat) < L" and "2 ^ L dvd (n::nat)"
  shows "even ((n + 2 ^ L) div 2 ^ i)"
proof -
  obtain c where "n + 2 ^ L = 2 ^ L * c" using assms(2) by (metis dvd_def dvd_add dvd_refl)
  moreover have "(2::nat) ^ L = 2 ^ i * (2 * 2 ^ (L - Suc i))"
    using assms(1) by (metis Suc_diff_Suc add_diff_inverse_nat less_imp_le_nat not_less_iff_gr_or_eq
        power_Suc power_add)
  ultimately have "(n + 2 ^ L) div 2 ^ i = 2 * (2 ^ (L - Suc i) * c)"
    by (simp add: mult.assoc)
  then show ?thesis by simp
qed

lemma aligned_carry:
  assumes "(L::nat) \<le> i" and "2 ^ L dvd (n::nat)"
  shows "(n + 2 ^ L) div 2 ^ i = n div 2 ^ i \<or> (n + 2 ^ L) div 2 ^ i = Suc (n div 2 ^ i)"
proof -
  have "(2::nat) ^ L \<le> 2 ^ i" using assms(1) by simp
  then have "(n + 2 ^ L) div 2 ^ i \<le> (n + 2 ^ i) div 2 ^ i" by (intro div_le_mono) simp
  moreover have "n div 2 ^ i \<le> (n + 2 ^ L) div 2 ^ i" by (intro div_le_mono) simp
  moreover have "(n + 2 ^ i) div 2 ^ i = Suc (n div 2 ^ i)" by (subst div_add_self2) simp_all
  ultimately show ?thesis by linarith
qed

text \<open>The padding of \<open>_padToBlockBoundary\<close> reaches the next multiple of the batch size.\<close>

lemma pad_aligned: "0 < (B::nat) \<Longrightarrow> B dvd n + (B - n mod B) mod B"
proof (cases "n mod B = 0")
  case True
  then show ?thesis by auto
next
  case False
  assume "0 < B"
  with False have "(B - n mod B) mod B = B - n mod B" "n mod B < B" by simp_all
  then have "n + (B - n mod B) mod B = n div B * B + B"
    using div_mult_mod_eq [of n B] by linarith
  then show ?thesis by simp
qed

lemma pad_least: "0 < (B::nat) \<Longrightarrow> B dvd m \<Longrightarrow> n \<le> m \<Longrightarrow> n + (B - n mod B) mod B \<le> m"
proof -
  assume B: "0 < B" and m: "B dvd m" and le: "n \<le> m"
  show ?thesis
  proof (rule ccontr)
    assume "\<not> ?thesis"
    moreover have "(B - n mod B) mod B < B" using B by simp
    moreover have "B dvd (n + (B - n mod B) mod B) - m" using m pad_aligned [OF B] by simp
    ultimately show False using le by (auto dest: dvd_imp_le)
  qed
qed

lemma ceil_mult_ge: "0 < (B::nat) \<Longrightarrow> n \<le> (n + (B - 1)) div B * B"
proof -
  assume "0 < B"
  then have "(n + (B - 1)) mod B \<le> B - 1" using mod_less_divisor [of B "n + (B - 1)"] by linarith
  moreover have "(n + (B - 1)) div B * B + (n + (B - 1)) mod B = n + (B - 1)" by (rule div_mult_mod_eq)
  ultimately show ?thesis by linarith
qed

lemma block_below_ceil: "0 < (B::nat) \<Longrightarrow> i < n \<Longrightarrow> i div B < (n + (B - 1)) div B"
  using ceil_mult_ge [of B n] by (intro less_mult_imp_div_less) simp

lemma in_block_iff:
  assumes "0 < (B::nat)" and "B dvd s"
  shows "x div B = s div B \<longleftrightarrow> s \<le> x \<and> x < s + B"
proof -
  from assms(2) obtain q where s: "s = q * B" by (metis dvd_def mult.commute)
  show ?thesis
  proof
    assume "x div B = s div B"
    then have "x div B = q" using s assms(1) by simp
    then show "s \<le> x \<and> x < s + B"
      using s assms(1) div_times_less_eq_dividend [of x B] dividend_less_div_times [of B x] by auto
  next
    assume "s \<le> x \<and> x < s + B"
    then show "x div B = s div B" using s assms(1) by (auto intro!: div_nat_eqI simp: algebra_simps)
  qed
qed

text \<open>Reading a list in \<open>m\<close> pieces of length \<open>n\<close> gives it back.\<close>

lemma pieces_concat:
  "length xs = m * n \<Longrightarrow> concat (map (\<lambda>i. take n (drop (i * n) (xs @ ys))) [0..<m]) = xs"
proof (induction m arbitrary: xs ys)
  case (Suc m)
  have "concat (map (\<lambda>i. take n (drop (i * n) (xs @ ys))) [0..<m]) = take (m * n) xs"
    using Suc.IH [of "take (m * n) xs" "drop (m * n) xs @ ys"] Suc.prems by (simp add: append_assoc [symmetric] del: append_assoc)
  moreover have "take n (drop (m * n) (xs @ ys)) = drop (m * n) xs" using Suc.prems by simp
  ultimately show ?case by simp
qed simp

lemma concat_pieces:
  "list_all (\<lambda>x. length x = n) xs \<Longrightarrow> map (\<lambda>i. take n (drop (i * n) (concat xs))) [0..<length xs] = xs"
proof (induction xs)
  case (Cons x xs)
  then have "map (\<lambda>i. take n (drop (Suc i * n) (concat (x # xs)))) [0..<length xs] = xs" by (simp add: add.commute)
  then show ?case using Cons.prems by (simp add: upt_conv_Cons map_Suc_upt [symmetric] o_def del: upt_Suc)
qed simp

lemma length_concat_pieces: "list_all (\<lambda>x. length x = n) xs \<Longrightarrow> length (concat xs) = length xs * n"
  by (induction xs) auto

end
