(* ===== verification/Imt.thy ===== *)
theory Imt
  imports Prelude
begin

text \<open>
  The unified incremental Merkle tree of \<open>packages/core/src/imt.ts\<close>: the class \<open>ImtTree\<close>
  (one frontier for single-leaf inserts and for batch subtrees), the dense recomputation
  \<open>naiveRoot\<close>, the authentication path \<open>merklePath\<close> and its verification counterpart
  \<open>foldToRoot\<close>. The hash \<open>h\<close> is \<open>poseidon2\<close>.

  A method that mutates the tree returns the tree it leaves behind together with the error it
  threw, if any: JavaScript keeps the writes made before a throw.
\<close>

subsection \<open>The class and its operations\<close>

datatype imt_error =
    BadHeight | BadBatchSize | LogBExceedsHeight
  | TooManyLeaves | SubtreeRootMismatch
  | PathOutOfRange | LeafNotRecorded nat
  | NotAligned | TreeFull

record imt =
  height :: nat
  batchSize :: nat
  logB :: nat
  zeros :: "int list"
  filledSubtrees :: "int list"
  nextLeafIndex :: nat
  tree_root :: int
  leaf_log :: "int option list"

definition isPowerOfTwo :: "nat \<Rightarrow> bool" where
  "isPowerOfTwo n \<longleftrightarrow> n \<ge> 1 \<and> 2 ^ log2n n = n"

primrec zero_at :: "hash2 \<Rightarrow> nat \<Rightarrow> int" where
  "zero_at h 0 = 0"
| "zero_at h (Suc k) = h (zero_at h k) (zero_at h k)"

definition zeros_list :: "hash2 \<Rightarrow> nat \<Rightarrow> int list" where
  "zeros_list h H = map (zero_at h) [0..<Suc H]"

definition new_imt :: "hash2 \<Rightarrow> nat \<Rightarrow> nat \<Rightarrow> imt_error + imt" where
  "new_imt h H B =
     (if H < 1 then Inl BadHeight
      else if \<not> isPowerOfTwo B then Inl BadBatchSize
      else if log2n B > H then Inl LogBExceedsHeight
      else let zs = zeros_list h H in
        Inr \<lparr>height = H, batchSize = B, logB = log2n B, zeros = zs,
             filledSubtrees = take H zs, nextLeafIndex = 0, tree_root = zs ! H,
             leaf_log = []\<rparr>)"

text \<open>The fold of \<open>_insertNode\<close>: \<open>n\<close> levels from level \<open>i\<close> upwards.\<close>

fun insert_fold ::
  "hash2 \<Rightarrow> int list \<Rightarrow> nat \<Rightarrow> nat \<Rightarrow> int list \<Rightarrow> int \<Rightarrow> nat \<Rightarrow> int list \<times> int" where
  "insert_fold h zs 0 i fs node idx = (fs, node)"
| "insert_fold h zs (Suc n) i fs node idx =
     (let isEven = even idx;
          fs' = (if isEven then fs[i := node] else fs);
          left = (if isEven then node else fs' ! i);
          right = (if isEven then zs ! i else node)
      in insert_fold h zs n (Suc i) fs' (h left right) (idx div 2))"

definition insertNode :: "hash2 \<Rightarrow> imt \<Rightarrow> int \<Rightarrow> nat \<Rightarrow> imt \<times> imt_error option" where
  "insertNode h t node startLevel =
     (let stride = 2 ^ startLevel in
      if nextLeafIndex t mod stride \<noteq> 0 then (t, Some NotAligned)
      else if nextLeafIndex t + stride > 2 ^ height t then (t, Some TreeFull)
      else let (fs, r) = insert_fold h (zeros t) (height t - startLevel) startLevel
                           (filledSubtrees t) node (nextLeafIndex t div stride)
        in (t\<lparr>filledSubtrees := fs, tree_root := r,
              nextLeafIndex := nextLeafIndex t + stride\<rparr>, None))"

definition appendLeaf :: "hash2 \<Rightarrow> imt \<Rightarrow> int \<Rightarrow> imt \<times> imt_error option" where
  "appendLeaf h t leaf =
     insertNode h (t\<lparr>leaf_log := js_set (leaf_log t) (nextLeafIndex t) (Some leaf)\<rparr>) leaf 0"

fun pad_loop :: "hash2 \<Rightarrow> nat \<Rightarrow> imt \<Rightarrow> imt \<times> imt_error option" where
  "pad_loop h 0 t = (t, None)"
| "pad_loop h (Suc n) t =
     (case insertNode h (t\<lparr>leaf_log := js_set (leaf_log t) (nextLeafIndex t) (Some (zeros t ! 0))\<rparr>)
             (zeros t ! 0) 0 of
        (t', None) \<Rightarrow> pad_loop h n t'
      | (t', Some e) \<Rightarrow> (t', Some e))"

definition padToBlockBoundary :: "hash2 \<Rightarrow> imt \<Rightarrow> imt \<times> imt_error option" where
  "padToBlockBoundary h t =
     pad_loop h ((batchSize t - nextLeafIndex t mod batchSize t) mod batchSize t) t"

text \<open>One level up, for a level of even length.\<close>

definition pair_level :: "hash2 \<Rightarrow> int list \<Rightarrow> int list" where
  "pair_level h level = map (\<lambda>j. h (level ! (2 * j)) (level ! (2 * j + 1))) [0..<length level div 2]"

definition computeSubtreeRoot :: "hash2 \<Rightarrow> imt \<Rightarrow> int list \<Rightarrow> imt_error + int" where
  "computeSubtreeRoot h t commitments =
     (if length commitments > batchSize t then Inl TooManyLeaves
      else let base = map (\<lambda>k. if k < length commitments then commitments ! k else zeros t ! 0)
                        [0..<batchSize t]
        in Inr ((pair_level h ^^ logB t) base ! 0))"

definition batch_record :: "imt \<Rightarrow> int list option \<Rightarrow> int option list" where
  "batch_record t leaves = map (\<lambda>k. case leaves of None \<Rightarrow> None
       | Some ls \<Rightarrow> Some (if k < length ls then ls ! k else zeros t ! 0)) [0..<batchSize t]"

definition attachSubtree ::
  "hash2 \<Rightarrow> imt \<Rightarrow> int \<Rightarrow> int list option \<Rightarrow> imt \<times> imt_error option" where
  "attachSubtree h t subtreeRoot leaves =
     (case (case leaves of None \<Rightarrow> None
            | Some ls \<Rightarrow> (if length ls > batchSize t then Some TooManyLeaves
                else if computeSubtreeRoot h t ls \<noteq> Inr subtreeRoot then Some SubtreeRootMismatch
                else None)) of
        Some e \<Rightarrow> (t, Some e)
      | None \<Rightarrow>
          (case padToBlockBoundary h t of
             (t1, Some e) \<Rightarrow> (t1, Some e)
           | (t1, None) \<Rightarrow>
               insertNode h (t1\<lparr>leaf_log := js_set_run (leaf_log t1) (nextLeafIndex t1)
                                  (batch_record t1 leaves)\<rparr>) subtreeRoot (logB t1)))"

text \<open>One level up, for a level of any length: a missing right child is the zero of the level.\<close>

definition level_up :: "hash2 \<Rightarrow> int \<Rightarrow> int list \<Rightarrow> int list" where
  "level_up h z level =
     map (\<lambda>k. h (level ! (2 * k)) (if 2 * k + 1 < length level then level ! (2 * k + 1) else z))
       [0..<(length level + 1) div 2]"

fun path_walk ::
  "hash2 \<Rightarrow> int list \<Rightarrow> nat \<Rightarrow> nat \<Rightarrow> nat \<Rightarrow> int list \<Rightarrow> int list \<times> nat list" where
  "path_walk h zs leafIndex 0 j level = ([], [])"
| "path_walk h zs leafIndex (Suc n) j level =
     (let idx = leafIndex div 2 ^ j; bit = idx mod 2;
          si = (if bit = 1 then idx - 1 else idx + 1);
          sibling = (if si < length level then level ! si else zs ! j);
          (siblings, pathIndices) = path_walk h zs leafIndex n (Suc j) (level_up h (zs ! j) level)
      in (sibling # siblings, bit # pathIndices))"

definition merklePath :: "hash2 \<Rightarrow> imt \<Rightarrow> nat \<Rightarrow> imt_error + (int list \<times> nat list)" where
  "merklePath h t leafIndex =
     (if leafIndex \<ge> nextLeafIndex t then Inl PathOutOfRange
      else case List.find (\<lambda>i. js_get (leaf_log t) i = None) [0..<nextLeafIndex t] of
        Some i \<Rightarrow> Inl (LeafNotRecorded i)
      | None \<Rightarrow> Inr (path_walk h (zeros t) leafIndex (height t) 0
          (map (\<lambda>i. the (js_get (leaf_log t) i)) [0..<nextLeafIndex t])))"

fun naive_fold :: "hash2 \<Rightarrow> nat \<Rightarrow> nat \<Rightarrow> int list \<Rightarrow> int list" where
  "naive_fold h 0 j level = level"
| "naive_fold h (Suc n) j level = naive_fold h n (Suc j) (level_up h (zero_at h j) level)"

definition naiveRoot :: "hash2 \<Rightarrow> int option list \<Rightarrow> nat \<Rightarrow> int" where
  "naiveRoot h leaves H =
     (if leaves = [] then zeros_list h H ! H
      else naive_fold h H 0 (map (\<lambda>x. case x of None \<Rightarrow> 0 | Some v \<Rightarrow> v) leaves) ! 0)"

fun fold_from :: "hash2 \<Rightarrow> int \<Rightarrow> int list \<Rightarrow> nat \<Rightarrow> nat \<Rightarrow> int" where
  "fold_from h cur [] leafIndex j = cur"
| "fold_from h cur (s # ss) leafIndex j =
     fold_from h (if (leafIndex div 2 ^ j) mod 2 = 1 then h s cur else h cur s) ss leafIndex (Suc j)"

definition foldToRoot :: "hash2 \<Rightarrow> int \<Rightarrow> int list \<Rightarrow> nat \<Rightarrow> int" where
  "foldToRoot h leaf siblings leafIndex = fold_from h leaf siblings leafIndex 0"

text \<open>The height of the deployed pool's tree, \<open>H\<close> of \<open>packages/core/src/chain/network.ts\<close>.\<close>

definition H_TREE :: nat where
  "H_TREE = 32"

end
