(* ===== verification/Imt_Correct.thy ===== *)
theory Imt_Correct
  imports Imt
begin

text \<open>
  The abstract specification of the tree of \<^theory_text>\<open>Imt\<close> and the refinement.

  A dense Merkle tree is described by a leaf function \<open>f\<close> and a partial map \<open>b\<close> from block
  numbers to opaque subtree roots (a disburse batch attached without its leaves):
  \<open>dense h lb f b j m\<close> is the value of node \<open>m\<close> at level \<open>j\<close>, where level \<open>lb\<close> is the level
  of the blocks. The frontier tree refines it: \<open>frontier_ok\<close> says that the stored root is the
  dense root and that every frontier slot the next insertion can read holds the dense value of
  the left sibling.
\<close>

subsection \<open>The dense tree\<close>

fun dense :: "hash2 \<Rightarrow> nat \<Rightarrow> (nat \<Rightarrow> int) \<Rightarrow> (nat \<Rightarrow> int option) \<Rightarrow> nat \<Rightarrow> nat \<Rightarrow> int" where
  "dense h lb f b 0 m = (case (if lb = 0 then b m else None) of Some r \<Rightarrow> r | None \<Rightarrow> f m)"
| "dense h lb f b (Suc j) m =
     (case (if lb = Suc j then b m else None) of
        Some r \<Rightarrow> r
      | None \<Rightarrow> h (dense h lb f b j (2 * m)) (dense h lb f b j (Suc (2 * m))))"

definition in_node :: "nat \<Rightarrow> nat \<Rightarrow> nat \<Rightarrow> bool" where
  "in_node j m x \<longleftrightarrow> m * 2 ^ j \<le> x \<and> x < Suc m * 2 ^ j"

lemma in_node_children:
  "in_node j (2 * m) x \<Longrightarrow> in_node (Suc j) m x"
  "in_node j (Suc (2 * m)) x \<Longrightarrow> in_node (Suc j) m x"
  by (auto simp: in_node_def algebra_simps)

lemma in_node_self: "in_node j m (m * 2 ^ j)"
  by (simp add: in_node_def)

text \<open>Two views that agree under a node give it the same value.\<close>

lemma dense_cong:
  assumes "\<And>x. in_node j m x \<Longrightarrow> f x = f' x"
    and "\<And>k. in_node j m (k * 2 ^ lb) \<Longrightarrow> b k = b' k"
  shows "dense h lb f b j m = dense h lb f' b' j m"
  using assms
proof (induction j arbitrary: m)
  case 0
  then show ?case by (auto simp: in_node_def split: option.splits)
next
  case (Suc j)
  have "dense h lb f b j (2 * m) = dense h lb f' b' j (2 * m)"
    and "dense h lb f b j (Suc (2 * m)) = dense h lb f' b' j (Suc (2 * m))"
    by (rule Suc.IH; auto intro: Suc.prems in_node_children)+
  moreover have "lb = Suc j \<Longrightarrow> b m = b' m"
    using Suc.prems(2) [of m] in_node_self [of "Suc j" m] by simp
  ultimately show ?case by (auto split: option.splits)
qed

text \<open>A node with no real leaf and no batch under it is the zero of its level.\<close>

lemma dense_zero:
  assumes "\<And>x. in_node j m x \<Longrightarrow> f x = 0"
    and "\<And>k. in_node j m (k * 2 ^ lb) \<Longrightarrow> b k = None"
  shows "dense h lb f b j m = zero_at h j"
  using assms
proof (induction j arbitrary: m)
  case 0
  then show ?case by (auto simp: in_node_def split: option.splits)
next
  case (Suc j)
  have "dense h lb f b j (2 * m) = zero_at h j"
    and "dense h lb f b j (Suc (2 * m)) = zero_at h j"
    by (rule Suc.IH; auto intro: Suc.prems in_node_children)+
  moreover have "lb = Suc j \<Longrightarrow> b m = None"
    using Suc.prems(2) [of m] in_node_self [of "Suc j" m] by simp
  ultimately show ?case by (auto split: option.splits)
qed

lemma dense_batch: "b m = Some r \<Longrightarrow> dense h lb f b lb m = r"
  by (cases lb) auto

lemma dense_step: "b m = None \<or> lb \<noteq> Suc j \<Longrightarrow>
    dense h lb f b (Suc j) m = h (dense h lb f b j (2 * m)) (dense h lb f b j (Suc (2 * m)))"
  by auto

declare dense.simps(2) [simp del]

lemma dense_plain: "dense h lb f Map.empty (Suc j) m =
    h (dense h lb f Map.empty j (2 * m)) (dense h lb f Map.empty j (Suc (2 * m)))"
  by (simp add: dense_step)

subsection \<open>Zeros\<close>

lemma length_zeros_list [simp]: "length (zeros_list h H) = Suc H"
  by (simp add: zeros_list_def)

lemma nth_zeros_list [simp]: "j \<le> H \<Longrightarrow> zeros_list h H ! j = zero_at h j"
  by (simp add: zeros_list_def nth_append del: upt_Suc)

subsection \<open>The frontier invariant\<close>

definition view_upto :: "nat \<Rightarrow> nat \<Rightarrow> (nat \<Rightarrow> int) \<Rightarrow> (nat \<Rightarrow> int option) \<Rightarrow> bool" where
  "view_upto lb n f b \<longleftrightarrow>
     (\<forall>x\<ge>n. f x = 0) \<and> (\<forall>k r. b k = Some r \<longrightarrow> Suc k * 2 ^ lb \<le> n)"

definition imt_shape :: "hash2 \<Rightarrow> imt \<Rightarrow> bool" where
  "imt_shape h t \<longleftrightarrow>
     zeros t = zeros_list h (height t) \<and> length (filledSubtrees t) = height t \<and>
     batchSize t = 2 ^ logB t \<and> logB t \<le> height t \<and> nextLeafIndex t \<le> 2 ^ height t"

definition frontier_ok :: "hash2 \<Rightarrow> imt \<Rightarrow> (nat \<Rightarrow> int) \<Rightarrow> (nat \<Rightarrow> int option) \<Rightarrow> bool" where
  "frontier_ok h t f b \<longleftrightarrow>
     imt_shape h t \<and> view_upto (logB t) (nextLeafIndex t) f b \<and>
     (\<forall>i<height t. odd (nextLeafIndex t div 2 ^ i) \<longrightarrow>
        filledSubtrees t ! i = dense h (logB t) f b i (nextLeafIndex t div 2 ^ i - 1)) \<and>
     tree_root t = dense h (logB t) f b (height t) 0"

lemma view_upto_zero_node:
  assumes "view_upto lb n f b" and "n \<le> m * 2 ^ j"
  shows "dense h lb f b j m = zero_at h j"
proof (rule dense_zero)
  fix x assume "in_node j m x"
  then show "f x = 0" using assms by (auto simp: view_upto_def in_node_def)
next
  fix k assume k: "in_node j m (k * 2 ^ lb)"
  show "b k = None"
  proof (rule ccontr)
    assume "b k \<noteq> None"
    then have "Suc k * 2 ^ lb \<le> n" using assms(1) by (auto simp: view_upto_def)
    moreover have "k * 2 ^ lb < Suc k * 2 ^ lb" by simp
    ultimately have "k * 2 ^ lb < n" by (rule less_le_trans [rotated])
    with k assms(2) show False by (simp add: in_node_def)
  qed
qed

text \<open>The fold of \<open>_insertNode\<close> computes the dense nodes on the insertion path.\<close>

lemma insert_fold_dense:
  assumes "i + s = H" and "L \<le> i" and "2 ^ L dvd n"
    and v: "view_upto lb (n + 2 ^ L) f b" and "lb \<le> L \<or> (\<forall>k. in_node lb k n \<longrightarrow> b k = None)"
    and "length fs = H" and "length zs = Suc H" and z: "\<And>j. j \<le> H \<Longrightarrow> zs ! j = zero_at h j"
    and "node = dense h lb f b i (n div 2 ^ i)"
    and "\<And>k. \<lbrakk>i \<le> k; k < H; odd (n div 2 ^ k)\<rbrakk> \<Longrightarrow> fs ! k = dense h lb f b k (n div 2 ^ k - 1)"
  shows "\<exists>fs'. insert_fold h zs s i fs node (n div 2 ^ i) = (fs', dense h lb f b H (n div 2 ^ H)) \<and>
    length fs' = H \<and> (\<forall>k<H. fs' ! k =
      (if i \<le> k \<and> even (n div 2 ^ k) then dense h lb f b k (n div 2 ^ k) else fs ! k))"
  using assms(1,2,6,9,10)
proof (induction s arbitrary: i fs node)
  case 0
  then show ?case by auto
next
  case (Suc s)
  let ?D = "dense h lb f b" and ?q = "n div 2 ^ i"
  let ?fs = "if even ?q then fs[i := node] else fs"
  have iH: "i < H" using Suc.prems(1) by simp
  have up: "?D (Suc i) (n div 2 ^ Suc i) =
      h (?D i (2 * (?q div 2))) (?D i (Suc (2 * (?q div 2))))"
  proof -
    have "b (n div 2 ^ Suc i) = None \<or> lb \<noteq> Suc i"
    proof (cases "lb = Suc i")
      case True
      then have "\<forall>k. in_node lb k n \<longrightarrow> b k = None" using assms(5) Suc.prems(2) by auto
      moreover have "in_node lb (n div 2 ^ lb) n"
        by (simp add: in_node_def) (metis dividend_less_div_times mult.commute zero_less_numeral zero_less_power)
      ultimately show ?thesis using True by simp
    qed simp
    then show ?thesis by (subst dense_step) (simp_all only: div_pow_Suc)
  qed
  have node': "h (if even ?q then node else ?fs ! i) (if even ?q then zs ! i else node)
      = ?D (Suc i) (n div 2 ^ Suc i)"
  proof (cases "even ?q")
    case True
    have "n + 2 ^ L \<le> Suc ?q * 2 ^ i" by (rule aligned_step [OF Suc.prems(2) assms(3)])
    then have "?D i (Suc ?q) = zero_at h i" by (rule view_upto_zero_node [OF v])
    then show ?thesis unfolding up using True iH Suc.prems(4) by (simp add: z double_half)
  next
    case False
    then have "Suc (2 * (?q div 2)) = ?q" by (rule double_half)
    moreover from this have "2 * (?q div 2) = ?q - 1" by linarith
    ultimately show ?thesis unfolding up using False iH Suc.prems(4) Suc.prems(5) [of i] by simp
  qed
  have ih: "\<exists>fs'. insert_fold h zs s (Suc i) ?fs (?D (Suc i) (n div 2 ^ Suc i)) (n div 2 ^ Suc i)
      = (fs', ?D H (n div 2 ^ H)) \<and> length fs' = H \<and> (\<forall>k<H. fs' ! k =
      (if Suc i \<le> k \<and> even (n div 2 ^ k) then ?D k (n div 2 ^ k) else ?fs ! k))"
    by (rule Suc.IH) (use Suc.prems in auto)
  have "insert_fold h zs (Suc s) i fs node ?q
      = insert_fold h zs s (Suc i) ?fs (?D (Suc i) (n div 2 ^ Suc i)) (n div 2 ^ Suc i)"
    by (simp only: insert_fold.simps Let_def node' div_pow_Suc)
  with ih obtain fs' where "insert_fold h zs (Suc s) i fs node ?q = (fs', ?D H (n div 2 ^ H))"
    and "length fs' = H" and "\<forall>k<H. fs' ! k =
      (if Suc i \<le> k \<and> even (n div 2 ^ k) then ?D k (n div 2 ^ k) else ?fs ! k)" by auto
  moreover from this(3) have "\<forall>k<H. fs' ! k =
      (if i \<le> k \<and> even (n div 2 ^ k) then ?D k (n div 2 ^ k) else fs ! k)"
  proof (intro allI impI)
    fix k assume "k < H"
    with \<open>\<forall>k<H. fs' ! k = _ k\<close> show "fs' ! k =
        (if i \<le> k \<and> even (n div 2 ^ k) then ?D k (n div 2 ^ k) else fs ! k)"
      using Suc.prems(3,4) by (cases "k = i") (auto simp: Suc_le_eq)
  qed
  ultimately show ?case by blast
qed


text \<open>
  \<open>insertNode\<close> refines the dense update: given any dense view that agrees with the old one below
  \<open>n\<close> and whose new node is the inserted one, the tree after the insertion refines it.
\<close>

lemma insertNode_refines:
  assumes ok: "frontier_ok h t f b" and "2 ^ L dvd nextLeafIndex t"
    and room: "nextLeafIndex t + 2 ^ L \<le> 2 ^ height t"
    and v: "view_upto (logB t) (nextLeafIndex t + 2 ^ L) f' b'"
    and agree: "\<And>x. x < nextLeafIndex t \<Longrightarrow> f' x = f x"
      "\<And>k. k * 2 ^ logB t < nextLeafIndex t \<Longrightarrow> b' k = b k"
    and lv: "logB t \<le> L \<or> (\<forall>k. in_node (logB t) k (nextLeafIndex t) \<longrightarrow> b' k = None)"
    and node: "node = dense h (logB t) f' b' L (nextLeafIndex t div 2 ^ L)"
  shows "\<exists>t'. insertNode h t node L = (t', None) \<and> frontier_ok h t' f' b' \<and>
    nextLeafIndex t' = nextLeafIndex t + 2 ^ L \<and> height t' = height t \<and> logB t' = logB t \<and>
    batchSize t' = batchSize t \<and> zeros t' = zeros t \<and> leaf_log t' = leaf_log t"
proof -
  let ?n = "nextLeafIndex t" and ?H = "height t" and ?fs = "filledSubtrees t"
  let ?D = "dense h (logB t) f b" and ?D' = "dense h (logB t) f' b'"
  from ok have sh: "imt_shape h t" by (simp add: frontier_ok_def)
  have n: "?n < 2 ^ ?H" using room by (meson less_le_trans less_add_same_cancel1 zero_less_numeral zero_less_power)
  have LH: "L \<le> ?H"
  proof (rule ccontr)
    assume "\<not> L \<le> ?H"
    then have "(2::nat) ^ ?H < 2 ^ L" by simp
    with room show False by linarith
  qed
  have old: "?D' i (?n div 2 ^ i - 1) = ?fs ! i" if "i < ?H" "odd (?n div 2 ^ i)" for i
  proof -
    have "in_node i (?n div 2 ^ i - 1) x \<Longrightarrow> x < ?n" for x
      using that(2)
    proof -
      assume x: "in_node i (?n div 2 ^ i - 1) x"
      have "Suc (?n div 2 ^ i - 1) = ?n div 2 ^ i" using that(2) odd_pos by fastforce
      then show "x < ?n" using x unfolding in_node_def
        by (metis div_times_less_eq_dividend less_le_trans)
    qed
    then have "?D' i (?n div 2 ^ i - 1) = ?D i (?n div 2 ^ i - 1)"
      by (intro dense_cong agree) auto
    then show ?thesis using ok that by (simp add: frontier_ok_def)
  qed
  obtain fs' where fold: "insert_fold h (zeros t) (?H - L) L ?fs node (?n div 2 ^ L) = (fs', ?D' ?H (?n div 2 ^ ?H))"
    and len: "length fs' = ?H" and fs': "\<forall>k<?H. fs' ! k =
      (if L \<le> k \<and> even (?n div 2 ^ k) then ?D' k (?n div 2 ^ k) else ?fs ! k)"
    using insert_fold_dense [of L "?H - L" ?H L ?n "logB t" f' b' ?fs "zeros t" h node]
      LH assms(2) v lv node old sh by (auto simp: imt_shape_def)
  let ?t' = "t\<lparr>filledSubtrees := fs', tree_root := ?D' ?H 0, nextLeafIndex := ?n + 2 ^ L\<rparr>"
  have slots: "fs' ! i = ?D' i ((?n + 2 ^ L) div 2 ^ i - 1)"
    if i: "i < ?H" and o: "odd ((?n + 2 ^ L) div 2 ^ i)" for i
  proof (cases "L \<le> i")
    case False
    then have "even ((?n + 2 ^ L) div 2 ^ i)"
      using assms(2) by (intro dvd_div_pow_even) auto
    with o show ?thesis by simp
  next
    case True
    then have "(?n + 2 ^ L) div 2 ^ i = ?n div 2 ^ i \<or> (?n + 2 ^ L) div 2 ^ i = Suc (?n div 2 ^ i)"
      using assms(2) by (rule aligned_carry)
    with o i True fs' old [of i] show ?thesis by auto
  qed
  have "insertNode h t node L = (?t', None)"
    using assms(2) room fold n by (simp add: insertNode_def dvd_imp_mod_0)
  moreover have "frontier_ok h ?t' f' b'"
    using sh room v len slots by (simp add: frontier_ok_def imt_shape_def)
  ultimately show ?thesis by simp
qed


subsection \<open>The operations keep the tree in step with its leaf record\<close>

definition log_view :: "int option list \<Rightarrow> nat \<Rightarrow> int" where
  "log_view log x = (case js_get log x of None \<Rightarrow> 0 | Some v \<Rightarrow> v)"

definition imt_inv :: "hash2 \<Rightarrow> imt \<Rightarrow> (nat \<Rightarrow> int option) \<Rightarrow> bool" where
  "imt_inv h t b \<longleftrightarrow>
     frontier_ok h t (log_view (leaf_log t)) b \<and> length (leaf_log t) = nextLeafIndex t"

lemma log_view_append [simp]:
  "log_view (log @ vs) x = (if x < length log then log_view log x
     else case js_get vs (x - length log) of None \<Rightarrow> 0 | Some v \<Rightarrow> v)"
  by (auto simp: log_view_def js_get_def nth_append)

lemma log_view_beyond: "length log \<le> x \<Longrightarrow> log_view log x = 0"
  by (simp add: log_view_def js_get_def)

lemma frontier_ok_log [simp]: "frontier_ok h (t\<lparr>leaf_log := l\<rparr>) f b = frontier_ok h t f b"
  by (simp add: frontier_ok_def imt_shape_def)

lemma new_imt_inv:
  assumes "new_imt h H B = Inr t"
  shows "imt_inv h t Map.empty \<and> height t = H \<and> batchSize t = B \<and> nextLeafIndex t = 0 \<and> leaf_log t = []"
proof -
  have B: "1 \<le> H" "isPowerOfTwo B" "log2n B \<le> H"
    and t: "t = \<lparr>height = H, batchSize = B, logB = log2n B, zeros = zeros_list h H,
      filledSubtrees = take H (zeros_list h H), nextLeafIndex = 0, tree_root = zeros_list h H ! H,
      leaf_log = []\<rparr>"
    using assms by (auto simp: new_imt_def Let_def split: if_splits)
  have "dense h (log2n B) (log_view []) Map.empty H 0 = zero_at h H"
    by (rule dense_zero) (simp_all add: log_view_def)
  with B show ?thesis
    by (auto simp: t imt_inv_def frontier_ok_def imt_shape_def view_upto_def isPowerOfTwo_def log_view_def)
qed

lemma appendLeaf_refines:
  assumes inv: "imt_inv h t b" and "nextLeafIndex t < 2 ^ height t"
  shows "\<exists>t'. appendLeaf h t v = (t', None) \<and> imt_inv h t' b \<and> leaf_log t' = leaf_log t @ [Some v] \<and>
    nextLeafIndex t' = Suc (nextLeafIndex t) \<and> height t' = height t \<and> logB t' = logB t \<and>
    batchSize t' = batchSize t \<and> zeros t' = zeros t"
proof -
  let ?n = "nextLeafIndex t" and ?log = "leaf_log t @ [Some v]"
  from inv have len: "length (leaf_log t) = ?n" and vw: "view_upto (logB t) ?n (log_view (leaf_log t)) b"
    by (simp_all add: imt_inv_def frontier_ok_def)
  have no_batch: "b k = None" if "in_node (logB t) k ?n" for k
    using vw that by (cases "b k") (auto simp: view_upto_def in_node_def)
  have 1: "frontier_ok h (t\<lparr>leaf_log := ?log\<rparr>) (log_view (leaf_log t)) b"
    using inv by (simp add: imt_inv_def)
  have 2: "view_upto (logB t) (?n + 2 ^ 0) (log_view ?log) b"
    using vw len by (auto simp: view_upto_def js_get_def le_Suc_eq)
  have 3: "v = dense h (logB t) (log_view ?log) b 0 (?n div 2 ^ 0)"
    using no_batch [of ?n] len by (auto simp: in_node_def js_get_def split: option.splits)
  obtain t' where "insertNode h (t\<lparr>leaf_log := ?log\<rparr>) v 0 = (t', None)"
    and "frontier_ok h t' (log_view ?log) b" and "leaf_log t' = ?log" and "nextLeafIndex t' = Suc ?n"
    and "height t' = height t" "logB t' = logB t" "batchSize t' = batchSize t" "zeros t' = zeros t"
    using insertNode_refines [OF 1, of 0 "log_view ?log" b v] 2 3 no_batch assms(2) len by auto
  then show ?thesis
    using len js_set_end [of "leaf_log t" "Some v"] by (auto simp: appendLeaf_def imt_inv_def)
qed

lemma appendLeaf_full:
  assumes "imt_inv h t b" and "nextLeafIndex t = 2 ^ height t"
  shows "snd (appendLeaf h t v) = Some TreeFull"
  using assms by (simp add: appendLeaf_def insertNode_def)

lemma pad_loop_refines:
  assumes "imt_inv h t b" and "nextLeafIndex t + p \<le> 2 ^ height t"
  shows "\<exists>t'. pad_loop h p t = (t', None) \<and> imt_inv h t' b \<and>
    leaf_log t' = leaf_log t @ replicate p (Some 0) \<and>
    nextLeafIndex t' = nextLeafIndex t + p \<and> height t' = height t \<and> logB t' = logB t \<and>
    batchSize t' = batchSize t \<and> zeros t' = zeros t"
  using assms
proof (induction p arbitrary: t)
  case 0
  then show ?case by auto
next
  case (Suc p)
  have z: "zeros t ! 0 = 0"
    using Suc.prems(1) by (simp add: imt_inv_def frontier_ok_def imt_shape_def)
  obtain t1 where t1: "appendLeaf h t 0 = (t1, None)" "imt_inv h t1 b" "leaf_log t1 = leaf_log t @ [Some 0]"
    "nextLeafIndex t1 = Suc (nextLeafIndex t)" "height t1 = height t" "logB t1 = logB t"
    "batchSize t1 = batchSize t" "zeros t1 = zeros t"
    using appendLeaf_refines [OF Suc.prems(1), of 0] Suc.prems(2) by auto
  have "nextLeafIndex t1 + p \<le> 2 ^ height t1" using Suc.prems(2) t1 by simp
  from Suc.IH [OF t1(2) this] t1 z show ?case
    by (auto simp: appendLeaf_def)
qed


subsection \<open>Attaching a batch\<close>

lemma pair_level_dense:
  "pair_level h (map (dense h lb f Map.empty j) [0..<2 * c]) = map (dense h lb f Map.empty (Suc j)) [0..<c]"
  by (auto simp: pair_level_def dense_step)

lemma pair_levels_dense:
  "(pair_level h ^^ k) (map (dense h lb f Map.empty j) [0..<2 ^ k * c]) =
     map (dense h lb f Map.empty (j + k)) [0..<c]"
proof (induction k arbitrary: j)
  case 0
  then show ?case by simp
next
  case (Suc k)
  have "(2::nat) ^ Suc k * c = 2 * (2 ^ k * c)" by simp
  then show ?case
    by (simp only: funpow_Suc_right o_apply pair_level_dense Suc.IH add_Suc_right add_Suc_shift)
qed

lemma dense_shift:
  "j \<le> K \<Longrightarrow> dense h lb f Map.empty j (c * 2 ^ (K - j) + i) =
     dense h lb (\<lambda>x. f (c * 2 ^ K + x)) Map.empty j i"
proof (induction j arbitrary: i)
  case 0
  then show ?case by simp
next
  case (Suc j)
  then have "(2::nat) ^ (K - j) = 2 * 2 ^ (K - Suc j)"
    by (metis Suc_diff_Suc Suc_le_lessD power_Suc)
  then have "2 * (c * 2 ^ (K - Suc j) + i) = c * 2 ^ (K - j) + 2 * i" by simp
  moreover from this have "Suc (2 * (c * 2 ^ (K - Suc j) + i)) = c * 2 ^ (K - j) + Suc (2 * i)" by simp
  ultimately show ?case
    using Suc.IH [of "2 * i"] Suc.IH [of "Suc (2 * i)"] Suc.prems by (simp only: dense_plain)
qed

lemma subtree_root_dense:
  assumes "length base = 2 ^ k" and "\<And>x. x < 2 ^ k \<Longrightarrow> f (c * 2 ^ k + x) = base ! x"
    and "\<And>m. in_node k c (m * 2 ^ lb) \<Longrightarrow> b m = None"
  shows "(pair_level h ^^ k) base ! 0 = dense h lb f b k c"
proof -
  let ?g = "\<lambda>x. f (c * 2 ^ k + x)"
  have "base = map (dense h lb ?g Map.empty 0) [0..<2 ^ k * 1]"
    using assms(1,2) by (auto intro: nth_equalityI)
  then have "(pair_level h ^^ k) base = [dense h lb ?g Map.empty k 0]"
    using pair_levels_dense [of k h lb ?g 0 1] by simp
  also have "dense h lb ?g Map.empty k 0 = dense h lb f Map.empty k c"
    using dense_shift [of k k h lb f c 0] by simp
  also have "\<dots> = dense h lb f b k c"
    by (rule dense_cong) (auto simp: assms(3))
  finally show ?thesis by simp
qed

definition batch_start :: "imt \<Rightarrow> nat" where
  "batch_start t = nextLeafIndex t + (batchSize t - nextLeafIndex t mod batchSize t) mod batchSize t"

definition batch_base :: "imt \<Rightarrow> int list \<Rightarrow> int list" where
  "batch_base t ls = map (\<lambda>k. if k < length ls then ls ! k else 0) [0..<batchSize t]"

lemma batch_base_zeros:
  "zeros t ! 0 = 0 \<Longrightarrow>
    map (\<lambda>k. if k < length ls then ls ! k else zeros t ! 0) [0..<batchSize t] = batch_base t ls"
  by (simp add: batch_base_def cong: if_cong)

lemma pad_refines:
  assumes inv: "imt_inv h t b"
  shows "\<exists>t'. padToBlockBoundary h t = (t', None) \<and> imt_inv h t' b \<and>
    leaf_log t' = leaf_log t @ replicate (batch_start t - nextLeafIndex t) (Some 0) \<and>
    nextLeafIndex t' = batch_start t \<and> batchSize t' dvd nextLeafIndex t' \<and>
    height t' = height t \<and> logB t' = logB t \<and> batchSize t' = batchSize t \<and> zeros t' = zeros t"
proof -
  from inv have B: "batchSize t = 2 ^ logB t" and le: "nextLeafIndex t \<le> 2 ^ height t"
    and "logB t \<le> height t"
    by (simp_all add: imt_inv_def frontier_ok_def imt_shape_def)
  then have "batchSize t dvd 2 ^ height t" by (simp add: le_imp_power_dvd)
  with B le have "batch_start t \<le> 2 ^ height t" unfolding batch_start_def by (intro pad_least) auto
  then have "nextLeafIndex t + (batchSize t - nextLeafIndex t mod batchSize t) mod batchSize t \<le> 2 ^ height t"
    by (simp add: batch_start_def)
  from pad_loop_refines [OF inv this] show ?thesis
    using pad_aligned [of "batchSize t" "nextLeafIndex t"] B
    by (auto simp: padToBlockBoundary_def batch_start_def)
qed

text \<open>The common part of both kinds of attachment.\<close>

lemma attach_step:
  assumes inv: "imt_inv h t b" and d: "batchSize t dvd nextLeafIndex t"
    and room: "nextLeafIndex t + batchSize t \<le> 2 ^ height t"
    and rec: "length vs = batchSize t"
    and b': "view_upto (logB t) (nextLeafIndex t + batchSize t) (log_view (leaf_log t @ vs)) b'"
      "\<And>k. k * 2 ^ logB t < nextLeafIndex t \<Longrightarrow> b' k = b k"
    and root: "r = dense h (logB t) (log_view (leaf_log t @ vs)) b' (logB t) (nextLeafIndex t div 2 ^ logB t)"
  shows "\<exists>t'. insertNode h (t\<lparr>leaf_log := js_set_run (leaf_log t) (nextLeafIndex t) vs\<rparr>) r (logB t) = (t', None) \<and>
    imt_inv h t' b' \<and> leaf_log t' = leaf_log t @ vs \<and> nextLeafIndex t' = nextLeafIndex t + batchSize t \<and>
    height t' = height t \<and> logB t' = logB t \<and> batchSize t' = batchSize t \<and> zeros t' = zeros t"
proof -
  let ?t = "t\<lparr>leaf_log := leaf_log t @ vs\<rparr>"
  from inv have B: "batchSize t = 2 ^ logB t" and len: "length (leaf_log t) = nextLeafIndex t"
    and ok: "frontier_ok h ?t (log_view (leaf_log t)) b"
    by (simp_all add: imt_inv_def frontier_ok_def imt_shape_def)
  have "\<exists>t'. insertNode h ?t r (logB t) = (t', None) \<and> frontier_ok h t' (log_view (leaf_log t @ vs)) b' \<and>
    nextLeafIndex t' = nextLeafIndex ?t + 2 ^ logB t \<and> height t' = height ?t \<and> logB t' = logB ?t \<and>
    batchSize t' = batchSize ?t \<and> zeros t' = zeros ?t \<and> leaf_log t' = leaf_log ?t"
    using d room b' root B len by (intro insertNode_refines [OF ok]) simp_all
  moreover have "js_set_run (leaf_log t) (nextLeafIndex t) vs = leaf_log t @ vs"
    using len js_set_run_end by metis
  ultimately show ?thesis using B len rec by (auto simp: imt_inv_def)
qed

lemma attach_opaque_refines:
  assumes inv: "imt_inv h t b" and room: "batch_start t + batchSize t \<le> 2 ^ height t"
  shows "\<exists>t'. attachSubtree h t r None = (t', None) \<and>
    imt_inv h t' (b(batch_start t div batchSize t \<mapsto> r)) \<and>
    leaf_log t' = leaf_log t @ replicate (batch_start t - nextLeafIndex t) (Some 0) @ replicate (batchSize t) None \<and>
    nextLeafIndex t' = batch_start t + batchSize t \<and>
    height t' = height t \<and> logB t' = logB t \<and> batchSize t' = batchSize t \<and> zeros t' = zeros t"
proof -
  obtain t1 where t1: "padToBlockBoundary h t = (t1, None)" "imt_inv h t1 b"
    "leaf_log t1 = leaf_log t @ replicate (batch_start t - nextLeafIndex t) (Some 0)"
    "nextLeafIndex t1 = batch_start t" "batchSize t1 dvd nextLeafIndex t1"
    "height t1 = height t" "logB t1 = logB t" "batchSize t1 = batchSize t" "zeros t1 = zeros t"
    using pad_refines [OF inv] by blast
  let ?vs = "replicate (batchSize t1) None" and ?k = "nextLeafIndex t1 div batchSize t1"
  let ?b' = "b(?k \<mapsto> r)"
  from t1(2) have B: "batchSize t1 = 2 ^ logB t1" and len: "length (leaf_log t1) = nextLeafIndex t1"
    and vw: "view_upto (logB t1) (nextLeafIndex t1) (log_view (leaf_log t1)) b"
    by (simp_all add: imt_inv_def frontier_ok_def imt_shape_def)
  have k: "?k * batchSize t1 = nextLeafIndex t1" using t1(5) by simp
  have "view_upto (logB t1) (nextLeafIndex t1 + batchSize t1) (log_view (leaf_log t1 @ ?vs)) ?b'"
    using vw k B len by (fastforce simp: view_upto_def js_get_def split: option.splits)
  moreover have "r = dense h (logB t1) (log_view (leaf_log t1 @ ?vs)) ?b' (logB t1) (nextLeafIndex t1 div 2 ^ logB t1)"
    using B by (subst dense_batch) auto
  moreover have "j * 2 ^ logB t1 < nextLeafIndex t1 \<Longrightarrow> ?b' j = b j" for j
    using k B by auto
  ultimately obtain t' where
    "insertNode h (t1\<lparr>leaf_log := js_set_run (leaf_log t1) (nextLeafIndex t1) ?vs\<rparr>) r (logB t1) = (t', None)"
    "imt_inv h t' ?b'" "leaf_log t' = leaf_log t1 @ ?vs" "nextLeafIndex t' = nextLeafIndex t1 + batchSize t1"
    "height t' = height t1" "logB t' = logB t1" "batchSize t' = batchSize t1" "zeros t' = zeros t1"
    using attach_step [OF t1(2,5), of ?vs ?b' r] room t1 by auto
  moreover have "batch_record t1 None = ?vs" by (simp add: batch_record_def map_replicate_const)
  ultimately show ?thesis using t1 by (auto simp: attachSubtree_def)
qed


lemma attach_known_refines:
  assumes inv: "imt_inv h t b" and room: "batch_start t + batchSize t \<le> 2 ^ height t"
    and cs: "computeSubtreeRoot h t ls = Inr r"
  shows "\<exists>t'. attachSubtree h t r (Some ls) = (t', None) \<and> imt_inv h t' b \<and>
    leaf_log t' = leaf_log t @ replicate (batch_start t - nextLeafIndex t) (Some 0) @ map Some (batch_base t ls) \<and>
    nextLeafIndex t' = batch_start t + batchSize t \<and>
    height t' = height t \<and> logB t' = logB t \<and> batchSize t' = batchSize t \<and> zeros t' = zeros t"
proof -
  obtain t1 where t1: "padToBlockBoundary h t = (t1, None)" "imt_inv h t1 b"
    "leaf_log t1 = leaf_log t @ replicate (batch_start t - nextLeafIndex t) (Some 0)"
    "nextLeafIndex t1 = batch_start t" "batchSize t1 dvd nextLeafIndex t1"
    "height t1 = height t" "logB t1 = logB t" "batchSize t1 = batchSize t" "zeros t1 = zeros t"
    using pad_refines [OF inv] by blast
  let ?base = "batch_base t ls" and ?f = "log_view (leaf_log t1 @ map Some (batch_base t ls))"
  let ?c = "nextLeafIndex t1 div 2 ^ logB t1"
  from t1(2) have B: "batchSize t1 = 2 ^ logB t1" and len: "length (leaf_log t1) = nextLeafIndex t1"
    and vw: "view_upto (logB t1) (nextLeafIndex t1) (log_view (leaf_log t1)) b"
    and z: "zeros t1 ! 0 = 0"
    by (simp_all add: imt_inv_def frontier_ok_def imt_shape_def)
  have lb: "length ?base = batchSize t1" using t1 by (simp add: batch_base_def)
  have c: "?c * 2 ^ logB t1 = nextLeafIndex t1" using t1(5) B by simp
  have none: "b m = None" if m: "in_node (logB t1) ?c (m * 2 ^ logB t1)" for m
  proof (rule ccontr)
    assume "b m \<noteq> None"
    then have "Suc m * 2 ^ logB t1 \<le> nextLeafIndex t1" using vw by (auto simp: view_upto_def)
    with m c show False by (auto simp: in_node_def)
  qed
  have "r = (pair_level h ^^ logB t1) ?base ! 0"
    using cs t1 z batch_base_zeros [of t ls] by (auto simp: computeSubtreeRoot_def Let_def split: if_splits)
  also have "\<dots> = dense h (logB t1) ?f b (logB t1) ?c"
    using lb B c len none by (intro subtree_root_dense) (auto simp: js_get_def)
  finally have "r = dense h (logB t1) ?f b (logB t1) ?c" .
  moreover have "view_upto (logB t1) (nextLeafIndex t1 + batchSize t1) ?f b"
    using vw len lb by (fastforce simp: view_upto_def js_get_def)
  ultimately obtain t' where
    "insertNode h (t1\<lparr>leaf_log := js_set_run (leaf_log t1) (nextLeafIndex t1) (map Some ?base)\<rparr>) r (logB t1) = (t', None)"
    "imt_inv h t' b" "leaf_log t' = leaf_log t1 @ map Some ?base"
    "nextLeafIndex t' = nextLeafIndex t1 + batchSize t1"
    "height t' = height t1" "logB t' = logB t1" "batchSize t' = batchSize t1" "zeros t' = zeros t1"
    using attach_step [OF t1(2,5), of "map Some ?base" b r] room t1 lb by auto
  moreover have "batch_record t1 (Some ls) = map Some ?base"
    using t1 z batch_base_zeros [of t ls] by (auto simp: batch_record_def batch_base_def)
  moreover have "\<not> length ls > batchSize t" using cs by (auto simp: computeSubtreeRoot_def split: if_splits)
  ultimately show ?thesis using t1 cs by (auto simp: attachSubtree_def)
qed

lemma attach_full:
  assumes inv: "imt_inv h t b" and "batch_start t + batchSize t > 2 ^ height t"
    and "leaves = None \<or> (\<exists>ls. leaves = Some ls \<and> computeSubtreeRoot h t ls = Inr r)"
  shows "snd (attachSubtree h t r leaves) = Some TreeFull \<and>
    nextLeafIndex (fst (attachSubtree h t r leaves)) = batch_start t"
proof -
  obtain t1 where t1: "padToBlockBoundary h t = (t1, None)" "imt_inv h t1 b" "nextLeafIndex t1 = batch_start t"
    "batchSize t1 dvd nextLeafIndex t1" "height t1 = height t" "logB t1 = logB t" "batchSize t1 = batchSize t"
    using pad_refines [OF inv] by blast
  from t1(2) have "batchSize t1 = 2 ^ logB t1" by (simp add: imt_inv_def frontier_ok_def imt_shape_def)
  with t1 assms(2,3) show ?thesis
    by (auto simp: attachSubtree_def insertNode_def computeSubtreeRoot_def split: if_splits option.splits)
qed

subsection \<open>Dense recomputation and authentication paths\<close>

definition level_of :: "hash2 \<Rightarrow> nat \<Rightarrow> (nat \<Rightarrow> int) \<Rightarrow> (nat \<Rightarrow> int option) \<Rightarrow> nat \<Rightarrow> nat \<Rightarrow> int list" where
  "level_of h lb f b j w = map (dense h lb f b j) [0..<w]"

text \<open>
  One step of any of the level folds of the code: from the first \<open>w\<close> nodes of level \<open>j\<close>, the
  rest being zeros, to the first half of level \<open>Suc j\<close>.
\<close>

lemma level_up_dense:
  assumes "\<And>m. w \<le> m \<Longrightarrow> dense h lb f b j m = z" and "\<And>m. b m = None \<or> lb \<noteq> Suc j"
  shows "level_up h z (level_of h lb f b j w) = level_of h lb f b (Suc j) ((w + 1) div 2)"
proof (rule nth_equalityI)
  fix k assume "k < length (level_up h z (level_of h lb f b j w))"
  then have "2 * k < w" and "k < (w + 1) div 2" by (simp_all add: level_up_def level_of_def)
  then show "level_up h z (level_of h lb f b j w) ! k = level_of h lb f b (Suc j) ((w + 1) div 2) ! k"
    using assms(1) [of "Suc (2 * k)"] assms(2) [of k]
    by (auto simp: level_up_def level_of_def dense_step)
qed (simp add: level_up_def level_of_def)

lemma dense_zeros_above:
  assumes "\<And>m. w \<le> m \<Longrightarrow> dense h lb f b j m = zero_at h j" and "\<And>m. b m = None \<or> lb \<noteq> Suc j"
    and "(w + 1) div 2 \<le> m"
  shows "dense h lb f b (Suc j) m = zero_at h (Suc j)"
proof -
  have "w \<le> 2 * m" "w \<le> Suc (2 * m)" using assms(3) by linarith+
  then show ?thesis using assms(1) [of "2 * m"] assms(1) [of "Suc (2 * m)"] assms(2) [of m]
    by (simp add: dense_step)
qed

lemma naive_fold_dense:
  assumes "\<And>m. w \<le> m \<Longrightarrow> dense h lb f Map.empty j m = zero_at h j" and "0 < w"
  shows "naive_fold h n j (level_of h lb f Map.empty j w) ! 0 = dense h lb f Map.empty (j + n) 0"
  using assms
proof (induction n arbitrary: j w)
  case 0
  then show ?case by (simp add: level_of_def)
next
  case (Suc n)
  have "0 < (w + 1) div 2" using Suc.prems(2) by linarith
  then show ?case
    using Suc.IH [of "(w + 1) div 2" "Suc j"] Suc.prems dense_zeros_above [of w h lb f Map.empty j]
    by (simp add: level_up_dense)
qed

lemma naiveRoot_dense: "naiveRoot h log H = dense h lb (log_view log) Map.empty H 0"
proof (cases "log = []")
  case True
  then show ?thesis by (simp add: naiveRoot_def log_view_def dense_zero)
next
  case False
  have "map (\<lambda>x. case x of None \<Rightarrow> 0 | Some v \<Rightarrow> v) log = level_of h lb (log_view log) Map.empty 0 (length log)"
    by (rule nth_equalityI) (auto simp: level_of_def log_view_def js_get_def)
  with False show ?thesis
    using naive_fold_dense [of "length log" h lb "log_view log" 0 H]
    by (simp add: naiveRoot_def log_view_beyond)
qed


definition sibling :: "nat \<Rightarrow> nat" where
  "sibling i = (if i mod 2 = 1 then i - 1 else i + 1)"

lemma path_walk_Suc:
  "path_walk h zs i (Suc n) j level =
     (let p = path_walk h zs i n (Suc j) (level_up h (zs ! j) level); s = sibling (i div 2 ^ j)
      in ((if s < length level then level ! s else zs ! j) # fst p, (i div 2 ^ j) mod 2 # snd p))"
  by (simp add: Let_def sibling_def split: prod.split)

definition auth_path ::
  "hash2 \<Rightarrow> nat \<Rightarrow> (nat \<Rightarrow> int) \<Rightarrow> (nat \<Rightarrow> int option) \<Rightarrow> nat \<Rightarrow> nat \<Rightarrow> nat \<Rightarrow> int list" where
  "auth_path h lb f b i j n = map (\<lambda>k. dense h lb f b k (sibling (i div 2 ^ k))) [j..<j + n]"

lemma auth_path_Suc:
  "auth_path h lb f b i j (Suc n) = dense h lb f b j (sibling (i div 2 ^ j)) # auth_path h lb f b i (Suc j) n"
  by (simp add: auth_path_def upt_conv_Cons del: upt_Suc)

text \<open>Folding a node up its dense siblings reaches the dense root.\<close>

lemma fold_auth_path:
  assumes "\<And>k. \<lbrakk>j \<le> k; k < j + n; lb = Suc k\<rbrakk> \<Longrightarrow> b (i div 2 ^ Suc k) = None"
  shows "fold_from h (dense h lb f b j (i div 2 ^ j)) (auth_path h lb f b i j n) i j =
    dense h lb f b (j + n) (i div 2 ^ (j + n))"
  using assms
proof (induction n arbitrary: j)
  case 0
  then show ?case by (simp add: auth_path_def)
next
  case (Suc n)
  let ?q = "i div 2 ^ j"
  have "b (i div 2 ^ Suc j) = None \<or> lb \<noteq> Suc j" using Suc.prems [of j] by auto
  then have "dense h lb f b (Suc j) (?q div 2) =
      h (dense h lb f b j (2 * (?q div 2))) (dense h lb f b j (Suc (2 * (?q div 2))))"
    by (subst dense_step) (simp_all only: div_pow_Suc)
  moreover note half_of [of ?q]
  ultimately have "(if ?q mod 2 = 1 then h (dense h lb f b j (sibling ?q)) (dense h lb f b j ?q)
      else h (dense h lb f b j ?q) (dense h lb f b j (sibling ?q))) = dense h lb f b (Suc j) (i div 2 ^ Suc j)"
    by (simp add: sibling_def div_pow_Suc del: power_Suc)
  then show ?case using Suc.IH [of "Suc j"] Suc.prems by (simp add: auth_path_Suc)
qed

lemma path_walk_dense:
  assumes "\<And>m. w \<le> m \<Longrightarrow> dense h lb f b j m = zero_at h j" and "lb \<le> j \<or> b = Map.empty"
    and "i div 2 ^ j < w" and "j + n \<le> H" and "\<And>k. k \<le> H \<Longrightarrow> zs ! k = zero_at h k"
  shows "path_walk h zs i n j (level_of h lb f b j w) =
    (auth_path h lb f b i j n, map (\<lambda>k. i div 2 ^ k mod 2) [j..<j + n])"
  using assms
proof (induction n arbitrary: j w)
  case 0
  then show ?case by (simp add: auth_path_def)
next
  case (Suc n)
  let ?q = "i div 2 ^ j" and ?lv = "level_of h lb f b j w"
  have nb: "\<And>m. b m = None \<or> lb \<noteq> Suc j" using Suc.prems(2) by auto
  have sib: "(if sibling ?q < length ?lv then ?lv ! sibling ?q else zs ! j) = dense h lb f b j (sibling ?q)"
    using Suc.prems(1) [of "sibling ?q"] Suc.prems(4,5) by (auto simp: level_of_def)
  have "i div 2 ^ Suc j < (w + 1) div 2" using Suc.prems(3) by (simp add: div_pow_Suc del: power_Suc)
  then have "path_walk h zs i n (Suc j) (level_of h lb f b (Suc j) ((w + 1) div 2)) =
      (auth_path h lb f b i (Suc j) n, map (\<lambda>k. i div 2 ^ k mod 2) [Suc j..<Suc j + n])"
    using Suc.prems dense_zeros_above [of w h lb f b j, OF Suc.prems(1) nb] by (intro Suc.IH) auto
  moreover have "level_up h (zs ! j) ?lv = level_of h lb f b (Suc j) ((w + 1) div 2)"
    using Suc.prems(1,4,5) nb by (intro level_up_dense) auto
  ultimately show ?case using sib
    by (simp add: path_walk_Suc auth_path_Suc upt_conv_Cons del: upt_Suc path_walk.simps)
qed

text \<open>A tree all of whose leaves are recorded serves, for each of them, a path that folds to the root.\<close>

lemma merklePath_folds:
  assumes inv: "imt_inv h t Map.empty" and i: "i < nextLeafIndex t" and "None \<notin> set (leaf_log t)"
  shows "\<exists>siblings. merklePath h t i = Inr (siblings, map (\<lambda>j. i div 2 ^ j mod 2) [0..<height t]) \<and>
    length siblings = height t \<and>
    foldToRoot h (the (js_get (leaf_log t) i)) siblings i = tree_root t"
proof -
  let ?f = "log_view (leaf_log t)" and ?n = "nextLeafIndex t" and ?H = "height t"
  let ?p = "auth_path h (logB t) ?f Map.empty i 0 ?H"
  from inv have len: "length (leaf_log t) = ?n" and z: "zeros t = zeros_list h ?H"
    and root: "tree_root t = dense h (logB t) ?f Map.empty ?H 0" and le: "?n \<le> 2 ^ ?H"
    by (simp_all add: imt_inv_def frontier_ok_def imt_shape_def)
  have rec: "js_get (leaf_log t) k = Some (?f k)" if "k < ?n" for k
  proof -
    have "leaf_log t ! k \<noteq> None" using assms(3) that len nth_mem [of k "leaf_log t"] by metis
    then show ?thesis using that len by (auto simp: js_get_def log_view_def)
  qed
  then have find: "List.find (\<lambda>i. js_get (leaf_log t) i = None) [0..<?n] = None"
    by (auto simp: find_None_iff)
  have lv: "map (\<lambda>i. the (js_get (leaf_log t) i)) [0..<?n] = level_of h (logB t) ?f Map.empty 0 ?n"
    using rec by (auto simp: level_of_def)
  have "path_walk h (zeros t) i ?H 0 (level_of h (logB t) ?f Map.empty 0 ?n) =
      (?p, map (\<lambda>k. i div 2 ^ k mod 2) [0..<0 + ?H])"
    using i len z by (intro path_walk_dense [where H = ?H]) (auto simp: log_view_beyond)
  moreover have "foldToRoot h (?f i) ?p i = tree_root t"
    using fold_auth_path [of 0 ?H "logB t" Map.empty i h ?f] i le root by (simp add: foldToRoot_def)
  ultimately show ?thesis
    using i find lv rec by (auto simp: merklePath_def auth_path_def)
qed

subsection \<open>Sequences of operations\<close>

datatype imt_op = AppendOp int | AttachOp int "int list option"

fun apply_op :: "hash2 \<Rightarrow> imt \<Rightarrow> imt_op \<Rightarrow> imt \<times> imt_error option" where
  "apply_op h t (AppendOp v) = appendLeaf h t v"
| "apply_op h t (AttachOp r ls) = attachSubtree h t r ls"

fun run_ops :: "hash2 \<Rightarrow> imt \<Rightarrow> imt_op list \<Rightarrow> imt \<times> imt_error option" where
  "run_ops h t [] = (t, None)"
| "run_ops h t (x # xs) = (case apply_op h t x of (t', None) \<Rightarrow> run_ops h t' xs | r \<Rightarrow> r)"

fun known_op :: "imt_op \<Rightarrow> bool" where
  "known_op (AttachOp r None) = False"
| "known_op _ = True"

lemma apply_op_known:
  assumes inv: "imt_inv h t b" "None \<notin> set (leaf_log t)" and "known_op x" and run: "apply_op h t x = (t', None)"
  shows "imt_inv h t' b \<and> None \<notin> set (leaf_log t') \<and> height t' = height t \<and> nextLeafIndex t < nextLeafIndex t'"
proof (cases x)
  case (AppendOp v)
  have "nextLeafIndex t \<le> 2 ^ height t" using inv by (simp add: imt_inv_def frontier_ok_def imt_shape_def)
  moreover have "nextLeafIndex t \<noteq> 2 ^ height t" using appendLeaf_full [OF inv(1), of v] run AppendOp by auto
  ultimately have "nextLeafIndex t < 2 ^ height t" by simp
  from appendLeaf_refines [OF inv(1) this, of v] run AppendOp inv(2) show ?thesis by auto
next
  case (AttachOp r leaves)
  then obtain ls where ls: "x = AttachOp r (Some ls)" using assms(3) by (cases leaves) auto
  then have cs: "computeSubtreeRoot h t ls = Inr r" using run by (auto simp: attachSubtree_def split: if_splits)
  have "\<not> batch_start t + batchSize t > 2 ^ height t"
    using attach_full [OF inv(1), of "Some ls" r] cs run ls by auto
  then have room: "batch_start t + batchSize t \<le> 2 ^ height t" by simp
  have "0 < batchSize t" using inv by (simp add: imt_inv_def frontier_ok_def imt_shape_def)
  with attach_known_refines [OF inv(1) room cs] run ls inv(2) show ?thesis
    by (auto simp: batch_start_def)
qed

lemma run_ops_known:
  assumes "imt_inv h t b" "None \<notin> set (leaf_log t)" "list_all known_op ops" "run_ops h t ops = (t', None)"
  shows "imt_inv h t' b \<and> None \<notin> set (leaf_log t') \<and> height t' = height t"
  using assms
proof (induction ops arbitrary: t)
  case Nil
  then show ?case by simp
next
  case (Cons x xs)
  then obtain t1 where t1: "apply_op h t x = (t1, None)" "run_ops h t1 xs = (t', None)"
    by (auto split: prod.splits option.splits)
  with apply_op_known [of h t b x t1] Cons.prems Cons.IH [of t1] show ?case by auto
qed


text \<open>Any run, also one with opaque attachments, keeps the tree a refinement of some dense tree.\<close>

lemma apply_op_inv:
  assumes inv: "imt_inv h t b" and run: "apply_op h t x = (t', None)"
  shows "\<exists>b'. imt_inv h t' b' \<and> height t' = height t"
proof (cases "known_op x")
  case True
  show ?thesis
  proof (cases x)
    case (AppendOp v)
    have "nextLeafIndex t \<noteq> 2 ^ height t" using appendLeaf_full [OF inv, of v] run AppendOp by auto
    moreover have "nextLeafIndex t \<le> 2 ^ height t" using inv by (simp add: imt_inv_def frontier_ok_def imt_shape_def)
    ultimately show ?thesis using appendLeaf_refines [OF inv, of v] run AppendOp by auto
  next
    case (AttachOp r leaves)
    with True obtain ls where ls: "x = AttachOp r (Some ls)" by (cases leaves) auto
    then have cs: "computeSubtreeRoot h t ls = Inr r" using run by (auto simp: attachSubtree_def split: if_splits)
    have "\<not> batch_start t + batchSize t > 2 ^ height t"
      using attach_full [OF inv, of "Some ls" r] cs run ls by auto
    then show ?thesis using attach_known_refines [OF inv _ cs] run ls by auto
  qed
next
  case False
  then obtain r where x: "x = AttachOp r None" by (cases x rule: known_op.cases) auto
  have "\<not> batch_start t + batchSize t > 2 ^ height t"
    using attach_full [OF inv, of None r] run x by auto
  then show ?thesis using attach_opaque_refines [OF inv, of r] run x by auto
qed

lemma run_ops_inv:
  assumes "imt_inv h t b" and "run_ops h t ops = (t', None)"
  shows "\<exists>b'. imt_inv h t' b' \<and> height t' = height t"
  using assms
proof (induction ops arbitrary: t b)
  case Nil
  then show ?case by auto
next
  case (Cons x xs)
  then obtain t1 where t1: "apply_op h t x = (t1, None)" "run_ops h t1 xs = (t', None)"
    by (auto split: prod.splits option.splits)
  from apply_op_inv [OF Cons.prems(1) t1(1)] obtain b1 where "imt_inv h t1 b1" "height t1 = height t" by blast
  with Cons.IH [of t1 b1] t1(2) show ?case by auto
qed

subsection \<open>Properties\<close>

text \<open>A small tree (height 3, blocks of 2) and a run on it, for the closed examples.\<close>

definition demo_imt :: imt where
  "demo_imt = projr (new_imt demo_hash 3 2)"

definition demo_ops :: "imt_op list" where
  "demo_ops = [AppendOp 5, AttachOp 24 (Some [7, 8]), AppendOp 9]"

text \<open>
  C6: after any interleaving of single-leaf inserts and batch attachments (with their leaves)
  that did not throw, the root kept by the frontier equals the root recomputed from scratch
  over the dense leaf record.
\<close>

theorem root_is_naive_root:
  assumes "new_imt h H B = Inr t0" and "list_all known_op ops" and "run_ops h t0 ops = (t, None)"
  shows "tree_root t = naiveRoot h (leaf_log t) H"
proof -
  note new = new_imt_inv [OF assms(1)]
  then have "imt_inv h t Map.empty" and "height t = H"
    using run_ops_known [of h t0 Map.empty ops t] assms(2,3) by auto
  then show ?thesis
    using naiveRoot_dense [of h "leaf_log t" H "logB t"] by (simp add: imt_inv_def frontier_ok_def)
qed

theorem root_is_naive_root_witness:
  "tree_root (fst (run_ops demo_hash demo_imt demo_ops)) =
     naiveRoot demo_hash (leaf_log (fst (run_ops demo_hash demo_imt demo_ops))) 3"
proof -
  have "run_ops demo_hash demo_imt demo_ops = (fst (run_ops demo_hash demo_imt demo_ops), None)"
    and "list_all known_op demo_ops" and "new_imt demo_hash 3 2 = Inr demo_imt" by code_simp+
  from root_is_naive_root [OF this(3,2,1)] show ?thesis .
qed

text \<open>
  In such a tree every recorded leaf has an authentication path of one sibling per level,
  whose bits are those of the leaf index, and folding the leaf up that path gives the root.
\<close>

theorem merkle_path_closes:
  assumes "new_imt h H B = Inr t0" and "list_all known_op ops" and "run_ops h t0 ops = (t, None)"
    and "i < nextLeafIndex t"
  shows "\<exists>siblings v. merklePath h t i = Inr (siblings, map (\<lambda>j. i div 2 ^ j mod 2) [0..<H]) \<and>
    length siblings = H \<and> js_get (leaf_log t) i = Some v \<and> foldToRoot h v siblings i = tree_root t"
proof -
  note new = new_imt_inv [OF assms(1)]
  then have inv: "imt_inv h t Map.empty" "None \<notin> set (leaf_log t)" "height t = H"
    using run_ops_known [of h t0 Map.empty ops t] assms(2,3) by auto
  have "i < length (leaf_log t)" using inv(1) assms(4) by (simp add: imt_inv_def)
  then have "js_get (leaf_log t) i = Some (the (js_get (leaf_log t) i))"
    using inv(2) nth_mem [of i "leaf_log t"] by (cases "leaf_log t ! i") (auto simp: js_get_def)
  with merklePath_folds [OF inv(1) assms(4) inv(2)] inv(3) show ?thesis by auto
qed

theorem merkle_path_closes_witness:
  "\<exists>siblings v. merklePath demo_hash (fst (run_ops demo_hash demo_imt demo_ops)) 3 =
       Inr (siblings, map (\<lambda>j. 3 div 2 ^ j mod 2) [0..<3]) \<and>
     length siblings = 3 \<and> js_get (leaf_log (fst (run_ops demo_hash demo_imt demo_ops))) 3 = Some v \<and>
     foldToRoot demo_hash v siblings 3 = tree_root (fst (run_ops demo_hash demo_imt demo_ops))"
proof -
  have "run_ops demo_hash demo_imt demo_ops = (fst (run_ops demo_hash demo_imt demo_ops), None)"
    and "list_all known_op demo_ops" and "new_imt demo_hash 3 2 = Inr demo_imt"
    and "3 < nextLeafIndex (fst (run_ops demo_hash demo_imt demo_ops))" by code_simp+
  from merkle_path_closes [OF this(3,2,1,4)] show ?thesis .
qed

text \<open>
  an attachment rejected by its validation leaves the tree untouched, but one rejected
  because the tree is full has already padded: the leaf index has moved to the batch boundary.
\<close>

theorem rejected_attach_effects:
  assumes "new_imt h H B = Inr t0" and "run_ops h t0 ops = (t, None)"
  shows "(\<forall>ls e. computeSubtreeRoot h t ls \<noteq> Inr r \<longrightarrow>
            fst (attachSubtree h t r (Some ls)) = t \<and> snd (attachSubtree h t r (Some ls)) \<noteq> None) \<and>
    (batch_start t + batchSize t > 2 ^ H \<longrightarrow>
       snd (attachSubtree h t r None) = Some TreeFull \<and>
       nextLeafIndex (fst (attachSubtree h t r None)) = batch_start t)"
proof -
  from new_imt_inv [OF assms(1)] obtain b where "imt_inv h t b" "height t = H"
    using run_ops_inv [OF _ assms(2), of Map.empty] by auto
  then show ?thesis using attach_full [of h t b None r]
    by (auto simp: attachSubtree_def computeSubtreeRoot_def Let_def)
qed

theorem rejected_attach_effects_witness:
  "let t = fst (run_ops demo_hash (projr (new_imt demo_hash 1 2)) [AppendOp 5])
   in nextLeafIndex t = 1 \<and> snd (attachSubtree demo_hash t 77 None) = Some TreeFull \<and>
      nextLeafIndex (fst (attachSubtree demo_hash t 77 None)) = 2"
proof -
  let ?u = "projr (new_imt demo_hash 1 2)" and ?t = "fst (run_ops demo_hash (projr (new_imt demo_hash 1 2)) [AppendOp 5])"
  have "new_imt demo_hash 1 2 = Inr ?u" and "run_ops demo_hash ?u [AppendOp 5] = (?t, None)"
    and "nextLeafIndex ?t = 1" "batch_start ?t = 2" "batchSize ?t = 2" by code_simp+
  from rejected_attach_effects [OF this(1,2), of 77] this(3-) show ?thesis by (simp add: Let_def)
qed

end
