(* ===== verification/Replay.thy ===== *)
theory Replay
  imports Main
begin

text \<open>
  The replay contract. The poll loop of the indexer retries a log range from an unadvanced
  cursor after any throw, so every stateful module it feeds must converge when the same events
  arrive again. The interface is a step function on the module's state together with the predicate
  that an event has been applied; the laws say that an applied event is skipped, that a step
  which does not throw marks its event as applied, and that later compatible events (the chain
  never tells two different stories about one position) keep the mark.
\<close>

fun run_steps :: "('s \<Rightarrow> 'e \<Rightarrow> 's \<times> 'x option) \<Rightarrow> 's \<Rightarrow> 'e list \<Rightarrow> 's \<times> 'x option" where
  "run_steps step s [] = (s, None)"
| "run_steps step s (e # es) =
     (case step s e of (s', None) \<Rightarrow> run_steps step s' es | (s', Some x) \<Rightarrow> (s', Some x))"

lemma run_steps_append:
  "run_steps step s (xs @ ys) =
     (case run_steps step s xs of (s', None) \<Rightarrow> run_steps step s' ys | (s', Some x) \<Rightarrow> (s', Some x))"
  by (induction xs arbitrary: s) (auto split: prod.splits option.splits)

lemma run_steps_Cons_None:
  "run_steps step s (e # es) = (s', None) \<longleftrightarrow>
     (\<exists>s1. step s e = (s1, None) \<and> run_steps step s1 es = (s', None))"
  by (auto split: prod.splits option.splits)

locale replay_safe =
  fixes step :: "'s \<Rightarrow> 'e \<Rightarrow> 's \<times> 'x option"
    and applied :: "'s \<Rightarrow> 'e \<Rightarrow> bool"
    and good :: "'s \<Rightarrow> bool"
    and compat :: "'e \<Rightarrow> 'e \<Rightarrow> bool"
  assumes skip: "good s \<Longrightarrow> applied s e \<Longrightarrow> step s e = (s, None)"
    and marks: "good s \<Longrightarrow> step s e = (s', None) \<Longrightarrow> applied s' e"
    and keeps: "good s \<Longrightarrow> applied s e \<Longrightarrow> compat e e' \<Longrightarrow> step s e' = (s', None) \<Longrightarrow> applied s' e"
    and good_step: "good s \<Longrightarrow> step s e = (s', None) \<Longrightarrow> good s'"
begin

lemma good_run: "good s \<Longrightarrow> run_steps step s es = (s', None) \<Longrightarrow> good s'"
proof (induction es arbitrary: s)
  case (Cons e es)
  then show ?case unfolding run_steps_Cons_None by (blast intro: good_step)
qed simp

lemma keeps_run:
  "good s \<Longrightarrow> applied s e \<Longrightarrow> \<forall>e'\<in>set es. compat e e' \<Longrightarrow>
    run_steps step s es = (s', None) \<Longrightarrow> applied s' e"
proof (induction es arbitrary: s)
  case (Cons x es)
  then show ?case unfolding run_steps_Cons_None by (metis good_step keeps list.set_intros)
qed simp

lemma run_marks:
  "good s \<Longrightarrow> \<forall>e\<in>set es. \<forall>e'\<in>set es. compat e e' \<Longrightarrow>
    run_steps step s es = (s', None) \<Longrightarrow> e \<in> set es \<Longrightarrow> applied s' e"
proof (induction es arbitrary: s)
  case (Cons x es)
  then obtain s1 where s1: "step s x = (s1, None)" "run_steps step s1 es = (s', None)"
    unfolding run_steps_Cons_None by blast
  with Cons.prems(1) have "good s1" "applied s1 x" by (auto intro: good_step marks)
  then show ?case using Cons s1 by (cases "e = x") (auto intro: keeps_run)
qed simp

lemma skip_run:
  "good s \<Longrightarrow> \<forall>e\<in>set es. applied s e \<Longrightarrow> run_steps step s es = (s, None)"
  by (induction es) (auto simp: skip)

text \<open>Replaying a range that was applied changes nothing.\<close>

lemma replay_converges:
  assumes "good s" and "\<forall>e\<in>set es. \<forall>e'\<in>set es. compat e e'" and "run_steps step s es = (s', None)"
  shows "run_steps step s' es = (s', None)"
  using good_run [OF assms(1,3)] run_marks [OF assms] by (auto intro: skip_run)

text \<open>
  Retrying a longer range after a failure in it resumes where the failed pass stopped: the
  applied prefix is skipped.
\<close>

lemma retry_resumes:
  assumes "good s" and "\<forall>e\<in>set xs. \<forall>e'\<in>set xs. compat e e'" and "run_steps step s xs = (s', None)"
  shows "run_steps step s' (xs @ ys) = run_steps step s' ys"
  using replay_converges [OF assms] by (simp add: run_steps_append)

end

end
