(* ===== verification/Mirror_Tree.thy ===== *)
theory Mirror_Tree
  imports Imt_Correct Replay
begin

text \<open>
  \<open>apps/indexer/src/tree.ts\<close>: the class \<open>MirrorTree\<close>, which wraps one \<open>ImtTree\<close> and owns the
  leaf values and the per-block batch roots that authentication paths are rebuilt from.

  \<open>startLeafIndex / B\<close> is a JavaScript division: the starts the chain emits are multiples of
  \<open>B\<close>, where it is the integer quotient used here. \<open>path\<close> is called for a leaf index below the
  frontier (the route checks it), where every array read below is in range.
\<close>

subsection \<open>The class and its operations\<close>

datatype mirror_error =
    TreeError imt_error
  | AppendIndexMismatch | AppendRootDiverged
  | AttachStartMismatch | AttachRootDiverged
  | OpAppendGap | OpAppendIndexMismatch | OpAppendRootDiverged
  | RebuildMismatch | NullCommitment | PathDiverged

record leaf_row =
  row_leafIndex :: nat
  row_commitment :: "int option"
  row_batchRoot :: "int option"

record mirror =
  tree :: imt
  leaves :: "int option list"
  batchRoots :: "int option list"
  filled :: "nat set"
  publicFilled :: "nat set"
  pendingLeaves :: "leaf_row list"
  mzeros :: "int list"

datatype fill_source = Arbiter | Public

datatype path_result = BatchLeaf | PathResult "int list" "nat list" int

definition new_mirror :: "hash2 \<Rightarrow> nat \<Rightarrow> nat \<Rightarrow> imt_error + mirror" where
  "new_mirror h H B =
     (case new_imt h H B of Inl e \<Rightarrow> Inl e
      | Inr t \<Rightarrow> Inr \<lparr>tree = t, leaves = [], batchRoots = [], filled = {}, publicFilled = {},
           pendingLeaves = [], mzeros = zeros_list h (height t)\<rparr>)"

abbreviation mroot :: "mirror \<Rightarrow> int" where
  "mroot m \<equiv> tree_root (tree m)"

abbreviation mnext :: "mirror \<Rightarrow> nat" where
  "mnext m \<equiv> nextLeafIndex (tree m)"

abbreviation mB :: "mirror \<Rightarrow> nat" where
  "mB m \<equiv> batchSize (tree m)"

definition applyAppend :: "hash2 \<Rightarrow> mirror \<Rightarrow> nat \<Rightarrow> int \<Rightarrow> int \<Rightarrow> mirror \<times> mirror_error option" where
  "applyAppend h m leafIndex leaf root =
     (if leafIndex < mnext m then (m, None)
      else case appendLeaf h (tree m) leaf of
        (t, Some e) \<Rightarrow> (m\<lparr>tree := t\<rparr>, Some (TreeError e))
      | (t, None) \<Rightarrow>
          (m\<lparr>tree := t\<rparr>,
           if nextLeafIndex t - 1 \<noteq> leafIndex then Some AppendIndexMismatch
           else if tree_root t \<noteq> root then Some AppendRootDiverged
           else None))"

definition tag_batch :: "mirror \<Rightarrow> nat \<Rightarrow> int \<Rightarrow> mirror" where
  "tag_batch m startLeafIndex subtreeRoot =
     (let block = startLeafIndex div mB m;
          m1 = (if js_get (batchRoots m) block = None
                then m\<lparr>pendingLeaves := pendingLeaves m @
                    [\<lparr>row_leafIndex = startLeafIndex, row_commitment = None, row_batchRoot = Some subtreeRoot\<rparr>]\<rparr>
                else m);
          m2 = (if block \<notin> filled m1
                then m1\<lparr>leaves := js_set_run (leaves m1) startLeafIndex (replicate (mB m) None)\<rparr>
                else m1)
      in m2\<lparr>batchRoots := js_set (batchRoots m2) block (Some subtreeRoot)\<rparr>)"

definition applyAttach :: "hash2 \<Rightarrow> mirror \<Rightarrow> nat \<Rightarrow> int \<Rightarrow> int \<Rightarrow> mirror \<times> mirror_error option" where
  "applyAttach h m startLeafIndex subtreeRoot root =
     (if startLeafIndex \<ge> mnext m
      then (case attachSubtree h (tree m) subtreeRoot None of
              (t, Some e) \<Rightarrow> (m\<lparr>tree := t\<rparr>, Some (TreeError e))
            | (t, None) \<Rightarrow>
                (if nextLeafIndex t \<noteq> startLeafIndex + mB m then (m\<lparr>tree := t\<rparr>, Some AttachStartMismatch)
                 else if tree_root t \<noteq> root then (m\<lparr>tree := t\<rparr>, Some AttachRootDiverged)
                 else (tag_batch (m\<lparr>tree := t\<rparr>) startLeafIndex subtreeRoot, None)))
      else (tag_batch m startLeafIndex subtreeRoot, None))"

definition recordLeaf :: "mirror \<Rightarrow> nat \<Rightarrow> int \<Rightarrow> mirror" where
  "recordLeaf m leafIndex leaf =
     (let m1 = (if js_get (leaves m) leafIndex = None
                then m\<lparr>pendingLeaves := pendingLeaves m @
                    [\<lparr>row_leafIndex = leafIndex, row_commitment = Some leaf, row_batchRoot = None\<rparr>]\<rparr>
                else m)
      in m1\<lparr>leaves := js_set (leaves m1) leafIndex (Some leaf)\<rparr>)"

fun record_run :: "mirror \<Rightarrow> nat \<Rightarrow> int list \<Rightarrow> mirror" where
  "record_run m i [] = m"
| "record_run m i (v # vs) = record_run (recordLeaf m i v) (Suc i) vs"

fun op_append_loop :: "hash2 \<Rightarrow> imt \<Rightarrow> nat \<Rightarrow> nat \<Rightarrow> int list \<Rightarrow> imt \<times> imt_error option" where
  "op_append_loop h t next i [] = (t, None)"
| "op_append_loop h t next i (v # vs) =
     (if i \<ge> next
      then (case appendLeaf h t v of
              (t', None) \<Rightarrow> op_append_loop h t' next (Suc i) vs
            | (t', Some e) \<Rightarrow> (t', Some e))
      else op_append_loop h t next (Suc i) vs)"

definition applyOpAppend ::
  "hash2 \<Rightarrow> mirror \<Rightarrow> nat \<Rightarrow> int list \<Rightarrow> int \<Rightarrow> mirror \<times> mirror_error option" where
  "applyOpAppend h m startLeafIndex ls resultingRoot =
     (let next = mnext m in
      if startLeafIndex + length ls > next
      then (if startLeafIndex > next then (m, Some OpAppendGap)
            else case op_append_loop h (tree m) next startLeafIndex ls of
              (t, Some e) \<Rightarrow> (m\<lparr>tree := t\<rparr>, Some (TreeError e))
            | (t, None) \<Rightarrow>
                (if nextLeafIndex t \<noteq> startLeafIndex + length ls then (m\<lparr>tree := t\<rparr>, Some OpAppendIndexMismatch)
                 else if tree_root t \<noteq> resultingRoot then (m\<lparr>tree := t\<rparr>, Some OpAppendRootDiverged)
                 else (record_run (m\<lparr>tree := t\<rparr>) startLeafIndex ls, None)))
      else (record_run m startLeafIndex ls, None))"

definition fillBatch :: "mirror \<Rightarrow> nat \<Rightarrow> int list \<Rightarrow> fill_source \<Rightarrow> mirror" where
  "fillBatch m startLeafIndex ls source =
     (let block = startLeafIndex div mB m;
          m1 = m\<lparr>leaves := js_set_run (leaves m) startLeafIndex (map Some ls),
                 filled := insert block (filled m)\<rparr>
      in if source = Public then m1\<lparr>publicFilled := insert block (publicFilled m1)\<rparr> else m1)"

definition isBatch :: "mirror \<Rightarrow> nat \<Rightarrow> bool" where
  "isBatch m k \<longleftrightarrow> js_get (batchRoots m) k \<noteq> None"

definition isPublicBatch :: "mirror \<Rightarrow> nat \<Rightarrow> bool" where
  "isPublicBatch m k \<longleftrightarrow> k \<in> publicFilled m"

definition clearPendingLeaves :: "mirror \<Rightarrow> mirror" where
  "clearPendingLeaves m = m\<lparr>pendingLeaves := []\<rparr>"

fun rebuildFromLeaves :: "hash2 \<Rightarrow> mirror \<Rightarrow> leaf_row list \<Rightarrow> mirror \<times> mirror_error option" where
  "rebuildFromLeaves h m [] = (m, None)"
| "rebuildFromLeaves h m (r # rs) =
     (case row_batchRoot r of
        Some broot \<Rightarrow>
          (case attachSubtree h (tree m) broot None of
             (t, Some e) \<Rightarrow> (m\<lparr>tree := t\<rparr>, Some (TreeError e))
           | (t, None) \<Rightarrow>
               (let start = nextLeafIndex t - mB m in
                if start \<noteq> row_leafIndex r then (m\<lparr>tree := t\<rparr>, Some RebuildMismatch)
                else rebuildFromLeaves h
                  (m\<lparr>tree := t,
                     leaves := js_set_run (leaves m) start (replicate (mB m) None),
                     batchRoots := js_set (batchRoots m) (start div mB m) (Some broot)\<rparr>) rs))
      | None \<Rightarrow>
          (case row_commitment r of
             None \<Rightarrow> (m, Some NullCommitment)
           | Some c \<Rightarrow>
               (case appendLeaf h (tree m) c of
                  (t, Some e) \<Rightarrow> (m\<lparr>tree := t\<rparr>, Some (TreeError e))
                | (t, None) \<Rightarrow>
                    (let idx = nextLeafIndex t - 1 in
                     if idx \<noteq> row_leafIndex r then (m\<lparr>tree := t\<rparr>, Some RebuildMismatch)
                     else rebuildFromLeaves h
                       (m\<lparr>tree := t, leaves := js_set (leaves m) (row_leafIndex r) (Some c)\<rparr>) rs))))"

definition leafValue :: "mirror \<Rightarrow> nat \<Rightarrow> int" where
  "leafValue m idx = (case js_get (leaves m) idx of None \<Rightarrow> 0 | Some v \<Rightarrow> v)"

definition blockNode :: "hash2 \<Rightarrow> mirror \<Rightarrow> nat \<Rightarrow> int" where
  "blockNode h m k =
     (case (if k \<in> filled m then None else js_get (batchRoots m) k) of
        Some batch \<Rightarrow> batch
      | None \<Rightarrow> (pair_level h ^^ logB (tree m)) (map (\<lambda>i. leafValue m (k * mB m + i)) [0..<mB m]) ! 0)"

text \<open>Phase A of \<open>path\<close>: the levels inside the leaf's own block.\<close>

fun block_walk :: "hash2 \<Rightarrow> nat \<Rightarrow> nat \<Rightarrow> nat \<Rightarrow> int list \<Rightarrow> int list \<times> nat list" where
  "block_walk h inBlock 0 j level = ([], [])"
| "block_walk h inBlock (Suc n) j level =
     (let idx = inBlock div 2 ^ j; bit = idx mod 2;
          s = level ! (if bit = 1 then idx - 1 else idx + 1);
          (siblings, pathIndices) = block_walk h inBlock n (Suc j) (pair_level h level)
      in (s # siblings, bit # pathIndices))"

text \<open>Phase B: the levels above the blocks, together with the level it ends on.\<close>

fun top_walk ::
  "hash2 \<Rightarrow> int list \<Rightarrow> nat \<Rightarrow> nat \<Rightarrow> nat \<Rightarrow> nat \<Rightarrow> int list \<Rightarrow> int list \<times> nat list \<times> int list" where
  "top_walk h zs lb block 0 j arr = ([], [], arr)"
| "top_walk h zs lb block (Suc n) j arr =
     (let lvl = lb + j; bidx = block div 2 ^ j; bit = bidx mod 2;
          s = (if bit = 1 then arr ! (bidx - 1)
               else if bidx + 1 < length arr then arr ! (bidx + 1) else zs ! lvl);
          (siblings, pathIndices, top) = top_walk h zs lb block n (Suc j) (level_up h (zs ! lvl) arr)
      in (s # siblings, bit # pathIndices, top))"

definition path :: "hash2 \<Rightarrow> mirror \<Rightarrow> nat \<Rightarrow> mirror_error + path_result" where
  "path h m leafIndex =
     (let B = mB m; LOG_B = logB (tree m); block = leafIndex div B in
      if js_get (batchRoots m) block \<noteq> None \<and> block \<notin> filled m then Inr BatchLeaf
      else
        let (sA, iA) = block_walk h (leafIndex mod B) LOG_B 0
                         (map (\<lambda>i. leafValue m (block * B + i)) [0..<B]);
            numBlocks = (mnext m + (B - 1)) div B;
            (sB, iB, top) = top_walk h (mzeros m) LOG_B block (height (tree m) - LOG_B) 0
                              (map (blockNode h m) [0..<numBlocks]);
            reRoot = top ! 0
        in if reRoot \<noteq> mroot m then Inl PathDiverged
           else Inr (PathResult (sA @ sB) (iA @ iB) reRoot))"

end
