(* ===== verification/Mirror_Correct.thy ===== *)
theory Mirror_Correct
  imports Mirror_Tree
begin

text \<open>
  Correctness of the mirror: as long as the leaf records and batch tags agree with the wrapped
  tree, every authentication path that \<open>path\<close> serves folds to the current root, the divergence
  assertion never fires, and only unfilled batches answer the batch sentinel. Ingest keeps the
  agreement over every log range, and a replayed range changes nothing.
\<close>

subsection \<open>The view of the tree that the records describe\<close>

abbreviation tags :: "mirror \<Rightarrow> nat \<Rightarrow> int option" where
  "tags m \<equiv> js_get (batchRoots m)"

definition open_tags :: "mirror \<Rightarrow> nat \<Rightarrow> int option" where
  "open_tags m k = (if k \<in> filled m then None else tags m k)"

abbreviation tree_view :: "hash2 \<Rightarrow> mirror \<Rightarrow> nat \<Rightarrow> nat \<Rightarrow> int" where
  "tree_view h m \<equiv> dense h (logB (tree m)) (log_view (leaf_log (tree m))) (tags m)"

abbreviation record_view :: "hash2 \<Rightarrow> mirror \<Rightarrow> nat \<Rightarrow> nat \<Rightarrow> int" where
  "record_view h m \<equiv> dense h (logB (tree m)) (leafValue m) (open_tags m)"

definition mirror_inv :: "hash2 \<Rightarrow> mirror \<Rightarrow> bool" where
  "mirror_inv h m \<longleftrightarrow> imt_inv h (tree m) (tags m) \<and> mzeros m = zeros_list h (height (tree m)) \<and>
     (\<forall>x\<ge>mnext m. js_get (leaves m) x = None)"

text \<open>
  The records agree with the tree: a slot outside the batches is unset or holds its leaf, and a
  filled block is a batch whose filled leaves fold to the root it was attached with.
\<close>

definition mirror_ok :: "hash2 \<Rightarrow> mirror \<Rightarrow> bool" where
  "mirror_ok h m \<longleftrightarrow> mirror_inv h m \<and>
     (\<forall>x v. tags m (x div mB m) = None \<longrightarrow> js_get (leaves m) x = Some v \<longrightarrow>
        v = log_view (leaf_log (tree m)) x) \<and>
     (\<forall>k\<in>filled m. \<exists>r. tags m k = Some r \<and>
        (pair_level h ^^ logB (tree m)) (map (\<lambda>i. leafValue m (k * mB m + i)) [0..<mB m]) ! 0 = r)"

text \<open>Between the two passes of a range some inserted leaves are not recorded yet; afterwards none is.\<close>

definition all_recorded :: "mirror \<Rightarrow> bool" where
  "all_recorded m \<longleftrightarrow> (\<forall>x<mnext m. tags m (x div mB m) = None \<longrightarrow>
     js_get (leaves m) x = None \<longrightarrow> log_view (leaf_log (tree m)) x = 0)"

lemma recorded_value:
  assumes "mirror_ok h m" "all_recorded m" "tags m (x div mB m) = None"
  shows "leafValue m x = log_view (leaf_log (tree m)) x"
proof (cases "js_get (leaves m) x")
  case None
  then show ?thesis
  proof (cases "x < mnext m")
    case True
    then show ?thesis using assms(2,3) None by (simp add: all_recorded_def leafValue_def)
  next
    case False
    then have "log_view (leaf_log (tree m)) x = 0"
      using assms(1) by (intro log_view_beyond) (simp add: mirror_ok_def mirror_inv_def imt_inv_def)
    then show ?thesis using None by (simp add: leafValue_def)
  qed
next
  case (Some v)
  then show ?thesis using assms(1,3) by (simp add: mirror_ok_def leafValue_def)
qed

lemma mirror_shape:
  assumes "mirror_inv h m"
  shows "mB m = 2 ^ logB (tree m)" and "logB (tree m) \<le> height (tree m)"
    and "mnext m \<le> 2 ^ height (tree m)" and "0 < mB m"
    and "mroot m = tree_view h m (height (tree m)) 0"
    and "view_upto (logB (tree m)) (mnext m) (log_view (leaf_log (tree m))) (tags m)"
    and "length (leaf_log (tree m)) = mnext m"
  using assms by (auto simp: mirror_inv_def imt_inv_def frontier_ok_def imt_shape_def)

lemma in_block_node: "in_node lb k (m * 2 ^ lb) \<Longrightarrow> m = k"
proof -
  assume a: "in_node lb k (m * 2 ^ lb)"
  then have "k * 2 ^ lb \<le> m * 2 ^ lb" "m * 2 ^ lb < Suc k * 2 ^ lb" by (simp_all only: in_node_def)
  then have "k \<le> m" "m < Suc k" by (simp_all only: mult_le_cancel2 mult_less_cancel2)
  then show ?thesis by simp
qed

lemma block_fold_dense:
  assumes "mB m = 2 ^ logB (tree m)" and "c k = None"
  shows "(pair_level h ^^ logB (tree m)) (map (\<lambda>i. leafValue m (k * mB m + i)) [0..<mB m]) ! 0 =
    dense h (logB (tree m)) (leafValue m) c (logB (tree m)) k"
  using assms by (intro subtree_root_dense) (auto dest: in_block_node)

lemma blockNode_dense:
  assumes "mB m = 2 ^ logB (tree m)"
  shows "blockNode h m k = record_view h m (logB (tree m)) k"
proof (cases "open_tags m k")
  case None
  then show ?thesis using block_fold_dense [of m "open_tags m" k h] assms
    by (auto simp: blockNode_def open_tags_def split: if_splits)
next
  case (Some r)
  then show ?thesis by (auto simp: blockNode_def open_tags_def dense_batch split: if_splits)
qed

lemma dense_above:
  assumes "\<And>k. dense h lb f b lb k = dense h lb f' b' lb k" and "lb \<le> j"
  shows "dense h lb f b j k = dense h lb f' b' j k"
  using assms(2)
proof (induction j arbitrary: k rule: dec_induct)
  case base
  show ?case by (rule assms(1))
next
  case (step j)
  then show ?case by (simp add: dense_step)
qed

lemma record_view_is_tree_view:
  assumes "mirror_ok h m" and "all_recorded m" and "logB (tree m) \<le> j"
  shows "record_view h m j k = tree_view h m j k"
proof (rule dense_above [OF _ assms(3)])
  fix k
  note B = mirror_shape(1) [of h m]
  from assms(1) have inv: "mirror_inv h m" by (simp add: mirror_ok_def)
  show "record_view h m (logB (tree m)) k = tree_view h m (logB (tree m)) k"
  proof (cases "tags m k")
    case (Some r)
    then show ?thesis
    proof (cases "k \<in> filled m")
      case True
      then have "record_view h m (logB (tree m)) k = r"
        using assms(1) Some block_fold_dense [of m "open_tags m" k h] B [OF inv]
        by (auto simp: mirror_ok_def open_tags_def)
      then show ?thesis using Some by (simp add: dense_batch)
    next
      case False
      with Some show ?thesis by (simp add: open_tags_def dense_batch)
    qed
  next
    case None
    have "leafValue m x = log_view (leaf_log (tree m)) x" if "in_node (logB (tree m)) k x" for x
    proof -
      have "x div mB m = k" using that B [OF inv]
        by (simp add: in_node_def div_nat_eqI mult.commute)
      then show ?thesis using recorded_value [OF assms(1,2)] None by simp
    qed
    then show ?thesis
      using None by (intro dense_cong) (auto dest: in_block_node simp: open_tags_def)
  qed
qed

subsection \<open>The two phases of \<open>path\<close>\<close>

lemma block_walk_Suc:
  "block_walk h b (Suc n) j level =
     (let p = block_walk h b n (Suc j) (pair_level h level)
      in (level ! sibling (b div 2 ^ j) # fst p, (b div 2 ^ j) mod 2 # snd p))"
  by (simp add: Let_def sibling_def split: prod.split)

lemma block_walk_dense:
  assumes "b q = None" and "q = i div 2 ^ lb" and "j + n = lb"
  shows "block_walk h (i mod 2 ^ lb) n j
      (map (\<lambda>x. dense h lb f b j (q * 2 ^ n + x)) [0..<2 ^ n]) =
    (auth_path h lb f b i j n, map (\<lambda>k. i div 2 ^ k mod 2) [j..<j + n])"
  using assms(3)
proof (induction n arbitrary: j)
  case 0
  then show ?case by (simp add: auth_path_def)
next
  case (Suc n)
  let ?x = "i mod 2 ^ lb div 2 ^ j" and ?lv = "map (\<lambda>x. dense h lb f b j (q * 2 ^ Suc n + x)) [0..<2 ^ Suc n]"
  have i: "i = q * 2 ^ lb + i mod 2 ^ lb" unfolding assms(2) by (rule div_mult_mod_eq [symmetric])
  have lb: "(2::nat) ^ lb = 2 ^ Suc n * 2 ^ j" using Suc.prems by (metis add.commute power_add)
  have ij: "i div 2 ^ j = q * 2 ^ Suc n + ?x"
    by (subst i) (simp only: lb mult.assoc [symmetric], rule div_mult_self3, simp)
  have x: "?x < 2 ^ Suc n"
    using mod_less_divisor [of "2 ^ lb" i] by (simp add: lb less_mult_imp_div_less del: power_Suc)
  have par: "(i div 2 ^ j) mod 2 = ?x mod 2" by (simp add: ij mod_add_eq [symmetric])
  have sib: "sibling (i div 2 ^ j) = q * 2 ^ Suc n + sibling ?x" "sibling ?x < 2 ^ Suc n"
  proof -
    show "sibling (i div 2 ^ j) = q * 2 ^ Suc n + sibling ?x"
      using par by (auto simp: sibling_def ij simp del: power_Suc)
    show "sibling ?x < 2 ^ Suc n" using x by (auto simp: sibling_def)
  qed
  have up: "pair_level h ?lv = map (\<lambda>x. dense h lb f b (Suc j) (q * 2 ^ n + x)) [0..<2 ^ n]"
  proof (rule nth_equalityI)
    fix k assume "k < length (pair_level h ?lv)"
    then have k: "k < 2 ^ n" by (simp add: pair_level_def)
    have "b (q * 2 ^ n + k) = None \<or> lb \<noteq> Suc j"
      using assms(1) k Suc.prems by (cases n) auto
    then have "dense h lb f b (Suc j) (q * 2 ^ n + k) =
      h (dense h lb f b j (q * 2 ^ Suc n + 2 * k)) (dense h lb f b j (q * 2 ^ Suc n + Suc (2 * k)))"
      by (simp add: dense_step algebra_simps)
    with k show "pair_level h ?lv ! k = map (\<lambda>x. dense h lb f b (Suc j) (q * 2 ^ n + x)) [0..<2 ^ n] ! k"
      by (simp add: pair_level_def)
  qed (simp add: pair_level_def)
  have nth: "?lv ! sibling ?x = dense h lb f b j (q * 2 ^ Suc n + sibling ?x)"
    using sib(2) by (simp del: power_Suc)
  have IH: "block_walk h (i mod 2 ^ lb) n (Suc j) (pair_level h ?lv) =
      (auth_path h lb f b i (Suc j) n, map (\<lambda>k. i div 2 ^ k mod 2) [Suc j..<Suc j + n])"
    unfolding up using Suc.prems by (intro Suc.IH) simp
  have "block_walk h (i mod 2 ^ lb) (Suc n) j ?lv =
      (dense h lb f b j (sibling (i div 2 ^ j)) # auth_path h lb f b i (Suc j) n,
       (i div 2 ^ j) mod 2 # map (\<lambda>k. i div 2 ^ k mod 2) [Suc j..<Suc j + n])"
    unfolding block_walk_Suc IH nth sib(1) [symmetric] par by simp
  then show ?case by (simp add: auth_path_Suc upt_conv_Cons del: upt_Suc)
qed

lemma top_walk_dense:
  assumes "\<And>x. w \<le> x \<Longrightarrow> dense h lb f b (lb + j) x = zero_at h (lb + j)" and "q = i div 2 ^ lb"
    and "q div 2 ^ j < w" and "lb + j + n \<le> H" and "\<And>k. k \<le> H \<Longrightarrow> zs ! k = zero_at h k"
  shows "\<exists>w'. 0 < w' \<and> top_walk h zs lb q n j (level_of h lb f b (lb + j) w) =
    (auth_path h lb f b i (lb + j) n, map (\<lambda>k. i div 2 ^ k mod 2) [lb + j..<lb + j + n],
     level_of h lb f b (lb + j + n) w')"
  using assms
proof (induction n arbitrary: j w)
  case 0
  have "0 < w" using 0(3) by (cases w) auto
  then show ?case by (intro exI [of _ w]) (simp add: auth_path_def)
next
  case (Suc n)
  let ?q = "q div 2 ^ j" and ?lv = "level_of h lb f b (lb + j) w"
  have qi: "i div 2 ^ (lb + j) = ?q" using Suc.prems(2) by (simp add: power_add div_mult2_eq)
  have sib: "(if ?q mod 2 = 1 then ?lv ! (?q - 1) else if ?q + 1 < length ?lv then ?lv ! (?q + 1) else zs ! (lb + j))
      = dense h lb f b (lb + j) (sibling (i div 2 ^ (lb + j)))"
    using Suc.prems(1) [of "?q + 1"] Suc.prems(3-5) by (auto simp: level_of_def sibling_def qi)
  have "q div 2 ^ Suc j < (w + 1) div 2" using Suc.prems(3) by (simp add: div_pow_Suc del: power_Suc)
  then obtain w' where w': "0 < w'" "top_walk h zs lb q n (Suc j) (level_of h lb f b (lb + Suc j) ((w + 1) div 2)) =
      (auth_path h lb f b i (lb + Suc j) n, map (\<lambda>k. i div 2 ^ k mod 2) [lb + Suc j..<lb + Suc j + n],
       level_of h lb f b (lb + Suc j + n) w')"
    using Suc.prems dense_zeros_above [of w h lb f b "lb + j"] Suc.IH [of "(w + 1) div 2" "Suc j"] by auto
  have "level_up h (zs ! (lb + j)) ?lv = level_of h lb f b (lb + Suc j) ((w + 1) div 2)"
    using Suc.prems(1,4,5) level_up_dense [of w h lb f b "lb + j" "zs ! (lb + j)"] by simp
  with w' sib qi show ?case
    by (intro exI [of _ w']) (simp add: Let_def auth_path_Suc upt_conv_Cons del: upt_Suc)
qed

lemma auth_path_append: "auth_path h lb f b i j n @ auth_path h lb f b i (j + n) n' = auth_path h lb f b i j (n + n')"
  using upt_add_eq_append [of j "j + n" n'] by (simp add: auth_path_def add.assoc)

lemma level_of_map: "(\<And>x. x < w \<Longrightarrow> g x = dense h lb f b j x) \<Longrightarrow> map g [0..<w] = level_of h lb f b j w"
  by (auto simp: level_of_def)

text \<open>What \<open>path\<close> answers for an index below the frontier of a tree whose leaves are recorded.\<close>

lemma path_serves:
  assumes ok: "mirror_ok h m" "all_recorded m" and i: "i < mnext m"
    and open_block: "open_tags m (i div mB m) = None"
  shows "\<exists>siblings. path h m i =
      Inr (PathResult siblings (map (\<lambda>j. i div 2 ^ j mod 2) [0..<height (tree m)]) (mroot m)) \<and>
    length siblings = height (tree m) \<and> foldToRoot h (leafValue m i) siblings i = mroot m"
proof -
  let ?lb = "logB (tree m)" and ?H = "height (tree m)" and ?f = "leafValue m" and ?b = "open_tags m"
  let ?q = "i div 2 ^ ?lb" and ?w = "(mnext m + (mB m - 1)) div mB m"
  from ok(1) have inv: "mirror_inv h m" and zs: "mzeros m = zeros_list h ?H"
    by (simp_all add: mirror_ok_def mirror_inv_def)
  note sh = mirror_shape [OF inv]
  have q: "?b ?q = None" using open_block sh(1) by simp
  have A: "block_walk h (i mod 2 ^ ?lb) ?lb 0 (map (\<lambda>x. ?f (?q * 2 ^ ?lb + x)) [0..<2 ^ ?lb]) =
      (auth_path h ?lb ?f ?b i 0 ?lb, map (\<lambda>k. i div 2 ^ k mod 2) [0..<0 + ?lb])"
  proof -
    have "dense h ?lb ?f ?b 0 (?q * 2 ^ ?lb + x) = ?f (?q * 2 ^ ?lb + x)" if "x < 2 ^ ?lb" for x
      using that q by auto
    then have eq: "map (\<lambda>x. ?f (?q * 2 ^ ?lb + x)) [0..<2 ^ ?lb] =
        map (\<lambda>x. dense h ?lb ?f ?b 0 (?q * 2 ^ ?lb + x)) [0..<2 ^ ?lb]"
      by (intro map_cong refl) (simp del: dense.simps)
    show ?thesis unfolding eq by (rule block_walk_dense) (simp_all add: q)
  qed
  have nodes: "map (blockNode h m) [0..<?w] = level_of h ?lb ?f ?b (?lb + 0) ?w"
    using blockNode_dense [of m h] sh(1) by (intro level_of_map) simp
  have zero: "dense h ?lb ?f ?b (?lb + 0) x = zero_at h (?lb + 0)" if "?w \<le> x" for x
  proof -
    have "mnext m \<le> x * 2 ^ ?lb"
      using ceil_mult_ge [of "mB m" "mnext m"] sh(1,4) that by (metis le_trans mult_le_mono1)
    then have "tree_view h m ?lb x = zero_at h ?lb" by (intro view_upto_zero_node [OF sh(6)])
    then show ?thesis using record_view_is_tree_view [OF ok, of ?lb x] by simp
  qed
  have qw: "?q div 2 ^ 0 < ?w" using block_below_ceil [OF sh(4) i] sh(1) by simp
  have "\<exists>w'. 0 < w' \<and> top_walk h (mzeros m) ?lb ?q (?H - ?lb) 0 (level_of h ?lb ?f ?b (?lb + 0) ?w) =
      (auth_path h ?lb ?f ?b i (?lb + 0) (?H - ?lb), map (\<lambda>k. i div 2 ^ k mod 2) [?lb + 0..<?lb + 0 + (?H - ?lb)],
       level_of h ?lb ?f ?b (?lb + 0 + (?H - ?lb)) w')"
    using sh(2) zs by (intro top_walk_dense [where H = ?H, OF zero refl qw]) simp_all
  then obtain w' where w': "0 < w'" and B: "top_walk h (mzeros m) ?lb ?q (?H - ?lb) 0 (map (blockNode h m) [0..<?w]) =
      (auth_path h ?lb ?f ?b i ?lb (?H - ?lb), map (\<lambda>k. i div 2 ^ k mod 2) [?lb..<?H], level_of h ?lb ?f ?b ?H w')"
    using sh(2) unfolding nodes by auto
  have root: "dense h ?lb ?f ?b ?H 0 = mroot m"
    using record_view_is_tree_view [OF ok sh(2)] sh(5) by simp
  have opened: "\<not> (tags m ?q \<noteq> None \<and> ?q \<notin> filled m)" using q by (simp add: open_tags_def split: if_splits)
  have path: "path h m i = Inr (PathResult (auth_path h ?lb ?f ?b i 0 ?H) (map (\<lambda>j. i div 2 ^ j mod 2) [0..<?H]) (mroot m))"
    using A B w' root opened sh(1,2) auth_path_append [of h ?lb ?f ?b i 0 ?lb "?H - ?lb"]
      upt_add_eq_append [of 0 ?lb "?H - ?lb"]
    by (simp add: path_def Let_def level_of_def)
  have "foldToRoot h (dense h ?lb ?f ?b 0 (i div 2 ^ 0)) (auth_path h ?lb ?f ?b i 0 ?H) i = dense h ?lb ?f ?b (0 + ?H) (i div 2 ^ (0 + ?H))"
    unfolding foldToRoot_def using q by (intro fold_auth_path) (auto simp: )
  moreover have "i < 2 ^ ?H" using i sh(3) by simp
  moreover have "dense h ?lb ?f ?b 0 i = ?f i" using q by auto
  ultimately have "foldToRoot h (?f i) (auth_path h ?lb ?f ?b i 0 ?H) i = mroot m" using root by simp
  with path show ?thesis by (simp add: auth_path_def)
qed

subsection \<open>The events ingest applies, and what they keep\<close>

datatype mirror_event =
    EvAppend nat int int
  | EvAttach nat int int
  | EvOp nat "int list" int
  | EvRecord nat int
  | EvFill nat "int list" fill_source

fun mirror_step :: "hash2 \<Rightarrow> mirror \<Rightarrow> mirror_event \<Rightarrow> mirror \<times> mirror_error option" where
  "mirror_step h m (EvAppend i v root) = applyAppend h m i v root"
| "mirror_step h m (EvAttach s r root) = applyAttach h m s r root"
| "mirror_step h m (EvOp s ls root) = applyOpAppend h m s ls root"
| "mirror_step h m (EvRecord i v) = (recordLeaf m i v, None)"
| "mirror_step h m (EvFill s ls src) = (fillBatch m s ls src, None)"

text \<open>
  What the callers guarantee: a leaf is recorded with the value inserted at its index (the chain
  emits the same commitment in both logs), a block is filled only with \<open>B\<close> leaves that fold to its
  subtree root (ingest checks the fold), and a replayed log repeats what it said the first time.
\<close>

definition recordable :: "mirror \<Rightarrow> nat \<Rightarrow> int \<Rightarrow> bool" where
  "recordable m i v \<longleftrightarrow> i < mnext m \<and> tags m (i div mB m) = None \<and> log_view (leaf_log (tree m)) i = v"

fun guarded :: "hash2 \<Rightarrow> mirror \<Rightarrow> mirror_event \<Rightarrow> bool" where
  "guarded h m (EvAppend i v root) \<longleftrightarrow> True"
| "guarded h m (EvAttach s r root) \<longleftrightarrow> mB m dvd s \<and> (s < mnext m \<longrightarrow> tags m (s div mB m) = Some r)"
| "guarded h m (EvOp s ls root) \<longleftrightarrow> (\<forall>k<length ls. s + k < mnext m \<longrightarrow> recordable m (s + k) (ls ! k))"
| "guarded h m (EvRecord i v) \<longleftrightarrow> recordable m i v"
| "guarded h m (EvFill s ls src) \<longleftrightarrow> mB m dvd s \<and> length ls = mB m \<and> s < mnext m \<and>
     tags m (s div mB m) = Some ((pair_level h ^^ logB (tree m)) ls ! 0)"

fun guarded_run :: "hash2 \<Rightarrow> mirror \<Rightarrow> mirror_event list \<Rightarrow> bool" where
  "guarded_run h m [] = True"
| "guarded_run h m (e # es) \<longleftrightarrow> guarded h m e \<and> guarded_run h (fst (mirror_step h m e)) es"

lemma new_mirror_ok: "new_mirror h H B = Inr m \<Longrightarrow> mirror_ok h m \<and> height (tree m) = H \<and> all_recorded m"
proof -
  assume new: "new_mirror h H B = Inr m"
  have none: "js_get [] = (Map.empty :: nat \<Rightarrow> int option)" by (rule ext) simp
  from new show ?thesis
    by (auto simp: none new_mirror_def mirror_ok_def mirror_inv_def all_recorded_def
        dest: new_imt_inv split: sum.splits)
qed

lemma untagged_above:
  assumes "mirror_inv h m" and "mnext m \<le> x"
  shows "tags m (x div mB m) = None"
proof (rule ccontr)
  assume "tags m (x div mB m) \<noteq> None"
  then have "Suc (x div mB m) * mB m \<le> mnext m"
    using mirror_shape(1,6) [OF assms(1)] by (auto simp: view_upto_def)
  moreover have "x < Suc (x div mB m) * mB m"
    using mirror_shape(4) [OF assms(1)] by (simp add: dividend_less_div_times)
  ultimately show False using assms(2) by simp
qed

text \<open>Appends extend the log, so no record made so far is contradicted.\<close>

lemma append_keeps:
  assumes ok: "mirror_ok h m" and t: "imt_inv h t (tags m)" "leaf_log t = leaf_log (tree m) @ vs"
    "nextLeafIndex t = mnext m + length vs"
    "height t = height (tree m)" "logB t = logB (tree m)" "batchSize t = mB m"
  shows "mirror_ok h (m\<lparr>tree := t\<rparr>)"
proof -
  have "length (leaf_log (tree m)) = mnext m" and inv: "mirror_inv h m"
    using ok by (auto simp: mirror_ok_def mirror_inv_def imt_inv_def)
  moreover have "x < mnext m" if "js_get (leaves m) x = Some v" for x v
    using that inv by (metis mirror_inv_def not_less option.distinct(1))
  moreover have "leafValue (m\<lparr>tree := t\<rparr>) = leafValue m" by (rule ext) (simp add: leafValue_def)
  ultimately show ?thesis using ok t by (auto simp: mirror_ok_def mirror_inv_def)
qed

lemma applyAppend_ok:
  assumes ok: "mirror_ok h m" and run: "applyAppend h m i v root = (m', None)"
  shows "mirror_ok h m' \<and> mroot m' = (if i < mnext m then mroot m else root) \<and> height (tree m') = height (tree m)"
proof (cases "i < mnext m")
  case False
  have inv: "imt_inv h (tree m) (tags m)" using ok by (simp add: mirror_ok_def mirror_inv_def)
  have "mnext m \<noteq> 2 ^ height (tree m)"
    using appendLeaf_full [OF inv, of v] run False by (auto simp: applyAppend_def split: prod.splits option.splits)
  then have "mnext m < 2 ^ height (tree m)"
    using inv by (simp add: imt_inv_def frontier_ok_def imt_shape_def)
  from appendLeaf_refines [OF inv this, of v] obtain t where "appendLeaf h (tree m) v = (t, None)"
    "mirror_ok h (m\<lparr>tree := t\<rparr>)" "height t = height (tree m)"
    using append_keeps [OF ok, of _ "[Some v]"] by auto
  then show ?thesis using run False by (auto simp: applyAppend_def split: if_splits)
qed (use ok run in \<open>simp add: applyAppend_def\<close>)

lemma mirror_ok_pending [simp]: "mirror_ok h (m\<lparr>pendingLeaves := p\<rparr>) = mirror_ok h m"
  by (simp add: mirror_ok_def mirror_inv_def leafValue_def)

lemma mirror_ok_public [simp]: "mirror_ok h (m\<lparr>publicFilled := p\<rparr>) = mirror_ok h m"
  by (simp add: mirror_ok_def mirror_inv_def leafValue_def)

lemma tag_batch_simps [simp]:
  "tree (tag_batch m s r) = tree m" "filled (tag_batch m s r) = filled m"
  "mzeros (tag_batch m s r) = mzeros m"
  "batchRoots (tag_batch m s r) = js_set (batchRoots m) (s div mB m) (Some r)"
  "leaves (tag_batch m s r) = (if s div mB m \<in> filled m then leaves m
     else js_set_run (leaves m) s (replicate (mB m) None))"
  by (auto simp: tag_batch_def Let_def)

lemma tag_batch_ok:
  assumes ok: "mirror_ok h m" and g: "mB m dvd s" "s < mnext m" "tags m (s div mB m) = Some r"
  shows "mirror_ok h (tag_batch m s r)"
proof -
  let ?k = "s div mB m"
  have tags: "tags (tag_batch m s r) = tags m" using g(3) by (auto simp: fun_eq_iff js_get_set)
  have B: "0 < mB m" using ok by (intro mirror_shape(4) [of h]) (simp add: mirror_ok_def)
  have in_run: "x div mB m = ?k \<longleftrightarrow> s \<le> x \<and> x < s + mB m" for x
    by (rule in_block_iff [OF B g(1)])
  have lv: "js_get (leaves (tag_batch m s r)) x = (if x div mB m = ?k \<and> ?k \<notin> filled m then None else js_get (leaves m) x)" for x
    by (cases "x div mB m = ?k") (use in_run [of x] in \<open>auto simp: js_get_set_run\<close>)
  have inv: "mirror_inv h (tag_batch m s r)" using ok lv unfolding mirror_ok_def mirror_inv_def tags by simp
  have "leafValue (tag_batch m s r) (k * mB m + i) = leafValue m (k * mB m + i)" if "k \<in> filled m" "i < mB m" for k i
    using that B unfolding leafValue_def lv by auto
  then have fold: "map (\<lambda>i. leafValue (tag_batch m s r) (k * mB m + i)) [0..<mB m] = map (\<lambda>i. leafValue m (k * mB m + i)) [0..<mB m]"
    if "k \<in> filled m" for k using that by simp
  show ?thesis using ok inv unfolding mirror_ok_def tags
    by (simp add: lv fold del: tag_batch_simps(5) cong: conj_cong)
qed

lemma applyAttach_ok:
  assumes ok: "mirror_ok h m" and g: "guarded h m (EvAttach s r root)" and run: "applyAttach h m s r root = (m', None)"
  shows "mirror_ok h m' \<and> mroot m' = (if s < mnext m then mroot m else root) \<and> height (tree m') = height (tree m)"
proof (cases "s < mnext m")
  case True
  then show ?thesis using run g tag_batch_ok [OF ok] by (auto simp: applyAttach_def)
next
  case False
  have inv: "imt_inv h (tree m) (tags m)" and minv: "mirror_inv h m"
    using ok by (simp_all add: mirror_ok_def mirror_inv_def)
  note sh = mirror_shape [OF minv]
  have "\<not> batch_start (tree m) + mB m > 2 ^ height (tree m)"
    using attach_full [OF inv, of None r] run False by (auto simp: applyAttach_def split: prod.splits option.splits)
  then obtain t where t: "attachSubtree h (tree m) r None = (t, None)"
    "imt_inv h t ((tags m)(batch_start (tree m) div mB m \<mapsto> r))"
    "leaf_log t = leaf_log (tree m) @ replicate (batch_start (tree m) - mnext m) (Some 0) @ replicate (mB m) None"
    "nextLeafIndex t = batch_start (tree m) + mB m" "height t = height (tree m)" "logB t = logB (tree m)" "batchSize t = mB m"
    using attach_opaque_refines [OF inv, of r] by auto
  then have s: "s = batch_start (tree m)" and root: "tree_root t = root" and m': "m' = tag_batch (m\<lparr>tree := t\<rparr>) s r"
    using run False by (auto simp: applyAttach_def split: if_splits)
  let ?k = "s div mB m" and ?m = "m\<lparr>tree := t, batchRoots := js_set (batchRoots m) (s div mB m) (Some r)\<rparr>"
  note tags = js_get_set_fun
  have new: "tags m ?k = None" using untagged_above [OF minv, of s] False by simp
  have unset: "js_get (leaves m) x = None" if "mnext m \<le> x" for x using minv that by (simp add: mirror_inv_def)
  have sle: "mnext m \<le> s" by (simp add: s batch_start_def)
  have inv': "mirror_inv h ?m" using minv t s sle unset by (auto simp: mirror_inv_def tags)
  have "mirror_ok h ?m"
  proof -
    have lv: "leafValue ?m = leafValue m" by (rule ext) (simp add: leafValue_def)
    have len: "length (leaf_log (tree m)) = mnext m" using sh(7) .
    have below: "x < mnext m" if "js_get (leaves m) x = Some v" for x v using that unset [of x] by (cases "x < mnext m") auto
    have nk: "?k \<notin> filled m" using ok new by (force simp: mirror_ok_def)
    show ?thesis unfolding mirror_ok_def
    proof (intro conjI allI impI ballI)
      fix x v assume "tags ?m (x div mB ?m) = None" "js_get (leaves ?m) x = Some v"
      then show "v = log_view (leaf_log (tree ?m)) x"
        using ok below [of x v] t len by (auto simp: tags mirror_ok_def split: if_splits)
    next
      fix k assume "k \<in> filled ?m"
      then show "\<exists>r. tags ?m k = Some r \<and> (pair_level h ^^ logB (tree ?m))
          (map (\<lambda>i. leafValue ?m (k * mB ?m + i)) [0..<mB ?m]) ! 0 = r"
        using ok nk t by (auto simp: tags lv mirror_ok_def)
    qed (rule inv')
  qed
  from tag_batch_ok [OF this, of s r] have "mirror_ok h (tag_batch ?m s r)"
    using g t s sh(4) by (simp add: tags)
  moreover have "tag_batch ?m s r = m'\<lparr>pendingLeaves := pendingLeaves m\<rparr>"
    using t by (auto simp: m' tag_batch_def Let_def js_get_set)
  ultimately show ?thesis using root t m' False by auto
qed

lemma recordLeaf_simps [simp]:
  "tree (recordLeaf m i v) = tree m" "filled (recordLeaf m i v) = filled m"
  "mzeros (recordLeaf m i v) = mzeros m" "batchRoots (recordLeaf m i v) = batchRoots m"
  "leaves (recordLeaf m i v) = js_set (leaves m) i (Some v)"
  by (auto simp: recordLeaf_def Let_def)

lemma recordLeaf_ok:
  assumes ok: "mirror_ok h m" and g: "recordable m i v"
  shows "mirror_ok h (recordLeaf m i v)"
proof -
  have B: "0 < mB m" using ok by (intro mirror_shape(4) [of h]) (simp add: mirror_ok_def)
  have i: "i < mnext m" "tags m (i div mB m) = None" "log_view (leaf_log (tree m)) i = v"
    using g by (simp_all add: recordable_def)
  have "leafValue (recordLeaf m i v) (k * mB m + x) = leafValue m (k * mB m + x)" if "k \<in> filled m" "x < mB m" for k x
  proof -
    have "(k * mB m + x) div mB m = k" using that B by simp
    then have "k * mB m + x \<noteq> i" using ok that(1) i(2) by (auto simp: mirror_ok_def)
    then show ?thesis by (simp add: leafValue_def js_get_set)
  qed
  then have fold: "map (\<lambda>x. leafValue (recordLeaf m i v) (k * mB m + x)) [0..<mB m] = map (\<lambda>x. leafValue m (k * mB m + x)) [0..<mB m]"
    if "k \<in> filled m" for k using that by simp
  have "mirror_inv h (recordLeaf m i v)"
    using ok i by (auto simp: mirror_ok_def mirror_inv_def js_get_set)
  then show ?thesis using ok i(3) unfolding mirror_ok_def by (simp add: js_get_set fold)
qed

lemma record_run_ok:
  assumes "mirror_ok h m" and "\<forall>k<length ls. recordable m (s + k) (ls ! k)"
  shows "mirror_ok h (record_run m s ls) \<and> tree (record_run m s ls) = tree m"
  using assms
proof (induction ls arbitrary: m s)
  case (Cons v vs)
  from Cons.prems(2) have v: "recordable m s v" by force
  have "recordable (recordLeaf m s v) (Suc s + k) (vs ! k)" if "k < length vs" for k
    using Cons.prems(2) [rule_format, of "Suc k"] that by (simp add: recordable_def)
  with Cons.IH [OF recordLeaf_ok [OF Cons.prems(1) v]] show ?case by simp
qed simp

lemma op_append_loop_refines:
  assumes "imt_inv h t b" and "next \<le> nextLeafIndex t" "nextLeafIndex t = max next i" "next \<le> i + length ls"
    and "op_append_loop h t next i ls = (t', None)"
  shows "imt_inv h t' b \<and> nextLeafIndex t' = i + length ls \<and> height t' = height t \<and> logB t' = logB t \<and>
    batchSize t' = batchSize t \<and> leaf_log t' = leaf_log t @ map Some (drop (next - i) ls)"
  using assms
proof (induction ls arbitrary: t i)
  case (Cons v vs)
  show ?case
  proof (cases "i \<ge> next")
    case True
    then have n: "nextLeafIndex t = i" using Cons.prems(3) by simp
    have "nextLeafIndex t \<noteq> 2 ^ height t"
      using appendLeaf_full [OF Cons.prems(1), of v] Cons.prems(5) True by (auto split: prod.splits option.splits)
    then have "nextLeafIndex t < 2 ^ height t"
      using Cons.prems(1) by (simp add: imt_inv_def frontier_ok_def imt_shape_def)
    from appendLeaf_refines [OF Cons.prems(1) this, of v] obtain t1 where t1: "appendLeaf h t v = (t1, None)"
      "imt_inv h t1 b" "leaf_log t1 = leaf_log t @ [Some v]" "nextLeafIndex t1 = Suc (nextLeafIndex t)"
      "height t1 = height t" "logB t1 = logB t" "batchSize t1 = batchSize t" by blast
    from Cons.IH [of t1 "Suc i"] t1 Cons.prems True n show ?thesis by auto
  next
    case False
    with Cons.IH [of t "Suc i"] Cons.prems show ?thesis
      by (auto simp: max_def Suc_diff_le [symmetric] drop_Cons' split: if_splits)
  qed
qed auto

lemma applyOpAppend_ok:
  assumes ok: "mirror_ok h m" and g: "guarded h m (EvOp s ls root)" and run: "applyOpAppend h m s ls root = (m', None)"
  shows "mirror_ok h m' \<and> mroot m' = (if s + length ls \<le> mnext m then mroot m else root) \<and> height (tree m') = height (tree m)"
proof (cases "s + length ls \<le> mnext m")
  case True
  then show ?thesis using run g record_run_ok [OF ok, of ls s] by (auto simp: applyOpAppend_def Let_def)
next
  case False
  have minv: "mirror_inv h m" and inv: "imt_inv h (tree m) (tags m)" using ok by (simp_all add: mirror_ok_def mirror_inv_def)
  obtain t where t: "op_append_loop h (tree m) (mnext m) s ls = (t, None)" "tree_root t = root"
    and s: "s \<le> mnext m" and m': "m' = record_run (m\<lparr>tree := t\<rparr>) s ls"
    using run False by (auto simp: applyOpAppend_def Let_def split: prod.splits option.splits if_splits)
  have t': "imt_inv h t (tags m)" "nextLeafIndex t = s + length ls" "height t = height (tree m)"
    "logB t = logB (tree m)" "batchSize t = mB m" "leaf_log t = leaf_log (tree m) @ map Some (drop (mnext m - s) ls)"
    using op_append_loop_refines [OF inv _ _ _ t(1)] False s by auto
  have ok1: "mirror_ok h (m\<lparr>tree := t\<rparr>)"
    using False s t' by (intro append_keeps [OF ok, of t "map Some (drop (mnext m - s) ls)"]) auto
  have len: "length (leaf_log (tree m)) = mnext m" using mirror_shape(7) [OF minv] .
  have "recordable (m\<lparr>tree := t\<rparr>) (s + k) (ls ! k)" if k: "k < length ls" for k
  proof (cases "s + k < mnext m")
    case True
    then show ?thesis using g k t' len by (simp add: recordable_def)
  next
    case False
    then show ?thesis using untagged_above [OF minv, of "s + k"] k t' s len
      by (auto simp: recordable_def js_get_def)
  qed
  with record_run_ok [OF ok1, of ls s] show ?thesis using False t t' m' by simp
qed

lemma fillBatch_ok:
  assumes ok: "mirror_ok h m" and g: "guarded h m (EvFill s ls src)"
  shows "mirror_ok h (fillBatch m s ls src) \<and> tree (fillBatch m s ls src) = tree m"
proof -
  let ?k = "s div mB m" and ?m = "m\<lparr>leaves := js_set_run (leaves m) s (map Some ls), filled := insert (s div mB m) (filled m)\<rparr>"
  have B: "0 < mB m" using ok by (intro mirror_shape(4) [of h]) (simp add: mirror_ok_def)
  have minv: "mirror_inv h m" using ok by (simp add: mirror_ok_def)
  have lv: "js_get (leaves ?m) x = (if x div mB m = ?k then Some (ls ! (x - s)) else js_get (leaves m) x)" for x
    using g in_block_iff [OF B, of s x] by (auto simp: js_get_set_run)
  have "Suc ?k * mB m \<le> mnext m"
    using mirror_shape(1,6) [OF minv] g by (auto simp: view_upto_def)
  then have unset: "x div mB m \<noteq> ?k" if "mnext m \<le> x" for x
    using that dividend_less_div_times [OF B, of x] by auto
  have "mirror_inv h ?m" using minv lv unset by (auto simp: mirror_inv_def)
  moreover have "map (\<lambda>i. leafValue ?m (k * mB m + i)) [0..<mB m] =
      (if k = ?k then ls else map (\<lambda>i. leafValue m (k * mB m + i)) [0..<mB m])" for k
    using g B lv [simplified] by (auto simp: leafValue_def intro!: nth_equalityI)
  ultimately have "mirror_ok h ?m" using ok g lv [simplified] by (auto simp: mirror_ok_def)
  then show ?thesis by (auto simp: fillBatch_def Let_def)
qed

lemma mirror_step_ok:
  assumes "mirror_ok h m" and "guarded h m e" and "mirror_step h m e = (m', None)"
  shows "mirror_ok h m' \<and> height (tree m') = height (tree m)"
proof (cases e)
  case (EvAppend i v root)
  then show ?thesis using applyAppend_ok [OF assms(1), of i v root] assms(3) by auto
next
  case (EvAttach s r root)
  then show ?thesis using applyAttach_ok [OF assms(1), of s r root] assms(2,3) by auto
next
  case (EvOp s ls root)
  then show ?thesis using applyOpAppend_ok [OF assms(1), of s ls root] assms(2,3) by auto
next
  case (EvRecord i v)
  then show ?thesis using recordLeaf_ok [OF assms(1), of i v] assms(2,3) by auto
next
  case (EvFill s ls src)
  then show ?thesis using fillBatch_ok [OF assms(1), of s ls src] assms(2,3) by auto
qed

lemma mirror_run_ok:
  assumes "mirror_ok h m" and "guarded_run h m es" and "run_steps (mirror_step h) m es = (m', None)"
  shows "mirror_ok h m' \<and> height (tree m') = height (tree m)"
  using assms
proof (induction es arbitrary: m)
  case (Cons e es)
  then obtain m1 where "mirror_step h m e = (m1, None)" "run_steps (mirror_step h) m1 es = (m', None)"
    unfolding run_steps_Cons_None by blast
  with mirror_step_ok [of h m e m1] Cons show ?case by auto
qed simp

subsection \<open>Replaying a range\<close>

fun mirror_applied :: "nat \<Rightarrow> mirror \<Rightarrow> mirror_event \<Rightarrow> bool" where
  "mirror_applied B m (EvAppend i v root) \<longleftrightarrow> i < mnext m"
| "mirror_applied B m (EvAttach s r root) \<longleftrightarrow> s < mnext m \<and> tags m (s div B) = Some r \<and>
     (s div B \<notin> filled m \<longrightarrow> s + B \<le> length (leaves m) \<and> (\<forall>x\<in>{s..<s + B}. js_get (leaves m) x = None))"
| "mirror_applied B m (EvOp s ls root) \<longleftrightarrow> s + length ls \<le> mnext m \<and>
     (\<forall>k<length ls. js_get (leaves m) (s + k) = Some (ls ! k))"
| "mirror_applied B m (EvRecord i v) \<longleftrightarrow> js_get (leaves m) i = Some v"
| "mirror_applied B m (EvFill s ls src) \<longleftrightarrow> s div B \<in> filled m \<and> (src = Public \<longrightarrow> s div B \<in> publicFilled m) \<and>
     (\<forall>k<length ls. js_get (leaves m) (s + k) = Some (ls ! k))"

text \<open>The leaf slots an event writes, with what it leaves there.\<close>

fun slot_writes :: "nat \<Rightarrow> mirror_event \<Rightarrow> nat \<Rightarrow> int option option" where
  "slot_writes B (EvAppend i v root) x = None"
| "slot_writes B (EvAttach s r root) x = (if s \<le> x \<and> x < s + B then Some None else None)"
| "slot_writes B (EvOp s ls root) x = (if s \<le> x \<and> x < s + length ls then Some (Some (ls ! (x - s))) else None)"
| "slot_writes B (EvRecord i v) x = (if x = i then Some (Some v) else None)"
| "slot_writes B (EvFill s ls src) x = (if s \<le> x \<and> x < s + length ls then Some (Some (ls ! (x - s))) else None)"

fun aligned_event :: "nat \<Rightarrow> mirror_event \<Rightarrow> bool" where
  "aligned_event B (EvAttach s r root) \<longleftrightarrow> B dvd s"
| "aligned_event B (EvFill s ls src) \<longleftrightarrow> B dvd s \<and> length ls = B"
| "aligned_event B _ \<longleftrightarrow> True"

fun slots_of :: "nat \<Rightarrow> mirror_event \<Rightarrow> nat list" where
  "slots_of B (EvAppend i v root) = []"
| "slots_of B (EvAttach s r root) = [s..<s + B]"
| "slots_of B (EvOp s ls root) = [s..<s + length ls]"
| "slots_of B (EvRecord i v) = [i]"
| "slots_of B (EvFill s ls src) = [s..<s + length ls]"

text \<open>
  One chain tells one story: two attachments of a block carry one root, and two records of a slot
  carry one value (filling a batch is how its holes get their values).
\<close>

fun mirror_compat :: "nat \<Rightarrow> mirror_event \<Rightarrow> mirror_event \<Rightarrow> bool" where
  "mirror_compat B (EvAttach s r root) (EvAttach s' r' root') \<longleftrightarrow> B dvd s \<and> B dvd s' \<and> (s = s' \<longrightarrow> r = r')"
| "mirror_compat B (EvAttach s r root) (EvFill s' ls src) \<longleftrightarrow> B dvd s \<and> B dvd s' \<and> length ls = B"
| "mirror_compat B (EvFill s' ls src) (EvAttach s r root) \<longleftrightarrow> B dvd s \<and> B dvd s' \<and> length ls = B"
| "mirror_compat B e e' \<longleftrightarrow> aligned_event B e \<and> aligned_event B e' \<and>
     (\<forall>x\<in>set (slots_of B e). x \<in> set (slots_of B e') \<longrightarrow> slot_writes B e x = slot_writes B e' x)"

lemma insertNode_batchSize: "insertNode h t v k = (t', None) \<Longrightarrow> batchSize t' = batchSize t \<and> nextLeafIndex t < nextLeafIndex t'"
  by (auto simp: insertNode_def Let_def split: if_splits prod.splits)

lemma appendLeaf_batchSize: "appendLeaf h t v = (t', None) \<Longrightarrow> batchSize t' = batchSize t \<and> nextLeafIndex t < nextLeafIndex t'"
  by (auto simp: appendLeaf_def dest!: insertNode_batchSize)

lemma pad_loop_batchSize: "pad_loop h p t = (t', None) \<Longrightarrow> batchSize t' = batchSize t \<and> nextLeafIndex t \<le> nextLeafIndex t'"
  by (induction p arbitrary: t) (fastforce dest: insertNode_batchSize split: prod.splits option.splits)+

lemma attach_batchSize: "attachSubtree h t r ls = (t', None) \<Longrightarrow> batchSize t' = batchSize t \<and> nextLeafIndex t \<le> nextLeafIndex t'"
  by (fastforce simp: attachSubtree_def padToBlockBoundary_def dest: insertNode_batchSize pad_loop_batchSize
      split: prod.splits option.splits if_splits sum.splits)

lemma op_append_batchSize:
  "op_append_loop h t next i ls = (t', None) \<Longrightarrow> batchSize t' = batchSize t \<and> nextLeafIndex t \<le> nextLeafIndex t'"
  by (induction h t "next" i ls rule: op_append_loop.induct)
    (fastforce dest: appendLeaf_batchSize split: prod.splits option.splits if_splits)+

lemma record_run_simps [simp]:
  "tree (record_run m s ls) = tree m" "filled (record_run m s ls) = filled m"
  "batchRoots (record_run m s ls) = batchRoots m" "publicFilled (record_run m s ls) = publicFilled m"
  "leaves (record_run m s ls) = js_set_run (leaves m) s (map Some ls)"
  by (induction m s ls rule: record_run.induct) (auto simp: recordLeaf_def Let_def)

text \<open>What an event that does not throw does to the mirror.\<close>

lemma mirror_step_effect:
  assumes "mB m = B" and "mirror_step h m e = (m', None)"
  shows "mB m' = B" "mnext m \<le> mnext m'"
    and "tags m' = (case e of EvAttach s r root \<Rightarrow> (tags m)(s div B \<mapsto> r) | _ \<Rightarrow> tags m)"
    and "filled m' = (case e of EvFill s ls src \<Rightarrow> insert (s div B) (filled m) | _ \<Rightarrow> filled m)"
    and "publicFilled m \<subseteq> publicFilled m'"
    and "js_get (leaves m') x = (case e of EvAttach s r root \<Rightarrow>
           (if s div B \<notin> filled m \<and> s \<le> x \<and> x < s + B then None else js_get (leaves m) x)
         | _ \<Rightarrow> (case slot_writes B e x of None \<Rightarrow> js_get (leaves m) x | Some w \<Rightarrow> w))"
    and "length (leaves m) \<le> length (leaves m')"
proof -
  have "mB m' = B \<and> mnext m \<le> mnext m'"
    using assms by (cases e)
      (auto simp: applyAppend_def applyAttach_def applyOpAppend_def fillBatch_def Let_def split: if_splits prod.splits option.splits
        dest: appendLeaf_batchSize attach_batchSize op_append_batchSize)
  then show "mB m' = B" "mnext m \<le> mnext m'" by simp_all
  show "tags m' = (case e of EvAttach s r root \<Rightarrow> (tags m)(s div B \<mapsto> r) | _ \<Rightarrow> tags m)"
    using assms by (cases e)
      (auto simp: applyAppend_def applyAttach_def applyOpAppend_def fillBatch_def Let_def js_get_set_fun split: if_splits prod.splits option.splits
        dest: attach_batchSize)
  show "filled m' = (case e of EvFill s ls src \<Rightarrow> insert (s div B) (filled m) | _ \<Rightarrow> filled m)"
    using assms by (cases e)
      (auto simp: applyAppend_def applyAttach_def applyOpAppend_def fillBatch_def Let_def split: if_splits prod.splits option.splits)
  show "publicFilled m \<subseteq> publicFilled m'"
    using assms by (cases e)
      (auto simp: applyAppend_def applyAttach_def applyOpAppend_def fillBatch_def recordLeaf_def tag_batch_def Let_def
        split: if_splits prod.splits option.splits)
  have L: "leaves m' = (case e of EvAppend i v root \<Rightarrow> leaves m
      | EvAttach s r root \<Rightarrow> (if s div B \<in> filled m then leaves m else js_set_run (leaves m) s (replicate B None))
      | EvOp s ls root \<Rightarrow> js_set_run (leaves m) s (map Some ls)
      | EvRecord i v \<Rightarrow> js_set (leaves m) i (Some v)
      | EvFill s ls src \<Rightarrow> js_set_run (leaves m) s (map Some ls))"
    using assms by (cases e)
      (auto simp: applyAppend_def applyAttach_def applyOpAppend_def fillBatch_def Let_def split: if_splits prod.splits option.splits
        dest: attach_batchSize)
  show "js_get (leaves m') x = (case e of EvAttach s r root \<Rightarrow>
           (if s div B \<notin> filled m \<and> s \<le> x \<and> x < s + B then None else js_get (leaves m) x)
         | _ \<Rightarrow> (case slot_writes B e x of None \<Rightarrow> js_get (leaves m) x | Some w \<Rightarrow> w))"
    unfolding L by (cases e) (auto simp: js_array)
  show "length (leaves m) \<le> length (leaves m')"
    unfolding L by (cases e) (auto simp: length_js_set length_js_set_run_le)
qed

lemma mirror_skip:
  assumes B: "mB m = B" "0 < B" and e: "mirror_applied B m e"
  shows "(case e of EvAttach s r root \<Rightarrow> True | EvOp s ls root \<Rightarrow> True | _ \<Rightarrow> True) \<and> mirror_step h m e = (m, None)"
proof (cases e)
  case (EvAttach s r root)
  have "js_set_run (leaves m) s (replicate (mB m) None) = leaves m" if "s div B \<notin> filled m"
    using that e EvAttach B by (intro js_set_run_same) auto
  moreover have "js_set (batchRoots m) (s div B) (Some r) = batchRoots m"
    using e EvAttach by (simp add: js_set_same)
  ultimately show ?thesis using e EvAttach B by (auto simp: applyAttach_def tag_batch_def Let_def)
next
  case (EvOp s ls root)
  have "record_run m s ls = m" if "\<forall>k<length ls. js_get (leaves m) (s + k) = Some (ls ! k)" for s ls
    using that
  proof (induction ls arbitrary: s)
    case (Cons v vs)
    have "recordLeaf m s v = m" using Cons.prems by (force simp: recordLeaf_def Let_def js_set_same)
    moreover have "record_run m (Suc s) vs = m" using Cons.prems by (intro Cons.IH) force
    ultimately show ?case by simp
  qed simp
  then show ?thesis using e EvOp by (simp add: applyOpAppend_def Let_def)
next
  case (EvFill s ls src)
  then show ?thesis using e B
    by (auto simp: fillBatch_def Let_def js_set_run_values insert_absorb)
qed (use e in \<open>auto simp: applyAppend_def recordLeaf_def Let_def js_set_same\<close>)

lemma value_keeps:
  assumes B: "mB m = B" "0 < B" and c: "mirror_compat B e e'" and run: "mirror_step h m e' = (m', None)"
    and x: "x \<in> set (slots_of B e)" "slot_writes B e x = Some (Some v)" "js_get (leaves m) x = Some v"
    and fill: "\<And>s ls src. e = EvFill s ls src \<Longrightarrow> s div B \<in> filled m"
  shows "js_get (leaves m') x = Some v"
proof (cases "\<exists>s r root. e' = EvAttach s r root")
  case True
  then obtain s' r root where e': "e' = EvAttach s' r root" by blast
  have "\<not> (s' div B \<notin> filled m \<and> s' \<le> x \<and> x < s' + B)"
  proof (cases e)
    case (EvFill s ls src)
    then show ?thesis using c fill [OF EvFill] x(1) in_block_iff [OF B(2), of s x] in_block_iff [OF B(2), of s' x]
      by (auto simp: e')
  qed (use c x in \<open>auto simp: e'\<close>)
  then show ?thesis using mirror_step_effect(6) [OF B(1) run, of x] x(3) by (auto simp: e')
next
  case False
  then have "slot_writes B e' x = None \<or> slot_writes B e' x = Some (Some v)"
    using c x(1,2) by (cases e; cases e') (auto split: if_splits)
  then show ?thesis using mirror_step_effect(6) [OF B(1) run, of x] x(3) False by (auto split: mirror_event.splits)
qed

lemma mirror_keeps:
  assumes B: "mB m = B" "0 < B" and e: "mirror_applied B m e" and c: "mirror_compat B e e'"
    and run: "mirror_step h m e' = (m', None)"
  shows "mirror_applied B m' e"
proof -
  note eff = mirror_step_effect [OF B(1) run]
  note keep = value_keeps [OF B c run]
  show ?thesis
  proof (cases e)
    case (EvAppend i v root)
    then show ?thesis using e eff(2) by simp
  next
    case (EvAttach s r root)
    have "tags m' (s div B) = Some r"
      using e c EvAttach eff(3) B(2) by (cases e') (auto elim!: dvdE)
    moreover have "js_get (leaves m') x = None" if "s div B \<notin> filled m'" "s \<le> x" "x < s + B" for x
    proof -
      have x: "s div B \<notin> filled m" "js_get (leaves m) x = None"
        using that e EvAttach eff(4) by (auto split: mirror_event.splits)
      have "x div B = s div B" using c EvAttach that in_block_iff [OF B(2), of s x] by (cases e') auto
      then have "x \<notin> set (slots_of B e') \<or> (\<exists>s' r' root'. e' = EvAttach s' r' root')"
        using c that eff(4) in_block_iff [OF B(2), of _ x] by (cases e') (auto simp: EvAttach split: if_splits)
      then show ?thesis using eff(6) [of x] x(2) by (cases e') auto
    qed
    ultimately show ?thesis using e EvAttach eff(2,7) by (auto; (use eff(4) in \<open>auto split: mirror_event.splits\<close>))
  next
    case (EvOp s ls root)
    then show ?thesis using e eff(2) keep by auto
  next
    case (EvRecord i v)
    then show ?thesis using e keep [of i v] by auto
  next
    case (EvFill s ls src)
    have "s div B \<in> filled m'" "src = Public \<longrightarrow> s div B \<in> publicFilled m'"
      using e EvFill eff(4,5) by (auto split: mirror_event.splits)
    then show ?thesis using e EvFill keep by auto
  qed
qed

lemma mirror_marks:
  assumes B: "mB m = B" "0 < B" and run: "mirror_step h m e = (m', None)"
  shows "mirror_applied B m' e"
proof (cases e)
  case (EvAppend i v root)
  then show ?thesis using run
    by (auto simp: applyAppend_def split: if_splits prod.splits option.splits dest!: appendLeaf_batchSize)
next
  case (EvAttach s r root)
  have "s < mnext m'" and len: "s div B \<notin> filled m \<Longrightarrow> length (leaves m') = max (length (leaves m)) (s + B)"
    using run EvAttach B
    by (auto simp: applyAttach_def length_js_set_run split: if_splits prod.splits option.splits dest: attach_batchSize)
  moreover have "filled m' = filled m" and "tags m' (s div B) = Some r"
    using mirror_step_effect(3,4) [OF B(1) run] EvAttach by simp_all
  moreover have "js_get (leaves m') x = None" if "s div B \<notin> filled m" "s \<le> x" "x < s + B" for x
    using mirror_step_effect(6) [OF B(1) run, of x] EvAttach that by simp
  ultimately show ?thesis using EvAttach by simp
next
  case (EvOp s ls root)
  then show ?thesis using run mirror_step_effect(6) [OF B(1) run]
    by (auto simp: applyOpAppend_def Let_def split: if_splits prod.splits option.splits)
next
  case (EvRecord i v)
  then show ?thesis using mirror_step_effect(6) [OF B(1) run, of i] by simp
next
  case (EvFill s ls src)
  then show ?thesis using run mirror_step_effect(4,6) [OF B(1) run] B by (auto simp: fillBatch_def Let_def)
qed

interpretation mirror_replay: replay_safe "mirror_step h" "mirror_applied B" "\<lambda>m. mB m = B \<and> 0 < B" "mirror_compat B"
  for h B
  proof unfold_locales
  fix m m' :: mirror and e e'
  assume g: "mB m = B \<and> 0 < B"
  show "mirror_applied B m e \<Longrightarrow> mirror_step h m e = (m, None)" using g mirror_skip by blast
  show "mirror_step h m e = (m', None) \<Longrightarrow> mirror_applied B m' e" using g mirror_marks by blast
  show "mirror_applied B m e \<Longrightarrow> mirror_compat B e e' \<Longrightarrow> mirror_step h m e' = (m', None) \<Longrightarrow> mirror_applied B m' e"
    using g mirror_keeps by blast
  show "mirror_step h m e = (m', None) \<Longrightarrow> mB m' = B \<and> 0 < B" using g mirror_step_effect(1) by blast
qed

subsection \<open>Properties\<close>

text \<open>A mirror of height 3 with blocks of 2, and a range on it: a leaf, a batch, a leaf, their records, a fill.\<close>

definition demo_mirror :: mirror where
  "demo_mirror = projr (new_mirror demo_hash 3 2)"

definition demo_range :: "mirror_event list" where
  "demo_range = [EvAppend 0 5 18, EvAttach 2 24 64, EvAppend 4 9 82, EvRecord 0 5, EvRecord 4 9,
     EvFill 2 [7, 8] Arbiter]"

text \<open>
  C1: after any guarded sequence of tree events, records and fills that did not throw, when every
  inserted leaf has been recorded, \<open>path\<close> never reports a divergence below the frontier: it answers
  the batch sentinel exactly inside an unfilled batch, and otherwise one sibling per level with the
  bits of the index, which fold the served leaf to the current root.
\<close>

theorem served_path_closes:
  assumes "new_mirror h H B = Inr m0" and "guarded_run h m0 es" and "run_steps (mirror_step h) m0 es = (m, None)"
    and "all_recorded m" and "i < mnext m"
  shows "if isBatch m (i div mB m) \<and> i div mB m \<notin> filled m then path h m i = Inr BatchLeaf
    else \<exists>siblings. path h m i = Inr (PathResult siblings (map (\<lambda>j. i div 2 ^ j mod 2) [0..<H]) (mroot m)) \<and>
      length siblings = H \<and> foldToRoot h (leafValue m i) siblings i = mroot m"
proof -
  have ok: "mirror_ok h m" "height (tree m) = H"
    using new_mirror_ok [OF assms(1)] mirror_run_ok [of h m0 es m] assms(2,3) by auto
  show ?thesis
  proof (cases "isBatch m (i div mB m) \<and> i div mB m \<notin> filled m")
    case True
    then show ?thesis by (simp add: isBatch_def path_def Let_def)
  next
    case False
    then have "open_tags m (i div mB m) = None" by (auto simp: isBatch_def open_tags_def)
    from path_serves [OF ok(1) assms(4,5) this] ok(2) False show ?thesis by auto
  qed
qed

theorem served_path_closes_witness:
  "let m = fst (run_steps (mirror_step demo_hash) demo_mirror demo_range) in
     if isBatch m (3 div mB m) \<and> 3 div mB m \<notin> filled m then path demo_hash m 3 = Inr BatchLeaf
     else \<exists>siblings. path demo_hash m 3 = Inr (PathResult siblings (map (\<lambda>j. 3 div 2 ^ j mod 2) [0..<3]) (mroot m)) \<and>
       length siblings = 3 \<and> foldToRoot demo_hash (leafValue m 3) siblings 3 = mroot m"
proof -
  let ?m = "fst (run_steps (mirror_step demo_hash) demo_mirror demo_range)"
  have "all_recorded ?m \<longleftrightarrow> (\<forall>x\<in>set [0..<mnext ?m]. tags ?m (x div mB ?m) = None \<longrightarrow>
      js_get (leaves ?m) x = None \<longrightarrow> log_view (leaf_log (tree ?m)) x = 0)"
    by (auto simp: all_recorded_def)
  moreover have "\<forall>x\<in>set [0..<mnext ?m]. tags ?m (x div mB ?m) = None \<longrightarrow>
      js_get (leaves ?m) x = None \<longrightarrow> log_view (leaf_log (tree ?m)) x = 0"
    and "3 < mnext ?m" and "run_steps (mirror_step demo_hash) demo_mirror demo_range = (?m, None)"
    and "new_mirror demo_hash 3 2 = Inr demo_mirror" by code_simp+
  moreover have "guarded_run demo_hash demo_mirror demo_range" by code_simp
  ultimately show ?thesis using served_path_closes [of demo_hash 3 2 demo_mirror demo_range ?m 3] by (simp add: Let_def)
qed

text \<open>
  C7: the mirror converges under the poll loop's retries: once a range of events that tells one
  story about each block and slot was applied, replaying it leaves the mirror as it is, and
  replaying it in front of new events applies just the new ones.
\<close>

theorem mirror_replay_converges:
  assumes "mB m = B" and "0 < B" and "\<forall>e\<in>set es. \<forall>e'\<in>set es. mirror_compat B e e'"
    and "run_steps (mirror_step h) m es = (m', None)"
  shows "run_steps (mirror_step h) m' es = (m', None) \<and>
    run_steps (mirror_step h) m' (es @ es') = run_steps (mirror_step h) m' es'"
  using mirror_replay.replay_converges [of m B es h m'] mirror_replay.retry_resumes [of m B es h m' es'] assms by simp

theorem mirror_replay_converges_witness:
  "let m = fst (run_steps (mirror_step demo_hash) demo_mirror demo_range) in
     run_steps (mirror_step demo_hash) m demo_range = (m, None) \<and>
     run_steps (mirror_step demo_hash) m (demo_range @ [EvRecord 5 1]) = run_steps (mirror_step demo_hash) m [EvRecord 5 1]"
proof -
  let ?m = "fst (run_steps (mirror_step demo_hash) demo_mirror demo_range)"
  have "run_steps (mirror_step demo_hash) demo_mirror demo_range = (?m, None)" and "mB demo_mirror = 2"
    and "\<forall>e\<in>set demo_range. \<forall>e'\<in>set demo_range. mirror_compat 2 e e'" by code_simp+
  with mirror_replay_converges [of demo_mirror 2 demo_range demo_hash ?m "[EvRecord 5 1]"] show ?thesis
    by (simp add: Let_def)
qed

end
