(* ===== verification/Js_Number.thy ===== *)
theory Js_Number
  imports Prelude "HOL-Library.Char_ord"
begin

text \<open>
  Decimal strings and the JavaScript conversions between strings and big integers that the client
  uses on typed amounts: \<open>String.prototype.trim\<close>, \<open>BigInt(s)\<close> and \<open>BigInt.prototype.toString\<close>.
  Strings are lists of 8-bit characters; of the white space characters JavaScript trims, those of
  the Latin-1 range are modelled.
\<close>

named_theorems js_num \<open>strings of digits and the numbers they denote\<close>

definition is_space :: "char \<Rightarrow> bool" where
  "is_space c \<longleftrightarrow> (of_char c :: nat) \<in> {9, 10, 11, 12, 13, 32, 160}"

definition is_digit :: "char \<Rightarrow> bool" where
  "is_digit c \<longleftrightarrow> 48 \<le> (of_char c :: nat) \<and> (of_char c :: nat) \<le> 57"

definition digit_value :: "char \<Rightarrow> nat" where
  "digit_value c = of_char c - 48"

definition digit_char :: "nat \<Rightarrow> char" where
  "digit_char d = char_of (48 + d)"

definition radix_digit :: "char \<Rightarrow> nat option" where
  "radix_digit c = (let x = of_char c in
     if 48 \<le> x \<and> x \<le> 57 then Some (x - 48)
     else if 97 \<le> x \<and> x \<le> 102 then Some (x - 87)
     else if 65 \<le> x \<and> x \<le> 70 then Some (x - 55) else None)"

fun radix_value :: "nat \<Rightarrow> nat \<Rightarrow> string \<Rightarrow> nat option" where
  "radix_value b acc [] = Some acc"
| "radix_value b acc (c # cs) =
     (case radix_digit c of None \<Rightarrow> None
      | Some d \<Rightarrow> (if d < b then radix_value b (acc * b + d) cs else None))"

definition digits_value :: "string \<Rightarrow> int" where
  "digits_value cs = fold (\<lambda>c acc. acc * 10 + int (digit_value c)) cs 0"

definition js_trim :: "string \<Rightarrow> string" where
  "js_trim s = rev (dropWhile is_space (rev (dropWhile is_space s)))"

text \<open>A nonempty run of digits of the given base.\<close>

definition radix_literal :: "nat \<Rightarrow> string \<Rightarrow> int option" where
  "radix_literal b cs = (if cs = [] then None else map_option int (radix_value b 0 cs))"

definition js_BigInt :: "string \<Rightarrow> int option" where
  "js_BigInt s =
     (let t = js_trim s in
      if t = [] then Some 0
      else if take 2 t \<in> {''0x'', ''0X''} then radix_literal 16 (drop 2 t)
      else if take 2 t \<in> {''0o'', ''0O''} then radix_literal 8 (drop 2 t)
      else if take 2 t \<in> {''0b'', ''0B''} then radix_literal 2 (drop 2 t)
      else if take 1 t = ''-'' then map_option uminus (radix_literal 10 (drop 1 t))
      else if take 1 t = ''+'' then radix_literal 10 (drop 1 t)
      else radix_literal 10 t)"

fun decimal_nat :: "nat \<Rightarrow> string" where
  "decimal_nat n = (if n < 10 then [digit_char n] else decimal_nat (n div 10) @ [digit_char (n mod 10)])"

declare decimal_nat.simps [simp del]

definition js_toString :: "int \<Rightarrow> string" where
  "js_toString n = (if n < 0 then CHR ''-'' # decimal_nat (nat (- n)) else decimal_nat (nat n))"

subsection \<open>Digits\<close>

lemma of_char_digit_char [js_num]: "d < 10 \<Longrightarrow> of_char (digit_char d) = 48 + d"
  by (simp add: digit_char_def of_char_of)

lemma digit_char_digit [js_num]: "d < 10 \<Longrightarrow> is_digit (digit_char d)"
  by (simp add: is_digit_def of_char_digit_char)

lemma digit_value_char [js_num]: "d < 10 \<Longrightarrow> digit_value (digit_char d) = d"
  by (simp add: digit_value_def of_char_digit_char)

lemma digit_value_less [js_num]: "is_digit c \<Longrightarrow> digit_value c < 10"
  unfolding is_digit_def digit_value_def by linarith

lemma digit_not_space: "is_digit c \<Longrightarrow> \<not> is_space c"
  by (auto simp: is_digit_def is_space_def)

lemma radix_digit_decimal [js_num]: "is_digit c \<Longrightarrow> radix_digit c = Some (digit_value c)"
  by (simp add: is_digit_def radix_digit_def digit_value_def Let_def)

lemma digits_value_append [js_num]:
  "digits_value (xs @ ys) = digits_value xs * 10 ^ length ys + digits_value ys"
proof -
  have "fold (\<lambda>c acc. acc * 10 + int (digit_value c)) cs a =
      a * 10 ^ length cs + fold (\<lambda>c acc. acc * 10 + int (digit_value c)) cs 0" for cs and a :: int
  proof (induction cs arbitrary: a)
    case (Cons c cs)
    show ?case using Cons.IH [of "a * 10 + int (digit_value c)"] Cons.IH [of "int (digit_value c)"]
      by (simp add: algebra_simps)
  qed simp
  from this [of ys "digits_value xs"] show ?thesis by (simp add: digits_value_def)
qed

lemma digits_value_simps [simp]: "digits_value [] = 0" "digits_value [c] = int (digit_value c)"
  by (simp_all add: digits_value_def)

lemma digits_value_nonneg [simp]: "0 \<le> digits_value cs"
  by (induction cs rule: rev_induct) (auto simp: digits_value_append)

lemma digits_value_less: "\<forall>c\<in>set cs. is_digit c \<Longrightarrow> digits_value cs < 10 ^ length cs"
proof (induction cs rule: rev_induct)
  case (snoc c cs)
  then show ?case using digit_value_less [of c] by (simp add: digits_value_append)
qed simp

lemma radix_value_digits:
  "\<forall>c\<in>set cs. is_digit c \<Longrightarrow> radix_value 10 a cs = Some (a * 10 ^ length cs + nat (digits_value cs))"
proof (induction cs arbitrary: a rule: rev_induct)
  case Nil
  show ?case by simp
next
  case (snoc c cs)
  have "radix_value b a (xs @ ys) = (case radix_value b a xs of None \<Rightarrow> None | Some a' \<Rightarrow> radix_value b a' ys)"
    for b a xs ys by (induction xs arbitrary: a) (auto split: option.splits)
  with snoc show ?case
    by (simp add: radix_digit_decimal digit_value_less digits_value_append nat_add_distrib nat_mult_distrib algebra_simps)
qed

lemma digits_prefix:
  assumes "\<forall>c\<in>set t. is_digit c" and "t \<noteq> []"
  shows "take 2 t \<notin> {''0x'', ''0X'', ''0o'', ''0O'', ''0b'', ''0B''}" "take 1 t \<noteq> ''-''" "take 1 t \<noteq> ''+''"
  using assms by (cases t; cases "tl t"; auto simp: is_digit_def)+

lemma js_trim_digits: "\<forall>c\<in>set t. is_digit c \<Longrightarrow> js_trim t = t"
proof -
  assume "\<forall>c\<in>set t. is_digit c"
  then have "\<forall>c\<in>set t. \<not> is_space c" by (auto dest: digit_not_space)
  then have "dropWhile is_space t = t" "dropWhile is_space (rev t) = rev t"
    by (cases t, auto) (cases "rev t", auto dest: arg_cong [of "rev t" _ set])
  then show ?thesis by (simp add: js_trim_def)
qed

lemma js_BigInt_digits:
  assumes "\<forall>c\<in>set t. is_digit c"
  shows "js_BigInt t = Some (digits_value t)"
proof (cases "t = []")
  case False
  show ?thesis using digits_prefix [OF assms False] radix_value_digits [OF assms, of 0] False
    by (simp add: js_BigInt_def Let_def js_trim_digits [OF assms] radix_literal_def)
qed (simp add: js_BigInt_def js_trim_def)

subsection \<open>Decimal strings of natural numbers\<close>

lemma decimal_nat_digits: "\<forall>c\<in>set (decimal_nat n). is_digit c"
  by (induction n rule: decimal_nat.induct) (subst decimal_nat.simps, auto simp: digit_char_digit)

lemma decimal_nat_ne [simp]: "decimal_nat n \<noteq> []"
  by (subst decimal_nat.simps) simp

lemma decimal_nat_value [js_num]: "digits_value (decimal_nat n) = int n"
proof (induction n rule: decimal_nat.induct)
  case (1 n)
  then show ?case
    by (subst decimal_nat.simps) (auto simp: digits_value_append digit_value_char zdiv_int zmod_int)
qed

lemma decimal_nat_length: "n < 10 ^ k \<Longrightarrow> 0 < k \<Longrightarrow> length (decimal_nat n) \<le> k"
proof (induction n arbitrary: k rule: decimal_nat.induct)
  case (1 n)
  show ?case
  proof (cases "n < 10")
    case True
    then show ?thesis using 1(3) by (subst decimal_nat.simps) simp
  next
    case False
    then obtain k' where k: "k = Suc k'" "0 < k'" using 1(2,3) by (cases k; cases "k - 1") auto
    then have "n div 10 < 10 ^ k'" using 1(2) by (simp add: less_mult_imp_div_less mult.commute)
    then show ?thesis using 1(1) [OF False, of k'] k False by (subst decimal_nat.simps) simp
  qed
qed

lemma decimal_nat_hd: "0 < n \<Longrightarrow> hd (decimal_nat n) \<noteq> CHR ''0''"
proof (induction n rule: decimal_nat.induct)
  case (1 n)
  have z: "d < 10 \<Longrightarrow> digit_char d = CHR ''0'' \<Longrightarrow> d = 0" for d
    using of_char_digit_char [of d] by simp
  show ?case using 1 z by (subst decimal_nat.simps) (auto simp: hd_append)
qed

lemma js_BigInt_toString: "js_BigInt (js_toString n) = Some n"
proof (cases "n < 0")
  case False
  then show ?thesis using js_BigInt_digits [OF decimal_nat_digits] by (simp add: js_toString_def decimal_nat_value)
next
  case True
  let ?t = "decimal_nat (nat (- n))"
  have "dropWhile is_space (rev (CHR ''-'' # ?t)) = rev (CHR ''-'' # ?t)"
    using decimal_nat_digits [of "nat (- n)"] decimal_nat_ne [of "nat (- n)"]
    by (cases "?t" rule: rev_cases) (auto dest: digit_not_space)
  then have "js_trim (CHR ''-'' # ?t) = CHR ''-'' # ?t" by (simp add: js_trim_def is_space_def)
  with True show ?thesis using radix_value_digits [OF decimal_nat_digits, of 0]
    by (simp add: js_BigInt_def js_toString_def Let_def radix_literal_def decimal_nat_value)
qed

end
