(* ===== verification/Spend_Plan.thy ===== *)
theory Spend_Plan
  imports Js_Number "HOL-Library.Product_Lexorder" "HOL-Library.Multiset" "HOL-Library.Sublist"
begin

text \<open>
  \<open>packages/client/src/ops/spend/plan.ts\<close> and the balance sum of \<open>scan/balance.ts\<close>: which notes
  fund a payment, which circuit proves it, and the chain of merges that puts an amount spread over
  many notes within one transaction's reach.

  Note values are the integers their decimal strings denote; the typed amount stays a string and is
  read by JavaScript's \<open>BigInt\<close>. A leaf index is an integer because a plan marks the note a merge
  leg will create with a negative one.
\<close>

subsection \<open>Notes and selection\<close>

record input_note =
  in_value :: int
  in_salt :: string
  in_leaf :: int

record selectable_note =
  note_value :: int
  note_salt :: string
  note_leaf :: int
  note_spent :: bool

datatype spend_error = BadAmount | Insufficient | NeedsMerge

datatype spend_kind = Transfer | Withdraw

datatype spend_circuit = CTransfer | CTransfer10x2 | CWithdraw

definition TRANSFER10_ARITY :: nat where
  "TRANSFER10_ARITY = 10"

definition sumUnspent :: "selectable_note list \<Rightarrow> int" where
  "sumUnspent notes = fold (\<lambda>n total. if note_spent n then total else total + note_value n) notes 0"

definition unspentLargestFirst :: "selectable_note list \<Rightarrow> selectable_note list" where
  "unspentLargestFirst notes =
     sort_key (\<lambda>n. (- note_value n, note_leaf n)) (filter (\<lambda>n. \<not> note_spent n) notes)"

definition pickNote :: "selectable_note \<Rightarrow> input_note" where
  "pickNote n = \<lparr>in_value = note_value n, in_salt = note_salt n, in_leaf = note_leaf n\<rparr>"

text \<open>The covering fold: notes are taken until they cover the amount.\<close>

definition cover_step :: "int \<Rightarrow> selectable_note \<Rightarrow> input_note list \<times> int \<Rightarrow> input_note list \<times> int" where
  "cover_step amt n acc =
     (case acc of (chosen, acc_sum) \<Rightarrow>
        if acc_sum \<ge> amt then (chosen, acc_sum) else (chosen @ [pickNote n], acc_sum + note_value n))"

definition selectInputNotes :: "selectable_note list \<Rightarrow> string \<Rightarrow> nat \<Rightarrow> spend_error + input_note list" where
  "selectInputNotes notes amount maxArity =
     (case js_BigInt amount of
        None \<Rightarrow> Inl BadAmount
      | Some amt \<Rightarrow>
          if amt \<le> 0 then Inl BadAmount
          else let unspent = unspentLargestFirst notes in
            if unspent = [] then Inl Insufficient
            else let (chosen, covered) = fold (cover_step amt) unspent ([], 0) in
              if covered \<ge> amt \<and> length chosen \<le> maxArity then Inr chosen
              else if sum_list (map note_value unspent) < amt then Inl Insufficient
              else Inl NeedsMerge)"

subsection \<open>Circuit choice\<close>

record spend_action =
  act_circuit :: spend_circuit
  act_inputs :: "input_note list"
  act_to :: string
  act_amount :: string

definition terminalArity :: "spend_kind \<Rightarrow> nat" where
  "terminalArity kind = (if kind = Withdraw then 2 else TRANSFER10_ARITY)"

definition terminal_circuit :: "spend_kind \<Rightarrow> input_note list \<Rightarrow> spend_circuit" where
  "terminal_circuit kind inputs =
     (if kind = Withdraw then CWithdraw else if length inputs > 2 then CTransfer10x2 else CTransfer)"

definition planSpendAction ::
  "spend_kind \<Rightarrow> selectable_note list \<Rightarrow> string option \<Rightarrow> string \<Rightarrow> spend_error + spend_action" where
  "planSpendAction kind notes to amount =
     (if kind = Withdraw
      then (case selectInputNotes notes amount 2 of
              Inl e \<Rightarrow> Inl e
            | Inr inputs \<Rightarrow> Inr \<lparr>act_circuit = CWithdraw, act_inputs = inputs, act_to = '''', act_amount = amount\<rparr>)
      else (case selectInputNotes notes amount TRANSFER10_ARITY of
              Inl e \<Rightarrow> Inl e
            | Inr inputs \<Rightarrow> Inr \<lparr>act_circuit = (if length inputs > 2 then CTransfer10x2 else CTransfer),
                act_inputs = inputs, act_to = (case to of None \<Rightarrow> '''' | Some t \<Rightarrow> t), act_amount = amount\<rparr>))"

definition totalValue :: "selectable_note list \<Rightarrow> int" where
  "totalValue inputs = sum_list (map note_value inputs)"

subsection \<open>The spend chain\<close>

datatype spend_leg =
    MergeLeg (leg_inputs: "input_note list") (merged_value: int)
  | TerminalLeg spend_circuit (leg_inputs: "input_note list")

fun legCircuit :: "spend_leg \<Rightarrow> spend_circuit" where
  "legCircuit (MergeLeg inputs v) = CTransfer10x2"
| "legCircuit (TerminalLeg c inputs) = c"

definition pendingLeaf :: "nat \<Rightarrow> int" where
  "pendingLeaf legIndex = - (int legIndex + 1)"

definition pendingLegOf :: "int \<Rightarrow> nat option" where
  "pendingLegOf leafIndex = (if leafIndex < 0 then Some (nat (- leafIndex - 1)) else None)"

text \<open>One pass of planning that did not fit: the leg it pushes and the next working set.\<close>

definition merge_leg :: "selectable_note list \<Rightarrow> spend_leg" where
  "merge_leg working =
     (let fold = take TRANSFER10_ARITY working in MergeLeg (map pickNote fold) (totalValue fold))"

definition next_working :: "nat \<Rightarrow> selectable_note list \<Rightarrow> selectable_note list" where
  "next_working legIndex working =
     unspentLargestFirst
       (\<lparr>note_value = totalValue (take TRANSFER10_ARITY working), note_salt = '''',
         note_leaf = pendingLeaf legIndex, note_spent = False\<rparr> # drop TRANSFER10_ARITY working)"

lemma length_next_working: "2 \<le> length ws \<Longrightarrow> length (next_working i ws) < length ws"
proof -
  have "length (next_working i ws) \<le> Suc (length (drop 10 ws))"
    by (auto simp: next_working_def unspentLargestFirst_def TRANSFER10_ARITY_def
        intro: le_trans [OF length_filter_le])
  then show "2 \<le> length ws \<Longrightarrow> length (next_working i ws) < length ws" by simp
qed

text \<open>The covering fold takes a shortest covering prefix, so a pass that needs a merge has two notes.\<close>

lemma cover_step_done: "amt \<le> s \<Longrightarrow> fold (cover_step amt) ns (ch, s) = (ch, s)"
proof (induction ns)
  case (Cons n ns)
  then have "cover_step amt n (ch, s) = (ch, s)" by (simp add: cover_step_def)
  with Cons show ?case by simp
qed simp

lemma cover_fold:
  "\<exists>k\<le>length ns. fold (cover_step amt) ns (ch, s) =
      (ch @ map pickNote (take k ns), s + sum_list (map note_value (take k ns))) \<and>
    (\<forall>j<k. s + sum_list (map note_value (take j ns)) < amt) \<and>
    (k < length ns \<longrightarrow> amt \<le> s + sum_list (map note_value (take k ns)))"
proof (induction ns arbitrary: ch s)
  case (Cons n ns)
  show ?case
  proof (cases "amt \<le> s")
    case True
    then show ?thesis unfolding cover_step_done [OF True] by (intro exI [of _ 0]) simp
  next
    case False
    from Cons.IH [of "ch @ [pickNote n]" "s + note_value n"] obtain k where k: "k \<le> length ns"
      "fold (cover_step amt) ns (ch @ [pickNote n], s + note_value n) =
        (ch @ [pickNote n] @ map pickNote (take k ns), s + note_value n + sum_list (map note_value (take k ns)))"
      "\<forall>j<k. s + note_value n + sum_list (map note_value (take j ns)) < amt"
      "k < length ns \<longrightarrow> amt \<le> s + note_value n + sum_list (map note_value (take k ns))" by auto
    have "\<forall>j<Suc k. s + sum_list (map note_value (take j (n # ns))) < amt"
      using k(3) False by (auto simp: less_Suc_eq_0_disj algebra_simps)
    moreover have "cover_step amt n (ch, s) = (ch @ [pickNote n], s + note_value n)"
      using False by (simp add: cover_step_def)
    ultimately show ?thesis using k by (intro exI [of _ "Suc k"]) (auto simp: algebra_simps)
  qed
qed simp

lemma needs_merge_more:
  assumes "selectInputNotes ws amount k = Inl NeedsMerge"
  shows "k < length ws"
proof -
  let ?u = "unspentLargestFirst ws"
  obtain amt where amt: "js_BigInt amount = Some amt" "0 < amt" "?u \<noteq> []"
    "\<not> (snd (fold (cover_step amt) ?u ([], 0)) \<ge> amt \<and> length (fst (fold (cover_step amt) ?u ([], 0))) \<le> k)"
    "amt \<le> sum_list (map note_value ?u)"
    using assms(1) by (auto simp: selectInputNotes_def Let_def split: option.splits if_splits prod.splits)
  from cover_fold [of ?u amt "[]" 0] obtain j where j: "j \<le> length ?u"
    "fold (cover_step amt) ?u ([], 0) = (map pickNote (take j ?u), sum_list (map note_value (take j ?u)))"
    "j < length ?u \<longrightarrow> amt \<le> sum_list (map note_value (take j ?u))" by auto
  then have "amt \<le> sum_list (map note_value (take j ?u))" using amt(5) by (cases "j < length ?u") auto
  with j amt(4) have "k < length ?u" by auto
  moreover have "length ?u \<le> length ws" by (simp add: unspentLargestFirst_def)
  ultimately show ?thesis by simp
qed

lemma terminalArity_ge: "2 \<le> terminalArity kind"
  by (simp add: terminalArity_def TRANSFER10_ARITY_def)

function plan_chain ::
  "spend_kind \<Rightarrow> string \<Rightarrow> spend_leg list \<Rightarrow> selectable_note list \<Rightarrow> spend_error + spend_leg list" where
  "plan_chain kind amount legs working =
     (case selectInputNotes working amount (terminalArity kind) of
        Inr inputs \<Rightarrow> Inr (legs @ [TerminalLeg (terminal_circuit kind inputs) inputs])
      | Inl NeedsMerge \<Rightarrow>
          plan_chain kind amount (legs @ [merge_leg working]) (next_working (length legs) working)
      | Inl e \<Rightarrow> Inl e)"
  by pat_completeness auto
termination
  by (relation "measure (\<lambda>(kind, amount, legs, working). length working)")
    (auto intro!: length_next_working dest!: needs_merge_more
      simp: terminalArity_def TRANSFER10_ARITY_def split: if_splits)

declare plan_chain.simps [simp del]

definition planSpendChain :: "spend_kind \<Rightarrow> selectable_note list \<Rightarrow> string \<Rightarrow> spend_error + spend_leg list" where
  "planSpendChain kind notes amount = plan_chain kind amount [] (unspentLargestFirst notes)"

function plan_disburse ::
  "string \<Rightarrow> spend_leg list \<Rightarrow> selectable_note list \<Rightarrow> spend_error + (spend_leg list \<times> input_note)" where
  "plan_disburse amount merges working =
     (case selectInputNotes working amount 1 of
        Inr inputs \<Rightarrow> Inr (merges, hd inputs)
      | Inl NeedsMerge \<Rightarrow>
          plan_disburse amount (merges @ [merge_leg working]) (next_working (length merges) working)
      | Inl e \<Rightarrow> Inl e)"
  by pat_completeness auto
termination
  by (relation "measure (\<lambda>(amount, merges, working). length working)")
    (auto intro!: length_next_working dest!: needs_merge_more)

declare plan_disburse.simps [simp del]

definition planDisburseChain ::
  "selectable_note list \<Rightarrow> string \<Rightarrow> spend_error + (spend_leg list \<times> input_note)" where
  "planDisburseChain notes amount = plan_disburse amount [] (unspentLargestFirst notes)"

subsection \<open>The form preview\<close>

record spend_preview =
  pv_circuit :: spend_circuit
  pv_blocker :: "spend_error option"
  pv_legCount :: nat
  pv_pieces :: nat

definition previewSpend :: "spend_kind \<Rightarrow> selectable_note list \<Rightarrow> string \<Rightarrow> spend_preview" where
  "previewSpend kind notes amount =
     (let pieces = length (unspentLargestFirst notes);
          fallback = (if kind = Withdraw then CWithdraw else CTransfer)
      in case planSpendChain kind notes amount of
           Inr legs \<Rightarrow> \<lparr>pv_circuit = legCircuit (hd legs), pv_blocker = None, pv_legCount = length legs, pv_pieces = pieces\<rparr>
         | Inl e \<Rightarrow> \<lparr>pv_circuit = fallback, pv_blocker = (if e = BadAmount then None else Some e),
               pv_legCount = 1, pv_pieces = pieces\<rparr>)"

end
