(* ===== verification/Spend_Correct.thy ===== *)
theory Spend_Correct
  imports Spend_Plan
begin

text \<open>
  Correctness of note selection and of chain planning: the selection is a smallest cover, a plan
  can be run leg by leg on what the wallet holds and ends with a transaction that covers the amount,
  planning fails only when the balance is short, and the number of merges is bounded.
\<close>

subsection \<open>Largest first is an optimal order\<close>

abbreviation total_of :: "selectable_note multiset \<Rightarrow> int" where
  "total_of S \<equiv> sum_mset (image_mset note_value S)"

definition spendable :: "selectable_note list \<Rightarrow> selectable_note multiset" where
  "spendable wallet = mset (filter (\<lambda>n. \<not> note_spent n) wallet)"

lemma mset_unspentLargestFirst: "mset (unspentLargestFirst wallet) = spendable wallet"
  by (simp add: unspentLargestFirst_def spendable_def)

lemma total_spendable: "sum_list (map note_value (unspentLargestFirst wallet)) = total_of (spendable wallet)"
  by (metis mset_map mset_unspentLargestFirst sum_mset_sum_list)

lemma sumUnspent_total: "sumUnspent wallet = total_of (spendable wallet)"
proof -
  have "fold (\<lambda>n total. if note_spent n then total else total + note_value n) wallet a =
      a + total_of (spendable wallet)" for a
    by (induction wallet arbitrary: a) (auto simp: spendable_def)
  from this [of 0] show ?thesis by (simp add: sumUnspent_def)
qed

definition descending :: "selectable_note list \<Rightarrow> bool" where
  "descending ns \<longleftrightarrow> sorted_wrt (\<lambda>a b. note_value b \<le> note_value a) ns"

lemma unspent_descending: "descending (unspentLargestFirst wallet)"
proof -
  have "sorted (map (\<lambda>n. (- note_value n, note_leaf n)) (unspentLargestFirst wallet))"
    by (simp add: unspentLargestFirst_def)
  then have "sorted_wrt (\<lambda>a b. (- note_value a, note_leaf a) \<le> (- note_value b, note_leaf b)) (unspentLargestFirst wallet)"
    by (simp add: sorted_wrt_map)
  then show ?thesis unfolding descending_def
    by (rule sorted_wrt_mono_rel [rotated]) (auto simp: less_eq_prod_def)
qed

lemma largest_cover:
  assumes "descending ns" and "S \<subseteq># mset ns"
  shows "total_of S \<le> sum_list (map note_value (take (size S) ns))"
  using assms
proof (induction ns arbitrary: S)
  case Nil
  then show ?case by simp
next
  case (Cons n ns)
  have d: "descending ns" and top: "\<forall>m\<in>set ns. note_value m \<le> note_value n"
    using Cons.prems(1) by (auto simp: descending_def)
  show ?case
  proof (cases "n \<in># S")
    case True
    then obtain T where T: "S = add_mset n T" by (meson mset_add)
    then have "T \<subseteq># mset ns" using Cons.prems(2) by simp
    from Cons.IH [OF d this] T show ?thesis by simp
  next
    case False
    then have S: "S \<subseteq># mset ns" using Cons.prems(2)
      by (metis add_mset_remove_trivial diff_subset_eq_self inter_add_right1 subset_mset.inf.absorb_iff1 mset.simps(2) subset_mset.inf.cobounded2)
    then have len: "size S \<le> length ns" using size_mset_mono [OF S] by simp
    show ?thesis
    proof (cases "size S")
      case 0
      then show ?thesis by simp
    next
      case (Suc k)
      then have "sum_list (map note_value (take (size S) ns)) = sum_list (map note_value (take k ns)) + note_value (ns ! k)"
        using len by (simp add: take_Suc_conv_app_nth)
      also have "\<dots> \<le> note_value n + sum_list (map note_value (take k ns))"
        using top Suc len by simp
      finally show ?thesis using Cons.IH [OF d S] Suc by simp
    qed
  qed
qed

subsection \<open>What selection answers\<close>

lemma select_cases:
  assumes "js_BigInt amount = Some amt" and "0 < amt"
  obtains k where "k \<le> length (unspentLargestFirst wallet)"
    and "\<forall>j<k. sum_list (map note_value (take j (unspentLargestFirst wallet))) < amt"
    and "k < length (unspentLargestFirst wallet) \<longrightarrow> amt \<le> sum_list (map note_value (take k (unspentLargestFirst wallet)))"
    and "selectInputNotes wallet amount m =
      (if unspentLargestFirst wallet = [] then Inl Insufficient
       else if amt \<le> sum_list (map note_value (take k (unspentLargestFirst wallet))) \<and> k \<le> m
       then Inr (map pickNote (take k (unspentLargestFirst wallet)))
       else if total_of (spendable wallet) < amt then Inl Insufficient else Inl NeedsMerge)"
proof -
  let ?u = "unspentLargestFirst wallet"
  from cover_fold [of ?u amt "[]" 0] obtain k where k: "k \<le> length ?u"
    "fold (cover_step amt) ?u ([], 0) = (map pickNote (take k ?u), sum_list (map note_value (take k ?u)))"
    "\<forall>j<k. sum_list (map note_value (take j ?u)) < amt"
    "k < length ?u \<longrightarrow> amt \<le> sum_list (map note_value (take k ?u))" by auto
  show thesis
    by (rule that [OF k(1,3,4)]) (use k(1,2) assms total_spendable [of wallet] in \<open>simp add: selectInputNotes_def Let_def\<close>)
qed

lemma select_error_amount:
  "selectInputNotes wallet amount m = Inl BadAmount \<longleftrightarrow>
    (case js_BigInt amount of None \<Rightarrow> True | Some amt \<Rightarrow> amt \<le> 0)"
  by (auto simp: selectInputNotes_def Let_def split: option.splits prod.splits)

lemma selection_cover_bound:
  assumes "js_BigInt amount = Some amt" "0 < amt" "S \<subseteq># spendable wallet" "amt \<le> total_of S"
  shows "(selectInputNotes wallet amount m = Inl NeedsMerge \<longrightarrow> m < size S) \<and>
    (\<forall>chosen. selectInputNotes wallet amount m = Inr chosen \<longrightarrow> length chosen \<le> size S)"
proof -
  let ?u = "unspentLargestFirst wallet"
  obtain k where k: "k \<le> length ?u" "\<forall>j<k. sum_list (map note_value (take j ?u)) < amt"
    "k < length ?u \<longrightarrow> amt \<le> sum_list (map note_value (take k ?u))"
    and sel: "selectInputNotes wallet amount m =
      (if ?u = [] then Inl Insufficient
       else if amt \<le> sum_list (map note_value (take k ?u)) \<and> k \<le> m then Inr (map pickNote (take k ?u))
       else if total_of (spendable wallet) < amt then Inl Insufficient else Inl NeedsMerge)"
    by (rule select_cases [OF assms(1,2)])
  have "k \<le> size S"
  proof (rule ccontr)
    assume "\<not> k \<le> size S"
    then have "sum_list (map note_value (take (size S) ?u)) < amt" using k(2) by simp
    moreover have "total_of S \<le> sum_list (map note_value (take (size S) ?u))"
      using largest_cover [OF unspent_descending, of S wallet] assms(3) by (simp add: mset_unspentLargestFirst)
    ultimately show False using assms(4) by simp
  qed
  moreover have "amt \<le> sum_list (map note_value (take k ?u))" if "amt \<le> total_of (spendable wallet)"
    using that k(1,3) total_spendable [of wallet] by (cases "k < length ?u") auto
  ultimately show ?thesis using sel k(1) by (auto split: if_splits)
qed

text \<open>
  C15: for a positive amount, selection returns a prefix of the unspent notes in descending order
  that covers the amount with at most the circuit's arity, and no choice of unspent notes that
  covers it has fewer; it answers \<open>insufficient\<close> only when the unspent total is short of the amount,
  and \<open>needs-merge\<close> only when every covering choice has more wallet than the circuit takes.
\<close>

theorem selection_is_smallest_cover:
  assumes "js_BigInt amount = Some amt" and "0 < amt" and "\<forall>n\<in>set wallet. 0 \<le> note_value n"
  shows "case selectInputNotes wallet amount maxArity of
      Inr chosen \<Rightarrow> length chosen \<le> maxArity \<and> amt \<le> sum_list (map in_value chosen) \<and>
        chosen = map pickNote (take (length chosen) (unspentLargestFirst wallet)) \<and>
        (\<forall>S. S \<subseteq># spendable wallet \<longrightarrow> amt \<le> total_of S \<longrightarrow> length chosen \<le> size S)
    | Inl Insufficient \<Rightarrow> sumUnspent wallet < amt
    | Inl NeedsMerge \<Rightarrow> amt \<le> sumUnspent wallet \<and>
        (\<forall>S. S \<subseteq># spendable wallet \<longrightarrow> amt \<le> total_of S \<longrightarrow> maxArity < size S)
    | Inl BadAmount \<Rightarrow> False"
proof -
  let ?u = "unspentLargestFirst wallet"
  obtain k where k: "k \<le> length ?u" "\<forall>j<k. sum_list (map note_value (take j ?u)) < amt"
    "k < length ?u \<longrightarrow> amt \<le> sum_list (map note_value (take k ?u))"
    and sel: "selectInputNotes wallet amount maxArity =
      (if ?u = [] then Inl Insufficient
       else if amt \<le> sum_list (map note_value (take k ?u)) \<and> k \<le> maxArity then Inr (map pickNote (take k ?u))
       else if total_of (spendable wallet) < amt then Inl Insufficient else Inl NeedsMerge)"
    by (rule select_cases [OF assms(1,2)])
  have pick: "in_value \<circ> pickNote = note_value" by (auto simp: pickNote_def)
  have full: "amt \<le> sum_list (map note_value (take k ?u))" if "amt \<le> total_of (spendable wallet)"
    using that k(1,3) total_spendable [of wallet] by (cases "k < length ?u") auto
  have "total_of (spendable wallet) < amt" if "?u = []"
    using that total_spendable [of wallet] assms(2) by simp
  then show ?thesis using sel full k(1) pick selection_cover_bound [OF assms(1,2), of _ wallet maxArity]
    by (auto simp: sumUnspent_total min_def split: if_splits)
qed

subsection \<open>Running a chain of legs\<close>

text \<open>
  What the chain is for: the wallet holds a multiset of notes, a merge leg replaces notes it holds by
  one note worth their sum, carrying the pending index of the leg, and the terminal leg spends notes
  it holds. A leg is rejected when it spends a note the wallet does not hold at that point, when it
  has more inputs than its circuit, or when a merge does not conserve value.
\<close>

definition circuit_arity :: "spend_circuit \<Rightarrow> nat" where
  "circuit_arity c = (if c = CTransfer10x2 then 10 else 2)"

definition holdings :: "selectable_note list \<Rightarrow> input_note multiset" where
  "holdings wallet = image_mset pickNote (spendable wallet)"

definition leg_step :: "nat \<Rightarrow> input_note multiset \<Rightarrow> spend_leg \<Rightarrow> input_note multiset option" where
  "leg_step i held l =
     (if mset (leg_inputs l) \<subseteq># held \<and> leg_inputs l \<noteq> [] \<and> length (leg_inputs l) \<le> circuit_arity (legCircuit l)
      then (case l of
          MergeLeg ins v \<Rightarrow>
            (if v = sum_list (map in_value ins)
             then Some (held - mset ins + {#\<lparr>in_value = v, in_salt = '''', in_leaf = pendingLeaf i\<rparr>#})
             else None)
        | TerminalLeg c ins \<Rightarrow> Some (held - mset ins))
      else None)"

fun run_legs :: "nat \<Rightarrow> input_note multiset \<Rightarrow> spend_leg list \<Rightarrow> input_note multiset option" where
  "run_legs i held [] = Some held"
| "run_legs i held (l # ls) =
     (case leg_step i held l of None \<Rightarrow> None | Some held' \<Rightarrow> run_legs (Suc i) held' ls)"

abbreviation ready :: "selectable_note list \<Rightarrow> bool" where
  "ready ws \<equiv> \<forall>n\<in>set ws. \<not> note_spent n"

lemma ready_unspent: "ready (unspentLargestFirst ws)"
  by (simp add: unspentLargestFirst_def)

lemma ready_next: "ready (next_working i ws)"
  by (simp add: next_working_def ready_unspent)

lemma spendable_ready: "ready ws \<Longrightarrow> spendable ws = mset ws"
  by (simp add: spendable_def)

lemma sum_pick: "sum_list (map in_value (map pickNote ws)) = sum_list (map note_value ws)"
  by (induction ws) (auto simp: pickNote_def)

lemma merge_leg_step:
  assumes "ready ws" and "ws \<noteq> []"
  shows "leg_step i (holdings ws) (merge_leg ws) = Some (holdings (next_working i ws))"
proof -
  let ?t = "take 10 ws" and ?d = "drop 10 ws"
  have ws: "mset ws = mset ?t + mset ?d" by (metis append_take_drop_id mset_append)
  have d: "ready ?d" using assms(1) by (auto dest: in_set_dropD)
  have "holdings (next_working i ws) =
      add_mset \<lparr>in_value = totalValue ?t, in_salt = '''', in_leaf = pendingLeaf i\<rparr> (image_mset pickNote (mset ?d))"
    using d by (simp add: holdings_def spendable_ready [OF ready_next])
      (simp add: next_working_def mset_unspentLargestFirst spendable_def pickNote_def TRANSFER10_ARITY_def)
  moreover have "holdings ws = image_mset pickNote (mset ?t) + image_mset pickNote (mset ?d)"
    using assms(1) by (simp add: holdings_def spendable_ready ws)
  ultimately show ?thesis
    using assms(2) sum_pick [of ?t]
    by (simp add: leg_step_def merge_leg_def Let_def TRANSFER10_ARITY_def circuit_arity_def totalValue_def)
qed

lemma total_next: "ready ws \<Longrightarrow> sumUnspent (next_working i ws) = sumUnspent ws"
proof -
  assume r: "ready ws"
  have ws: "mset ws = mset (take 10 ws) + mset (drop 10 ws)" by (metis append_take_drop_id mset_append)
  have d: "ready (drop 10 ws)" using r by (auto dest: in_set_dropD)
  have "mset (next_working i ws) =
      add_mset \<lparr>note_value = totalValue (take 10 ws), note_salt = '''', note_leaf = pendingLeaf i, note_spent = False\<rparr>
        (mset (drop 10 ws))"
    using d by (simp add: next_working_def mset_unspentLargestFirst spendable_def TRANSFER10_ARITY_def)
  then show ?thesis
    using r by (simp add: sumUnspent_total spendable_ready [OF ready_next] spendable_ready ws totalValue_def sum_mset_sum_list [symmetric])
qed

lemma length_next: "ready ws \<Longrightarrow> length (next_working i ws) = Suc (length ws - 10)"
proof -
  assume "ready ws"
  then have "ready (drop 10 ws)" by (auto dest: in_set_dropD)
  then show ?thesis by (simp add: next_working_def unspentLargestFirst_def TRANSFER10_ARITY_def)
qed

text \<open>How many merges bring a number of notes within an arity: each removes nine.\<close>

definition merge_bound :: "nat \<Rightarrow> nat \<Rightarrow> nat" where
  "merge_bound n arity = (n - arity + 8) div 9"

lemma merge_bound_step: "arity < n \<Longrightarrow> 0 < arity \<Longrightarrow> Suc (merge_bound (Suc (n - 10)) arity) \<le> merge_bound n arity"
  unfolding merge_bound_def by (cases "10 \<le> n"; cases "n - 9 \<le> arity") auto

definition is_merge :: "spend_leg \<Rightarrow> bool" where
  "is_merge l = (case l of MergeLeg ins v \<Rightarrow> 2 \<le> length ins \<and> length ins \<le> 10 | TerminalLeg c ins \<Rightarrow> False)"

lemma is_merge_leg: "2 \<le> length ws \<Longrightarrow> is_merge (merge_leg ws)"
  by (simp add: is_merge_def merge_leg_def Let_def TRANSFER10_ARITY_def)

lemma select_Inr:
  assumes "selectInputNotes ws amount m = Inr ins" and "js_BigInt amount = Some amt"
  shows "ins \<noteq> [] \<and> length ins \<le> m \<and> amt \<le> sum_list (map in_value ins) \<and> mset ins \<subseteq># holdings ws"
proof -
  have pos: "0 < amt" using assms by (auto simp: selectInputNotes_def Let_def split: if_splits prod.splits)
  let ?u = "unspentLargestFirst ws"
  obtain k where k: "k \<le> length ?u"
    and sel: "selectInputNotes ws amount m =
      (if ?u = [] then Inl Insufficient
       else if amt \<le> sum_list (map note_value (take k ?u)) \<and> k \<le> m then Inr (map pickNote (take k ?u))
       else if total_of (spendable ws) < amt then Inl Insufficient else Inl NeedsMerge)"
    by (rule select_cases [OF assms(2) pos])
  have "mset (take k ?u) \<subseteq># spendable ws"
    by (metis append_take_drop_id mset_append mset_subset_eq_add_left mset_unspentLargestFirst)
  then have sub: "mset (map pickNote (take k ?u)) \<subseteq># holdings ws"
    by (simp add: holdings_def image_mset_subseteq_mono)
  have "k \<noteq> 0" if "amt \<le> sum_list (map note_value (take k ?u))" using that pos by (cases k) auto
  with sel assms(1) sub k sum_pick [of "take k ?u"] show ?thesis by (auto split: if_splits)
qed

lemma select_Insufficient:
  assumes "js_BigInt amount = Some amt" and "0 < amt" and "\<forall>n\<in>set ws. 0 \<le> note_value n"
  shows "selectInputNotes ws amount m = Inl Insufficient \<longleftrightarrow> sumUnspent ws < amt"
proof -
  let ?u = "unspentLargestFirst ws"
  obtain k where k: "k \<le> length ?u"
    and sel: "selectInputNotes ws amount m =
      (if ?u = [] then Inl Insufficient
       else if amt \<le> sum_list (map note_value (take k ?u)) \<and> k \<le> m then Inr (map pickNote (take k ?u))
       else if total_of (spendable ws) < amt then Inl Insufficient else Inl NeedsMerge)"
    by (rule select_cases [OF assms(1,2)])
  have "set (drop k ?u) \<subseteq> set ws"
    using set_drop_subset [of k ?u] by (auto simp: unspentLargestFirst_def)
  then have "0 \<le> sum_list (map note_value (drop k ?u))" using assms(3) by (intro sum_list_nonneg) auto
  moreover have "sum_list (map note_value ?u) = sum_list (map note_value (take k ?u)) + sum_list (map note_value (drop k ?u))"
    by (metis append_take_drop_id map_append sum_list_append)
  ultimately have "sum_list (map note_value (take k ?u)) \<le> total_of (spendable ws)"
    using total_spendable [of ws] by simp
  moreover have "total_of (spendable ws) = 0" if "?u = []" using that total_spendable [of ws] by simp
  ultimately show ?thesis using sel assms(2) by (auto simp: sumUnspent_total)
qed

subsection \<open>Planning produces a chain that runs\<close>

definition nonneg_notes :: "selectable_note list \<Rightarrow> bool" where
  "nonneg_notes ws \<longleftrightarrow> (\<forall>n\<in>set ws. 0 \<le> note_value n)"

lemma nonneg_next: "nonneg_notes ws \<Longrightarrow> nonneg_notes (next_working i ws)"
proof -
  assume "nonneg_notes ws"
  then have t: "\<forall>n\<in>set (take 10 ws). 0 \<le> note_value n" and d: "\<forall>n\<in>set (drop 10 ws). 0 \<le> note_value n"
    by (auto simp: nonneg_notes_def dest: in_set_takeD in_set_dropD)
  from t have "0 \<le> totalValue (take 10 ws)" unfolding totalValue_def by (intro sum_list_nonneg) auto
  with d show ?thesis
    by (auto simp: nonneg_notes_def next_working_def unspentLargestFirst_def TRANSFER10_ARITY_def set_insort_key)
qed

lemma nonneg_unspent: "nonneg_notes ws \<Longrightarrow> nonneg_notes (unspentLargestFirst ws)"
  by (simp add: nonneg_notes_def unspentLargestFirst_def)

lemma unspent_simps [simp]:
  "holdings (unspentLargestFirst ws) = holdings ws" "sumUnspent (unspentLargestFirst ws) = sumUnspent ws"
  by (simp_all add: holdings_def sumUnspent_total spendable_ready [OF ready_unspent] mset_unspentLargestFirst)

lemma terminal_arity_circuit: "length ins \<le> terminalArity kind \<Longrightarrow> length ins \<le> circuit_arity (terminal_circuit kind ins)"
  by (auto simp: terminalArity_def TRANSFER10_ARITY_def terminal_circuit_def circuit_arity_def split: if_splits)

lemma plan_chain_runs:
  assumes "js_BigInt amount = Some amt" "0 < amt" "ready ws" "nonneg_notes ws" "amt \<le> sumUnspent ws"
  shows "\<exists>merges ins held. plan_chain kind amount legs ws = Inr (legs @ merges @ [TerminalLeg (terminal_circuit kind ins) ins]) \<and>
    run_legs (length legs) (holdings ws) (merges @ [TerminalLeg (terminal_circuit kind ins) ins]) = Some held \<and>
    list_all is_merge merges \<and> length merges \<le> merge_bound (length ws) (terminalArity kind) \<and>
    length ins \<le> terminalArity kind \<and> amt \<le> sum_list (map in_value ins)"
  using assms
proof (induction kind amount legs ws rule: plan_chain.induct)
  case (1 kind amount legs ws)
  let ?sel = "selectInputNotes ws amount (terminalArity kind)"
  have not_short: "?sel \<noteq> Inl Insufficient"
    using select_Insufficient [of amount amt ws] 1(2,3,5,6) by (simp add: nonneg_notes_def)
  have not_bad: "?sel \<noteq> Inl BadAmount" using 1(2,3) by (simp add: select_error_amount)
  show ?case
  proof (cases ?sel)
    case (Inr ins)
    from select_Inr [OF Inr 1(2)] Inr show ?thesis
      using terminal_arity_circuit [of ins kind]
      by (intro exI [of _ "[]"] exI [of _ ins])
        (simp add: plan_chain.simps [of kind amount legs ws] leg_step_def merge_bound_def)
  next
    case (Inl e)
    then have nm: "?sel = Inl NeedsMerge" using not_short not_bad by (cases e) auto
    then have more: "terminalArity kind < length ws" by (rule needs_merge_more)
    with terminalArity_ge [of kind] have two: "2 \<le> length ws" "ws \<noteq> []" by auto
    let ?ws = "next_working (length legs) ws" and ?legs = "legs @ [merge_leg ws]"
    obtain merges ins held where IH:
      "plan_chain kind amount ?legs ?ws = Inr (?legs @ merges @ [TerminalLeg (terminal_circuit kind ins) ins])"
      "run_legs (length ?legs) (holdings ?ws) (merges @ [TerminalLeg (terminal_circuit kind ins) ins]) = Some held"
      "list_all is_merge merges" "length merges \<le> merge_bound (length ?ws) (terminalArity kind)"
      "length ins \<le> terminalArity kind" "amt \<le> sum_list (map in_value ins)"
      using 1(1) [OF nm refl 1(2,3) ready_next nonneg_next [OF 1(5)]] 1(6) total_next [OF 1(4)] by auto
    have "Suc (length merges) \<le> merge_bound (length ws) (terminalArity kind)"
      using IH(4) merge_bound_step [OF more] terminalArity_ge [of kind] length_next [OF 1(4), of "length legs"] by simp
    with IH nm two merge_leg_step [OF 1(4) two(2), of "length legs"] show ?thesis
      by (intro exI [of _ "merge_leg ws # merges"] exI [of _ ins] exI [of _ held])
        (simp add: plan_chain.simps [of kind amount legs ws] is_merge_leg)
  qed
qed

lemma plan_chain_error:
  assumes "nonneg_notes ws" "ready ws"
  shows "plan_chain kind amount legs ws = Inl e \<longleftrightarrow>
    (case js_BigInt amount of None \<Rightarrow> e = BadAmount
     | Some amt \<Rightarrow> (amt \<le> 0 \<and> e = BadAmount) \<or> (0 < amt \<and> sumUnspent ws < amt \<and> e = Insufficient))"
proof (cases "js_BigInt amount")
  case None
  then have "selectInputNotes ws amount (terminalArity kind) = Inl BadAmount" by (simp add: select_error_amount)
  then show ?thesis using None by (auto simp: plan_chain.simps [of kind amount legs ws])
next
  case (Some amt)
  show ?thesis
  proof (cases "0 < amt")
    case False
    then have "selectInputNotes ws amount (terminalArity kind) = Inl BadAmount" using Some by (simp add: select_error_amount)
    then show ?thesis using Some False by (auto simp: plan_chain.simps [of kind amount legs ws])
  next
    case True
    show ?thesis
    proof (cases "amt \<le> sumUnspent ws")
      case True
      then show ?thesis using plan_chain_runs [OF Some \<open>0 < amt\<close> assms(2,1), of kind legs] Some \<open>0 < amt\<close> by auto
    next
      case False
      then have "selectInputNotes ws amount (terminalArity kind) = Inl Insufficient"
        using select_Insufficient [OF Some \<open>0 < amt\<close>, of ws] assms(1) by (simp add: nonneg_notes_def)
      then show ?thesis using Some \<open>0 < amt\<close> False by (auto simp: plan_chain.simps [of kind amount legs ws])
    qed
  qed
qed

lemma plan_disburse_runs:
  assumes "js_BigInt amount = Some amt" "0 < amt" "ready ws" "nonneg_notes ws" "amt \<le> sumUnspent ws"
  shows "\<exists>merges funding held. plan_disburse amount legs ws = Inr (legs @ merges, funding) \<and>
    run_legs (length legs) (holdings ws) merges = Some held \<and> funding \<in># held \<and> amt \<le> in_value funding \<and>
    list_all is_merge merges \<and> length merges \<le> merge_bound (length ws) 1"
  using assms
proof (induction amount legs ws rule: plan_disburse.induct)
  case (1 amount legs ws)
  let ?sel = "selectInputNotes ws amount 1"
  have not_short: "?sel \<noteq> Inl Insufficient"
    using select_Insufficient [of amount amt ws] 1(2,3,5,6) by (simp add: nonneg_notes_def)
  have not_bad: "?sel \<noteq> Inl BadAmount" using 1(2,3) by (simp add: select_error_amount)
  show ?case
  proof (cases ?sel)
    case (Inr ins)
    from select_Inr [OF Inr 1(2)] obtain f where f: "ins = [f]" by (cases ins) auto
    with select_Inr [OF Inr 1(2)] Inr show ?thesis
      by (intro exI [of _ "[]"] exI [of _ f]) (simp add: plan_disburse.simps [of amount legs ws])
  next
    case (Inl e)
    then have nm: "?sel = Inl NeedsMerge" using not_short not_bad by (cases e) auto
    then have more: "1 < length ws" by (rule needs_merge_more)
    then have two: "2 \<le> length ws" "ws \<noteq> []" by auto
    let ?ws = "next_working (length legs) ws" and ?legs = "legs @ [merge_leg ws]"
    obtain merges funding held where IH:
      "plan_disburse amount ?legs ?ws = Inr (?legs @ merges, funding)"
      "run_legs (length ?legs) (holdings ?ws) merges = Some held" "funding \<in># held" "amt \<le> in_value funding"
      "list_all is_merge merges" "length merges \<le> merge_bound (length ?ws) 1"
      using 1(1) [OF nm refl 1(2,3) ready_next nonneg_next [OF 1(5)]] 1(6) total_next [OF 1(4)] by auto
    have "Suc (length merges) \<le> merge_bound (length ws) 1"
      using IH(6) merge_bound_step [OF more] length_next [OF 1(4), of "length legs"] by simp
    with IH nm two merge_leg_step [OF 1(4) two(2), of "length legs"] show ?thesis
      by (intro exI [of _ "merge_leg ws # merges"] exI [of _ funding] exI [of _ held])
        (simp add: plan_disburse.simps [of amount legs ws] is_merge_leg)
  qed
qed

text \<open>A pending input names the merge that makes it: the one the wallet ran earlier.\<close>

definition made_by :: "spend_leg list \<Rightarrow> nat \<Rightarrow> input_note \<Rightarrow> bool" where
  "made_by legs i n \<longleftrightarrow> (\<exists>j<i. pendingLegOf (in_leaf n) = Some j \<and> (\<exists>ins. legs ! j = MergeLeg ins (in_value n)))"

lemma pendingLegOf_pendingLeaf [simp]: "pendingLegOf (pendingLeaf i) = Some i"
  by (simp add: pendingLegOf_def pendingLeaf_def)

lemma run_legs_pending:
  assumes "run_legs i held (drop i legs) = Some held'" and "i \<le> length legs"
    and "\<forall>n. n \<in># held \<longrightarrow> in_leaf n < 0 \<longrightarrow> made_by legs i n"
    and "i \<le> k" "k < length legs" "n \<in> set (leg_inputs (legs ! k))" "in_leaf n < 0"
  shows "made_by legs k n"
  using assms
proof (induction "length legs - i" arbitrary: i held)
  case 0
  then show ?case by simp
next
  case (Suc d)
  then have i: "i < length legs" by simp
  then obtain held1 where step: "leg_step i held (legs ! i) = Some held1"
    and run: "run_legs (Suc i) held1 (drop (Suc i) legs) = Some held'"
    using Suc.prems(1) by (auto simp: Cons_nth_drop_Suc [symmetric] split: option.splits)
  have sub: "mset (leg_inputs (legs ! i)) \<subseteq># held" using step by (auto simp: leg_step_def split: if_splits)
  have mono: "made_by legs (Suc i) m" if "made_by legs i m" for m using that by (auto simp: made_by_def less_Suc_eq)
  have "made_by legs (Suc i) m" if "m \<in># held1" "in_leaf m < 0" for m
  proof -
    have "m \<in># held \<or> (\<exists>ins. legs ! i = MergeLeg ins (in_value m) \<and> in_leaf m = pendingLeaf i)"
      using step that(1) by (auto simp: leg_step_def split: if_splits spend_leg.splits dest: in_diffD)
    then show ?thesis using Suc.prems(3) that(2) mono by (auto simp: made_by_def)
  qed
  then have IH: "made_by legs k n" if "Suc i \<le> k"
    using Suc.hyps(1) [OF _ run] Suc.hyps(2) Suc.prems(5-7) i that by auto
  show ?case
  proof (cases "k = i")
    case True
    then have "n \<in># held" using Suc.prems(6) sub by (metis mset_subset_eqD set_mset_mset)
    then show ?thesis using Suc.prems(3,7) True by simp
  next
    case False
    with IH Suc.prems(4) show ?thesis by simp
  qed
qed

subsection \<open>Properties\<close>

definition demo_wallet :: "selectable_note list" where
  "demo_wallet = map (\<lambda>i. \<lparr>note_value = 5 + int i, note_salt = ''7'', note_leaf = int i, note_spent = (i = 3)\<rparr>) [0..<14]"

lemma demo_wallet_nonneg: "(\<forall>n\<in>set demo_wallet. 0 \<le> note_value n) \<and> (\<forall>n\<in>set demo_wallet. 0 \<le> note_leaf n)"
  by (simp add: demo_wallet_def)

theorem selection_is_smallest_cover_witness:
  "case selectInputNotes demo_wallet ''40'' 2 of
      Inr chosen \<Rightarrow> length chosen \<le> 2 \<and> 40 \<le> sum_list (map in_value chosen) \<and>
        chosen = map pickNote (take (length chosen) (unspentLargestFirst demo_wallet)) \<and>
        (\<forall>S. S \<subseteq># spendable demo_wallet \<longrightarrow> 40 \<le> total_of S \<longrightarrow> length chosen \<le> size S)
    | Inl Insufficient \<Rightarrow> sumUnspent demo_wallet < 40
    | Inl NeedsMerge \<Rightarrow> 40 \<le> sumUnspent demo_wallet \<and>
        (\<forall>S. S \<subseteq># spendable demo_wallet \<longrightarrow> 40 \<le> total_of S \<longrightarrow> 2 < size S)
    | Inl BadAmount \<Rightarrow> False"
proof (rule selection_is_smallest_cover)
  show "js_BigInt ''40'' = Some 40" by code_simp
  show "\<forall>n\<in>set demo_wallet. 0 \<le> note_value n" using demo_wallet_nonneg by simp
qed simp

text \<open>
  C13: a planned chain can be run on what the wallet holds. Every merge spends two to ten notes the
  wallet holds at that point and conserves their value, the last leg spends notes it holds, within
  its circuit's arity, that cover the amount. Planning fails only on an amount that is not a positive
  integer, or with \<open>insufficient\<close> when the unspent total is short of it, and never with \<open>needs-merge\<close>.
\<close>

theorem spend_chain_runs:
  assumes "nonneg_notes wallet"
  shows "case planSpendChain kind wallet amount of
      Inr legs \<Rightarrow> \<exists>amt merges ins held. js_BigInt amount = Some amt \<and> 0 < amt \<and>
        legs = merges @ [TerminalLeg (terminal_circuit kind ins) ins] \<and> list_all is_merge merges \<and>
        length ins \<le> terminalArity kind \<and> amt \<le> sum_list (map in_value ins) \<and>
        run_legs 0 (holdings wallet) legs = Some held
    | Inl e \<Rightarrow> (case js_BigInt amount of None \<Rightarrow> e = BadAmount
        | Some amt \<Rightarrow> if amt \<le> 0 then e = BadAmount else e = Insufficient \<and> sumUnspent wallet < amt)"
proof -
  let ?u = "unspentLargestFirst wallet"
  note nn = nonneg_unspent [OF assms]
  show ?thesis
  proof (cases "planSpendChain kind wallet amount")
    case (Inl e)
    then show ?thesis using plan_chain_error [OF nn ready_unspent, of kind amount "[]" e]
      by (auto simp: planSpendChain_def split: option.splits)
  next
    case (Inr legs)
    have "\<nexists>e. plan_chain kind amount [] ?u = Inl e" using Inr by (simp add: planSpendChain_def)
    then obtain amt where amt: "js_BigInt amount = Some amt" "0 < amt" "amt \<le> sumUnspent ?u"
      using plan_chain_error [OF nn ready_unspent, of kind amount "[]" BadAmount]
      plan_chain_error [OF nn ready_unspent, of kind amount "[]" Insufficient]
      by (cases "js_BigInt amount") (auto simp: not_less not_le)
    from plan_chain_runs [OF amt(1,2) ready_unspent nn amt(3), of kind "[]"] Inr amt
    show ?thesis by (auto simp: planSpendChain_def)
  qed
qed

theorem spend_chain_runs_witness:
  "case planSpendChain Withdraw demo_wallet ''100'' of
      Inr legs \<Rightarrow> \<exists>amt merges ins held. js_BigInt ''100'' = Some amt \<and> 0 < amt \<and>
        legs = merges @ [TerminalLeg (terminal_circuit Withdraw ins) ins] \<and> list_all is_merge merges \<and>
        length ins \<le> terminalArity Withdraw \<and> amt \<le> sum_list (map in_value ins) \<and>
        run_legs 0 (holdings demo_wallet) legs = Some held
    | Inl e \<Rightarrow> (case js_BigInt ''100'' of None \<Rightarrow> e = BadAmount
        | Some amt \<Rightarrow> if amt \<le> 0 then e = BadAmount else e = Insufficient \<and> sumUnspent demo_wallet < amt)"
proof (rule spend_chain_runs)
  show "nonneg_notes demo_wallet" using demo_wallet_nonneg by (simp add: nonneg_notes_def)
qed



text \<open>
  A disburse plan runs the same way: after its merges the wallet holds one note that covers the
  payroll by itself, which the plan names; a wallet whose largest note covers the payroll plans no
  merge; planning fails only on a bad amount or a short balance.
\<close>

theorem disburse_chain_funds:
  assumes "nonneg_notes wallet"
  shows "case planDisburseChain wallet amount of
      Inr (merges, funding) \<Rightarrow> \<exists>amt held. js_BigInt amount = Some amt \<and> 0 < amt \<and> amt \<le> in_value funding \<and>
        list_all is_merge merges \<and> run_legs 0 (holdings wallet) merges = Some held \<and> funding \<in># held \<and>
        length merges \<le> (size (spendable wallet) + 7) div 9 \<and>
        ((\<exists>n\<in>#spendable wallet. amt \<le> note_value n) \<longrightarrow> merges = [])
    | Inl e \<Rightarrow> (case js_BigInt amount of None \<Rightarrow> e = BadAmount
        | Some amt \<Rightarrow> if amt \<le> 0 then e = BadAmount else e = Insufficient \<and> sumUnspent wallet < amt)"
proof -
  let ?u = "unspentLargestFirst wallet"
  note nn = nonneg_unspent [OF assms]
  have u: "length ?u = size (spendable wallet)" by (metis mset_unspentLargestFirst size_mset)
  have plan: "planDisburseChain wallet amount = (case selectInputNotes ?u amount 1 of
        Inr inputs \<Rightarrow> Inr ([], hd inputs)
      | Inl NeedsMerge \<Rightarrow> plan_disburse amount [merge_leg ?u] (next_working 0 ?u)
      | Inl e \<Rightarrow> Inl e)"
    unfolding planDisburseChain_def by (subst plan_disburse.simps) (simp split: sum.split spend_error.split)
  show ?thesis
  proof (cases "\<exists>amt. js_BigInt amount = Some amt \<and> 0 < amt")
    case False
    then have "selectInputNotes ?u amount 1 = Inl BadAmount"
      by (subst select_error_amount) (auto split: option.splits)
    with False show ?thesis by (auto simp: plan split: option.splits)
  next
    case True
    then obtain amt where amt: "js_BigInt amount = Some amt" "0 < amt" by blast
    show ?thesis
    proof (cases "amt \<le> sumUnspent ?u")
      case False
      then have "selectInputNotes ?u amount 1 = Inl Insufficient"
        using select_Insufficient [OF amt, of ?u] nn by (simp add: nonneg_notes_def)
      with False amt show ?thesis by (simp add: plan)
    next
      case True
      then obtain merges funding held where run: "plan_disburse amount [] ?u = Inr (merges, funding)"
        "run_legs 0 (holdings wallet) merges = Some held" "funding \<in># held" "amt \<le> in_value funding"
        "list_all is_merge merges" "length merges \<le> merge_bound (length ?u) 1"
        using plan_disburse_runs [OF amt ready_unspent nn True, of "[]"] by auto
      have "merges = []" if n: "n \<in># spendable wallet" "amt \<le> note_value n" for n
      proof -
        have "n \<in># spendable ?u" using n(1) by (simp add: spendable_ready [OF ready_unspent] mset_unspentLargestFirst)
        then have "{#n#} \<subseteq># spendable ?u" by simp
        then have "selectInputNotes ?u amount 1 \<noteq> Inl NeedsMerge"
          using selection_cover_bound [OF amt, of "{#n#}" ?u 1] n(2) by auto
        moreover have "selectInputNotes ?u amount 1 \<noteq> Inl Insufficient"
          using select_Insufficient [OF amt, of ?u] nn True by (simp add: nonneg_notes_def)
        moreover have "selectInputNotes ?u amount 1 \<noteq> Inl BadAmount" using amt by (simp add: select_error_amount)
        ultimately obtain ins where "selectInputNotes ?u amount 1 = Inr ins"
          by (cases "selectInputNotes ?u amount 1") (auto, metis spend_error.exhaust)
        then show ?thesis using run(1) plan by (simp add: planDisburseChain_def)
      qed
      with run amt u show ?thesis by (auto simp: planDisburseChain_def merge_bound_def)
    qed
  qed
qed

theorem disburse_chain_funds_witness:
  "case planDisburseChain demo_wallet ''140'' of
      Inr (merges, funding) \<Rightarrow> \<exists>amt held. js_BigInt ''140'' = Some amt \<and> 0 < amt \<and> amt \<le> in_value funding \<and>
        list_all is_merge merges \<and> run_legs 0 (holdings demo_wallet) merges = Some held \<and> funding \<in># held \<and>
        length merges \<le> (size (spendable demo_wallet) + 7) div 9 \<and>
        ((\<exists>n\<in>#spendable demo_wallet. amt \<le> note_value n) \<longrightarrow> merges = [])
    | Inl e \<Rightarrow> (case js_BigInt ''140'' of None \<Rightarrow> e = BadAmount
        | Some amt \<Rightarrow> if amt \<le> 0 then e = BadAmount else e = Insufficient \<and> sumUnspent demo_wallet < amt)"
proof (rule disburse_chain_funds)
  show "nonneg_notes demo_wallet" using demo_wallet_nonneg by (simp add: nonneg_notes_def)
qed



end
