(* ===== verification/Babyjub.thy ===== *)
theory Babyjub
  imports Prelude
begin

text \<open>
  \<open>packages/core/src/crypto/babyjub.ts\<close>: field arithmetic modulo the BN254 scalar prime and the
  scalar multiplication of BabyJubJub points, with the source's bit ladders. Points are pairs of
  integers. That the curve operations form a group is not proved here: the theorems below are about
  the ladders the code runs.
\<close>

type_synonym point = "int \<times> int"

definition FIELD_PRIME :: int where
  "FIELD_PRIME = 21888242871839275222246405745257275088548364400416034343698204186575808495617"

definition curve_A :: int where "curve_A = 168700"

definition curve_D :: int where "curve_D = 168696"

definition SUBGROUP_ORDER :: int where
  "SUBGROUP_ORDER = 2736030358979909402780800718157159386076813972158567259200215660948447373041"

definition Base8 :: point where
  "Base8 = (5299619240641551281634865583518297030282874472190772894086521144482721001553,
    16950150798460657717958625567821834550301663161624707787222815936182638968203)"

definition IDENTITY :: point where "IDENTITY = (0, 1)"

text \<open>JavaScript's remainder of big integers takes the sign of the dividend.\<close>

definition js_rem :: "int \<Rightarrow> int \<Rightarrow> int" where
  "js_rem x m = (if x < 0 then - (- x mod m) else x mod m)"

definition fmod :: "int \<Rightarrow> int" where
  "fmod x = (let r = js_rem x FIELD_PRIME in if r < 0 then r + FIELD_PRIME else r)"

text \<open>The binary digits of a natural number, most significant first, as \<open>toString(2)\<close> gives them.\<close>

fun bits_msb :: "nat \<Rightarrow> bool list" where
  "bits_msb n = (if n < 2 then [n = 1] else bits_msb (n div 2) @ [odd n])"

declare bits_msb.simps [simp del]

definition pow_step :: "int \<Rightarrow> bool \<Rightarrow> int \<Rightarrow> int" where
  "pow_step b d acc = (let sq = fmod (acc * acc) in if d then fmod (sq * b) else sq)"

definition modpow :: "int \<Rightarrow> int \<Rightarrow> int" where
  "modpow b e = (if e \<le> 0 then 1 else fold (pow_step (fmod b)) (bits_msb (nat e)) 1)"

definition inv_mod :: "int \<Rightarrow> int" where
  "inv_mod x = modpow (fmod x) (FIELD_PRIME - 2)"

fun addPoint :: "point \<Rightarrow> point \<Rightarrow> point" where
  "addPoint (x1, y1) (x2, y2) =
     (let x1x2 = fmod (x1 * x2); y1y2 = fmod (y1 * y2); dxy = fmod (fmod (curve_D * x1x2) * y1y2)
      in (fmod (fmod (fmod (x1 * y2) + fmod (y1 * x2)) * inv_mod (fmod (1 + dxy))),
          fmod (fmod (y1y2 - fmod (curve_A * x1x2)) * inv_mod (fmod (1 - dxy)))))"

definition ladder_step :: "bool \<Rightarrow> point \<times> point \<Rightarrow> point \<times> point" where
  "ladder_step d acc =
     (case acc of (result, base) \<Rightarrow> (if d then addPoint result base else result, addPoint base base))"

definition mulPointEscalar :: "point \<Rightarrow> int \<Rightarrow> point option" where
  "mulPointEscalar p e =
     (if e < 0 then None else Some (fst (fold ladder_step (rev (bits_msb (nat e))) (IDENTITY, p))))"

fun isOnCurve :: "point \<Rightarrow> bool" where
  "isOnCurve (x, y) =
     (let xx = fmod (x * x); yy = fmod (y * y);
          lhs = fmod (fmod (curve_A * xx) + yy); rhs = fmod (1 + fmod (fmod (curve_D * xx) * yy))
      in lhs = rhs)"

subsection \<open>Field arithmetic\<close>

lemma prime_pos [simp]: "0 < FIELD_PRIME" "FIELD_PRIME \<noteq> 0" "1 < FIELD_PRIME"
  by (simp_all add: FIELD_PRIME_def)

lemma fmod_mod: "fmod x = x mod FIELD_PRIME"
proof (cases "x < 0")
  case True
  show ?thesis
  proof (cases "- x mod FIELD_PRIME = 0")
    case True
    then have "x mod FIELD_PRIME = 0" by (metis add.inverse_inverse mod_minus_eq minus_zero mod_0)
    then show ?thesis using True \<open>x < 0\<close> by (simp add: fmod_def js_rem_def)
  next
    case False
    then have "0 < - x mod FIELD_PRIME" using pos_mod_sign [of FIELD_PRIME "- x"] prime_pos(1) by linarith
    moreover have "x mod FIELD_PRIME = FIELD_PRIME - - x mod FIELD_PRIME"
      using zmod_zminus1_eq_if [of "- x" FIELD_PRIME] False by simp
    ultimately show ?thesis using \<open>x < 0\<close> by (simp add: fmod_def js_rem_def)
  qed
qed (simp add: fmod_def js_rem_def not_less Let_def)

lemma fmod_range: "0 \<le> fmod x" "fmod x < FIELD_PRIME"
  by (simp_all add: fmod_mod)

text \<open>The exponent a run of bits denotes.\<close>

definition bits_value :: "bool list \<Rightarrow> nat" where
  "bits_value bs = fold (\<lambda>b n. 2 * n + (if b then 1 else 0)) bs 0"

lemma bits_value_msb: "bits_value (bits_msb n) = n"
proof (induction n rule: bits_msb.induct)
  case (1 n)
  show ?case
  proof (cases "n < 2")
    case True
    then show ?thesis by (subst bits_msb.simps) (auto simp: bits_value_def)
  next
    case False
    then show ?thesis using 1 by (subst bits_msb.simps) (auto simp: bits_value_def)
  qed
qed

lemma pow_step_power:
  "pow_step b d (b ^ n mod FIELD_PRIME) = b ^ (2 * n + (if d then 1 else 0)) mod FIELD_PRIME"
proof -
  have sq: "fmod ((b ^ n mod FIELD_PRIME) * (b ^ n mod FIELD_PRIME)) = b ^ (2 * n) mod FIELD_PRIME"
    by (simp only: fmod_mod mod_mult_eq mult_2 power_add)
  show ?thesis unfolding pow_step_def sq by (simp add: fmod_mod mod_mult_right_eq mult.commute)
qed

lemma modpow_bits:
  "fold (pow_step b) bs (b ^ n mod FIELD_PRIME) =
    b ^ fold (\<lambda>b n. 2 * n + (if b then 1 else 0)) bs n mod FIELD_PRIME"
  by (induction bs arbitrary: n) (simp_all only: fold_simps pow_step_power)

lemma modpow_power:
  assumes "0 \<le> e"
  shows "modpow b e = b ^ nat e mod FIELD_PRIME"
proof (cases "e = 0")
  case False
  have "modpow b e = fold (pow_step (fmod b)) (bits_msb (nat e)) (fmod b ^ 0 mod FIELD_PRIME)"
    using assms False by (simp add: modpow_def)
  also have "\<dots> = fmod b ^ nat e mod FIELD_PRIME"
    unfolding modpow_bits bits_value_def [symmetric] bits_value_msb ..
  also have "\<dots> = b ^ nat e mod FIELD_PRIME" by (simp add: fmod_mod power_mod)
  finally show ?thesis .
qed (simp add: modpow_def)

lemma mulPointEscalar_defined: "0 \<le> e \<Longrightarrow> \<exists>q. mulPointEscalar p e = Some q"
  by (simp add: mulPointEscalar_def)

end
