(* ===== verification/Note_Crypto.thy ===== *)
theory Note_Crypto
  imports Babyjub "HOL-Library.Word" Js_Number
begin

text \<open>
  \<open>packages/core/src/notes/note.ts\<close> and \<open>crypto/kem.ts\<close>: note commitments and nullifiers, the Poseidon
  sponge that encrypts note data, and the ML-KEM key material of the hybrid envelope key.

  The Poseidon hash of \<open>poseidon-lite\<close> is the argument \<open>hN\<close> (on a list of field elements) and its
  full permutation is the argument \<open>perm\<close> (on four elements); bytes are 8-bit words.
\<close>

type_synonym hashN = "int list \<Rightarrow> int"
type_synonym perm4 = "int \<times> int \<times> int \<times> int \<Rightarrow> int \<times> int \<times> int \<times> int"

subsection \<open>Keys, commitments and nullifiers\<close>

record keypair =
  formattedPrivateKey :: int
  publicKey :: point

definition deriveKeypair :: "int \<Rightarrow> keypair option" where
  "deriveKeypair sk =
     (if sk \<le> 0 \<or> sk \<ge> FIELD_PRIME then None
      else map_option (\<lambda>pk. \<lparr>formattedPrivateKey = sk, publicKey = pk\<rparr>) (mulPointEscalar Base8 sk))"

definition commitment :: "hashN \<Rightarrow> int \<Rightarrow> int \<Rightarrow> point \<Rightarrow> int" where
  "commitment hN value salt pk = hN [value, salt, fst pk, snd pk]"

definition nullifier :: "hashN \<Rightarrow> int \<Rightarrow> int \<Rightarrow> int \<Rightarrow> int" where
  "nullifier hN value salt priv = hN [value, salt, priv]"

definition ecdhSharedSecret :: "int \<Rightarrow> point \<Rightarrow> point option" where
  "ecdhSharedSecret priv pub = mulPointEscalar pub priv"

subsection \<open>The sponge\<close>

definition addMod :: "int \<Rightarrow> int \<Rightarrow> int" where
  "addMod a b =
     (let an = js_rem (js_rem a FIELD_PRIME + FIELD_PRIME) FIELD_PRIME;
          bn = js_rem (js_rem b FIELD_PRIME + FIELD_PRIME) FIELD_PRIME
      in js_rem (an + bn) FIELD_PRIME)"

definition TWO128 :: int where "TWO128 = 2 ^ 128"

definition pad_need :: "nat \<Rightarrow> nat" where
  "pad_need n = (3 - n mod 3) mod 3"

lemma pad_need_step: "0 < n mod 3 \<Longrightarrow> pad_need n = Suc (pad_need (Suc n))"
proof -
  assume "0 < n mod 3"
  moreover have "n mod 3 < 3" by simp
  ultimately have "n mod 3 = 1 \<or> n mod 3 = 2" by linarith
  then show ?thesis by (auto simp: mod_Suc pad_need_def)
qed

lemma pad_need_less: "pad_need n < 3"
  by (simp add: pad_need_def)

lemma three_dvd_Suc [simp]: "3 dvd Suc (Suc (Suc n)) \<longleftrightarrow> 3 dvd n"
  by presburger

function pad3 :: "int list \<Rightarrow> int list" where
  "pad3 xs = (if length xs mod 3 > 0 then pad3 (xs @ [0]) else xs)"
  by pat_completeness auto
termination
  by (relation "measure (\<lambda>xs. pad_need (length xs))") (simp_all add: pad_need_step)

declare pad3.simps [simp del]

fun enc_blocks :: "perm4 \<Rightarrow> int \<times> int \<times> int \<times> int \<Rightarrow> int list \<Rightarrow> int list \<times> (int \<times> int \<times> int \<times> int)" where
  "enc_blocks perm st (a # b # c # ms) =
     (let (s0, s1, s2, s3) = perm st;
          t1 = addMod a s1; t2 = addMod b s2; t3 = addMod c s3;
          (cts, final) = enc_blocks perm (s0, t1, t2, t3) ms
      in (t1 # t2 # t3 # cts, final))"
| "enc_blocks perm st ms = ([], st)"

definition sponge_start :: "point \<Rightarrow> int \<Rightarrow> nat \<Rightarrow> int \<times> int \<times> int \<times> int" where
  "sponge_start key nonce len = (0, fst key, snd key, nonce + int len * TWO128)"

definition poseidonEncrypt :: "perm4 \<Rightarrow> int list \<Rightarrow> point \<Rightarrow> int \<Rightarrow> int list" where
  "poseidonEncrypt perm msg key nonce =
     (let (ciphertext, final) = enc_blocks perm (sponge_start key nonce (length msg)) (pad3 msg)
      in ciphertext @ [fst (snd (perm final))])"

fun dec_blocks :: "perm4 \<Rightarrow> int \<times> int \<times> int \<times> int \<Rightarrow> int list \<Rightarrow> int list" where
  "dec_blocks perm st (c1 # c2 # c3 # cs) =
     (let (s0, s1, s2, s3) = perm st
      in addMod c1 (- s1) # addMod c2 (- s2) # addMod c3 (- s3) # dec_blocks perm (s0, c1, c2, c3) cs)"
| "dec_blocks perm st cs = []"

definition poseidonDecrypt :: "perm4 \<Rightarrow> int list \<Rightarrow> point \<Rightarrow> int \<Rightarrow> nat \<Rightarrow> int list" where
  "poseidonDecrypt perm ciphertext key nonce len =
     take len (dec_blocks perm (sponge_start key nonce len) ciphertext)"

fun distinct_keys :: "point set \<Rightarrow> point list \<Rightarrow> bool" where
  "distinct_keys seen [] = True"
| "distinct_keys seen (pk # pks) = (if pk \<in> seen then False else distinct_keys (insert pk seen) pks)"

text \<open>The guard throws exactly when it answers \<open>False\<close> here.\<close>

definition assertDistinctOwnerPubkeys :: "point list \<Rightarrow> bool" where
  "assertDistinctOwnerPubkeys pks = distinct_keys {} pks"

subsection \<open>ML-KEM material\<close>

type_synonym bytes = "8 word list"

definition TAG_K0 :: int where
  "TAG_K0 = 10398998902367040515226727887904115149378422647845688990538198988921570667720"

definition TAG_K1 :: int where
  "TAG_K1 = 7025394518961265764175593663800963341053996587382265036146196548941915994055"

definition TAG_BIND :: int where
  "TAG_BIND = 5518019128667894418081277213291049553290157756968653594844689494754896839788"

definition kemPkFromSecret :: "bytes \<Rightarrow> bytes option" where
  "kemPkFromSecret secretKey = (if length secretKey \<noteq> 2400 then None else Some (take 1184 (drop 1152 secretKey)))"

definition hex_char :: "nat \<Rightarrow> char" where
  "hex_char d = (if d < 10 then char_of (48 + d) else char_of (87 + d))"

definition pair_byte :: "nat \<Rightarrow> nat \<Rightarrow> 8 word" where
  "pair_byte x y = word_of_nat (16 * x + y)"

fun hex_pairs :: "string \<Rightarrow> bytes option" where
  "hex_pairs [] = Some []"
| "hex_pairs [c] = None"
| "hex_pairs (c # d # cs) =
     (case (radix_digit c, radix_digit d, hex_pairs cs) of
        (Some x, Some y, Some bs) \<Rightarrow> Some (pair_byte x y # bs)
      | _ \<Rightarrow> None)"

definition strip_0x :: "string \<Rightarrow> string" where
  "strip_0x s = (if take 2 s \<in> {''0x'', ''0X''} then drop 2 s else s)"

definition kemHexToBytes :: "string \<Rightarrow> bytes option" where
  "kemHexToBytes s = hex_pairs (strip_0x s)"

definition byte_hex :: "8 word \<Rightarrow> string" where
  "byte_hex b = [hex_char (unat b div 16), hex_char (unat b mod 16)]"

definition kemBytesToHex :: "bytes \<Rightarrow> string" where
  "kemBytesToHex bs = ''0x'' @ concat (map byte_hex bs)"

text \<open>Little-endian: the last byte of the run is shifted in first.\<close>

definition le_value :: "bytes \<Rightarrow> int" where
  "le_value bs = foldr (\<lambda>b v. v * 256 + uint b) bs 0"

definition kemSsToLimbs :: "bytes \<Rightarrow> (int \<times> int) option" where
  "kemSsToLimbs ss =
     (if length ss \<noteq> 32 then None else Some (le_value (take 16 ss), le_value (take 16 (drop 16 ss))))"

definition hybridEnvelopeKey :: "hashN \<Rightarrow> point \<Rightarrow> int \<times> int \<Rightarrow> point" where
  "hybridEnvelopeKey hN shared kemSs =
     (let t = [fst shared, snd shared, fst kemSs, snd kemSs] in (hN (TAG_K0 # t), hN (TAG_K1 # t)))"

definition kemBindingOf :: "hashN \<Rightarrow> int \<times> int \<Rightarrow> int" where
  "kemBindingOf hN kemSs = hN [TAG_BIND, fst kemSs, snd kemSs]"

subsection \<open>Decryption inverts encryption\<close>

lemma js_rem_nonneg: "0 \<le> x \<Longrightarrow> js_rem x m = x mod m"
  by (simp add: js_rem_def)

lemma js_rem_shift: "0 < m \<Longrightarrow> js_rem (js_rem x m + m) m = x mod m"
proof -
  assume m: "0 < m"
  have "- m < js_rem x m \<and> js_rem x m mod m = x mod m"
  proof (cases "x < 0")
    case True
    have "- (- x mod m) mod m = x mod m" by (simp add: mod_minus_eq)
    then show ?thesis using True m by (simp add: js_rem_def)
  next
    case False
    have "0 \<le> x mod m" using m by simp
    then have "- m < x mod m" using m by linarith
    then show ?thesis using False m by (simp add: js_rem_def)
  qed
  then have "0 \<le> js_rem x m + m" "(js_rem x m + m) mod m = x mod m" by simp_all
  then show ?thesis by (simp add: js_rem_nonneg)
qed

lemma addMod_mod: "addMod a b = (a + b) mod FIELD_PRIME"
  by (simp add: addMod_def js_rem_shift js_rem_nonneg mod_add_eq)

lemma addMod_cancel: "0 \<le> m \<Longrightarrow> m < FIELD_PRIME \<Longrightarrow> addMod (addMod m s) (- s) = m"
  by (simp add: addMod_mod mod_diff_left_eq)

lemma pad3_form: "pad3 xs = xs @ replicate (pad_need (length xs)) 0"
proof (induction xs rule: pad3.induct)
  case (1 xs)
  show ?case
  proof (cases "length xs mod 3 > 0")
    case True
    then show ?thesis using 1 by (subst pad3.simps) (simp add: pad_need_step)
  next
    case False
    then show ?thesis by (subst pad3.simps) (simp add: pad_need_def)
  qed
qed

lemma pad3_dvd: "3 dvd length (pad3 xs)"
proof (induction xs rule: pad3.induct)
  case (1 xs)
  then show ?case by (subst pad3.simps) (auto simp: dvd_eq_mod_eq_0)
qed

lemma not_three_dvd: "\<not> (3::nat) dvd Suc (Suc 0)"
  by presburger

lemma short_decodes: "length rest < 3 \<Longrightarrow> dec_blocks perm st rest = []"
  by (cases rest; cases "tl rest"; cases "tl (tl rest)") auto

lemma dec_enc_blocks:
  assumes "3 dvd length ms" and "\<forall>m\<in>set ms. 0 \<le> m \<and> m < FIELD_PRIME" and "length rest < 3"
  shows "dec_blocks perm st (fst (enc_blocks perm st ms) @ rest) = ms \<and> length (fst (enc_blocks perm st ms)) = length ms"
  using assms
proof (induction perm st ms rule: enc_blocks.induct)
  case (1 perm st a b c ms)
  obtain s0 s1 s2 s3 where s: "perm st = (s0, s1, s2, s3)" by (metis prod.exhaust)
  let ?st = "(s0, addMod a s1, addMod b s2, addMod c s3)"
  have IH: "dec_blocks perm ?st (fst (enc_blocks perm ?st ms) @ rest) = ms \<and> length (fst (enc_blocks perm ?st ms)) = length ms"
    using 1(1) [OF s [symmetric] refl refl refl refl refl refl] 1(2-4) by auto
  obtain cts fin where "enc_blocks perm ?st ms = (cts, fin)" by (metis prod.exhaust)
  with IH s 1(3) show ?case by (simp add: Let_def addMod_cancel)
qed (auto simp: short_decodes not_three_dvd)

lemma sponge_roundtrip:
  assumes "\<forall>m\<in>set msg. 0 \<le> m \<and> m < FIELD_PRIME"
  shows "poseidonDecrypt perm (poseidonEncrypt perm msg key nonce) key nonce (length msg) = msg"
    and "length (poseidonEncrypt perm msg key nonce) = length msg + pad_need (length msg) + 1"
proof -
  have "\<forall>m\<in>set (pad3 msg). 0 \<le> m \<and> m < FIELD_PRIME" using assms by (auto simp: pad3_form)
  from dec_enc_blocks [OF pad3_dvd this] have D: "dec_blocks perm st (fst (enc_blocks perm st (pad3 msg)) @ [x]) = pad3 msg" for st x
    by simp
  show "poseidonDecrypt perm (poseidonEncrypt perm msg key nonce) key nonce (length msg) = msg"
    unfolding poseidonDecrypt_def poseidonEncrypt_def split_def Let_def D by (simp add: pad3_form)
  have "length (fst (enc_blocks perm st (pad3 msg))) = length (pad3 msg)" for st
    using dec_enc_blocks [OF pad3_dvd, of msg "[]"] \<open>\<forall>m\<in>set (pad3 msg). 0 \<le> m \<and> m < FIELD_PRIME\<close> by simp
  then show "length (poseidonEncrypt perm msg key nonce) = length msg + pad_need (length msg) + 1"
    unfolding poseidonEncrypt_def split_def Let_def by (simp add: pad3_form)
qed

subsection \<open>Encodings of the ML-KEM material\<close>

lemma radix_hex_char: "d < 16 \<Longrightarrow> radix_digit (hex_char d) = Some d"
  by (auto simp: radix_digit_def hex_char_def Let_def of_char_of)

lemma pair_byte_unat: "pair_byte (unat b div 16) (unat b mod 16) = b"
  unfolding pair_byte_def mult_div_mod_eq by simp

lemma hex_pairs_bytes: "hex_pairs (concat (map byte_hex bs)) = Some bs"
proof (induction bs)
  case (Cons b bs)
  have "unat b < 256" using unsigned_less [of b, where 'a = nat] by simp
  then have "unat b div 16 < 16" by simp
  then show ?case using Cons by (simp add: byte_hex_def radix_hex_char pair_byte_unat)
qed simp

lemma kem_hex_roundtrip: "kemHexToBytes (kemBytesToHex bs) = Some bs"
  by (simp add: kemHexToBytes_def kemBytesToHex_def strip_0x_def hex_pairs_bytes)

lemma le_value_bounds: "0 \<le> le_value bs \<and> le_value bs < 256 ^ length bs"
proof (induction bs)
  case (Cons b bs)
  have "uint b < 256" "0 \<le> uint b" using uint_lt2p [of b] by simp_all
  with Cons show ?case by (simp add: le_value_def)
qed (simp add: le_value_def)

lemma byte_split: "(a::int) * 256 + x = b * 256 + y \<Longrightarrow> 0 \<le> x \<Longrightarrow> x < 256 \<Longrightarrow> 0 \<le> y \<Longrightarrow> y < 256 \<Longrightarrow> a = b \<and> x = y"
proof -
  assume eq: "a * 256 + x = b * 256 + y" and r: "0 \<le> x" "x < 256" "0 \<le> y" "y < 256"
  have "(a * 256 + x) div 256 = a" "(b * 256 + y) div 256 = b" using r by simp_all
  with eq show ?thesis by simp
qed

lemma le_value_inject: "length xs = length ys \<Longrightarrow> le_value xs = le_value ys \<Longrightarrow> xs = ys"
proof (induction xs ys rule: list_induct2)
  case (Cons x xs y ys)
  have "uint x < 256" "0 \<le> uint x" "uint y < 256" "0 \<le> uint y"
    using uint_lt2p [of x] uint_lt2p [of y] by simp_all
  moreover have "le_value xs * 256 + uint x = le_value ys * 256 + uint y"
    using Cons.prems by (simp add: le_value_def)
  ultimately have "le_value xs = le_value ys \<and> uint x = uint y" by (intro byte_split)
  with Cons.IH show ?case by (simp add: word_uint_eq_iff)
qed simp


definition demo_perm :: perm4 where
  "demo_perm st = (case st of (a, b, c, d) \<Rightarrow> (a + b, 3 * b + c, c + 7 * d, d - 5 * a))"


text \<open>
  the hex form of ML-KEM material reads back to the same bytes; the two limbs of a 32-byte shared
  secret are below \<open>2^128\<close> and determine it; any other length is rejected.
\<close>

theorem kem_encodings:
  "kemHexToBytes (kemBytesToHex bs) = Some bs \<and>
   (case kemSsToLimbs ss of None \<Rightarrow> length ss \<noteq> 32
    | Some (lo, hi) \<Rightarrow> length ss = 32 \<and> 0 \<le> lo \<and> lo < 2 ^ 128 \<and> 0 \<le> hi \<and> hi < 2 ^ 128 \<and>
        (\<forall>ss'. kemSsToLimbs ss' = Some (lo, hi) \<longrightarrow> ss' = ss))"
proof -
  have "ss' = ss" if "kemSsToLimbs ss' = kemSsToLimbs ss" "length ss = 32" for ss'
  proof -
    have len: "length ss' = 32" using that by (auto simp: kemSsToLimbs_def split: if_splits)
    then have "take 16 ss' = take 16 ss" "take 16 (drop 16 ss') = take 16 (drop 16 ss)"
      using that by (auto simp: kemSsToLimbs_def intro!: le_value_inject)
    then show ?thesis using len that(2) by (metis append_take_drop_id diff_Suc_Suc length_drop take_all_iff append_eq_append_conv order_refl numeral_Bit0 add_diff_cancel_left')
  qed
  moreover have "0 \<le> le_value xs \<and> le_value xs < 2 ^ 128" if "length xs = 16" for xs
    using le_value_bounds [of xs] that by simp
  ultimately show ?thesis by (auto simp: kem_hex_roundtrip kemSsToLimbs_def)
qed

theorem kem_encodings_witness:
  "kemHexToBytes (kemBytesToHex [0, 255, 16]) = Some [0, 255, 16] \<and>
   {ss'. kemSsToLimbs ss' = Some (0, 0)} = {replicate 32 0}"
proof -
  have "kemSsToLimbs (replicate 32 0) = Some (0, 0)" by code_simp
  note k = kem_encodings [of "[0, 255, 16]" "replicate 32 0", unfolded this option.case prod.case]
  have "{ss'. kemSsToLimbs ss' = Some (0, 0)} = {replicate 32 0}"
  proof (rule set_eqI, unfold mem_Collect_eq singleton_iff, rule iffI)
    fix ss' assume "kemSsToLimbs ss' = Some (0, 0)"
    then show "ss' = replicate 32 0" by (rule k [THEN conjunct2, THEN conjunct2, THEN conjunct2, THEN conjunct2,
          THEN conjunct2, THEN conjunct2, THEN spec, THEN mp])
  next
    fix ss' :: bytes assume "ss' = replicate 32 0"
    then show "kemSsToLimbs ss' = Some (0, 0)" using \<open>kemSsToLimbs (replicate 32 0) = Some (0, 0)\<close> by (rule ssubst)
  qed
  then show ?thesis by (rule conjI [OF k [THEN conjunct1]])
qed

end
