(* ===== verification/Envelope.thy ===== *)
theory Envelope
  imports Note_Crypto
begin

text \<open>
  \<open>packages/core/src/crypto/envelope.ts\<close>, the authority envelope every operation publishes, and
  \<open>packages/core/src/notes/consumer.ts\<close>, the receiver ciphertexts of the consumer operations. The
  ML-KEM library is a pair of arguments \<open>encaps\<close> and \<open>decaps\<close>.
\<close>

subsection \<open>The authority envelope\<close>

datatype op_kind = Deposit | WithdrawOp | TransferOp | Transfer10 | Transfer10x2 | Disburse

definition opArity :: "op_kind \<Rightarrow> nat \<Rightarrow> nat \<times> nat" where
  "opArity kind B =
     (case kind of Deposit \<Rightarrow> (0, 2) | WithdrawOp \<Rightarrow> (2, 1) | TransferOp \<Rightarrow> (2, 2)
      | Transfer10 \<Rightarrow> (10, 10) | Transfer10x2 \<Rightarrow> (10, 2) | Disburse \<Rightarrow> (1, B))"

record spend_layout =
  inValBase :: nat
  outOwnBase :: nat
  outValBase :: nat
  layout_len :: nat

definition spendLayout :: "nat \<Rightarrow> nat \<Rightarrow> spend_layout" where
  "spendLayout nIn nOut =
     (let iv = (if nIn > 0 then 2 else 0); oo = iv + 2 * nIn; ov = oo + 2 * nOut
      in \<lparr>inValBase = iv, outOwnBase = oo, outValBase = ov, layout_len = ov + 2 * nOut\<rparr>)"

record env_note =
  env_owner :: point
  env_value :: int
  env_salt :: int

record envelope =
  env_inputs :: "env_note list"
  env_outputs :: "env_note list"

definition envelopePlaintextLen :: "op_kind \<Rightarrow> nat \<Rightarrow> nat" where
  "envelopePlaintextLen kind B = (case opArity kind B of (nIn, nOut) \<Rightarrow> layout_len (spendLayout nIn nOut))"

definition authorityCiphertextLen :: "op_kind \<Rightarrow> nat \<Rightarrow> nat" where
  "authorityCiphertextLen kind B =
     (let plain = envelopePlaintextLen kind B in plain + ((3 - plain mod 3) mod 3) + 1)"

datatype build_error = NoOutputs | WrongOutputs | WrongInputs | OwnersDiffer

definition buildAuthorityPlaintext :: "op_kind \<Rightarrow> envelope \<Rightarrow> build_error + int list" where
  "buildAuthorityPlaintext kind env =
     (let inputs = env_inputs env; outputs = env_outputs env; (nIn, nOut) = opArity kind (length outputs) in
      if kind = Disburse \<and> \<not> length outputs > 0 then Inl NoOutputs
      else if kind \<noteq> Disburse \<and> length outputs \<noteq> nOut then Inl WrongOutputs
      else if length inputs \<noteq> nIn then Inl WrongInputs
      else if list_ex (\<lambda>i. env_owner i \<noteq> env_owner (inputs ! 0)) inputs then Inl OwnersDiffer
      else Inr ((if nIn > 0 then [fst (env_owner (inputs ! 0)), snd (env_owner (inputs ! 0))] else []) @
             concat (map (\<lambda>i. [env_value i, env_salt i]) inputs) @
             concat (map (\<lambda>n. [fst (env_owner n), snd (env_owner n)]) outputs) @
             concat (map (\<lambda>n. [env_value n, env_salt n]) outputs)))"

text \<open>The parse of a decrypted plaintext; every index is within it (its length is the layout's).\<close>

definition parse_plaintext :: "nat \<Rightarrow> nat \<Rightarrow> int list \<Rightarrow> envelope" where
  "parse_plaintext nIn nOut m =
     (let l = spendLayout nIn nOut; inOwn = (if nIn > 0 then (m ! 0, m ! 1) else (0, 0)) in
      \<lparr>env_inputs = map (\<lambda>i. \<lparr>env_owner = inOwn, env_value = m ! (inValBase l + 2 * i),
                              env_salt = m ! (inValBase l + 2 * i + 1)\<rparr>) [0..<nIn],
       env_outputs = map (\<lambda>i. \<lparr>env_owner = (m ! (outOwnBase l + 2 * i), m ! (outOwnBase l + 2 * i + 1)),
                              env_value = m ! (outValBase l + 2 * i),
                              env_salt = m ! (outValBase l + 2 * i + 1)\<rparr>) [0..<nOut]\<rparr>)"

definition envelope_key :: "hashN \<Rightarrow> point \<Rightarrow> (int \<times> int) option \<Rightarrow> point" where
  "envelope_key hN shared kemSs = (case kemSs of None \<Rightarrow> shared | Some s \<Rightarrow> hybridEnvelopeKey hN shared s)"

definition parseEnvelope ::
  "hashN \<Rightarrow> perm4 \<Rightarrow> int \<Rightarrow> point \<Rightarrow> int \<Rightarrow> int list \<Rightarrow> op_kind \<Rightarrow> nat \<Rightarrow> (int \<times> int) option \<Rightarrow> envelope option" where
  "parseEnvelope hN perm arbiterPriv ecdhPublicKey nonce ct kind B kemSs =
     (case ecdhSharedSecret arbiterPriv ecdhPublicKey of
        None \<Rightarrow> None
      | Some shared \<Rightarrow>
          (let (nIn, nOut) = opArity kind B;
               m = poseidonDecrypt perm ct (envelope_key hN shared kemSs) nonce (layout_len (spendLayout nIn nOut))
           in Some (parse_plaintext nIn nOut m)))"

definition disclosureChain :: "hash2 \<Rightarrow> int list \<Rightarrow> int" where
  "disclosureChain h elements = fold (\<lambda>x dh. h dh x) elements 0"

subsection \<open>Consumer notes\<close>

definition TAG_RK0 :: int where
  "TAG_RK0 = 15911670041651909454486960207337169366505934455020053916031847212914070689294"

definition TAG_RK1 :: int where
  "TAG_RK1 = 18959445568053998966444410456355743824415104493789084861475706421378089710793"

definition TAG_VIEWTAG :: int where
  "TAG_VIEWTAG = 4236837455644426462098222144565872234823396873019476831333450393757091506254"

datatype consumer_error =
    NonceEscapes | TagOutOfRange | BadCiphertextLength | BadScalar | BadKemLength | EmptyBatch | RunsDisagree

definition offsetNonce :: "int \<Rightarrow> nat \<Rightarrow> consumer_error + int" where
  "offsetNonce encryptionNonce index =
     (let nonce = encryptionNonce + int index in if nonce \<ge> TWO128 then Inl NonceEscapes else Inr nonce)"

definition hybridReceiverKey :: "hashN \<Rightarrow> point \<Rightarrow> int \<times> int \<Rightarrow> point" where
  "hybridReceiverKey hN shared kemSs =
     (let t = [fst shared, snd shared, fst kemSs, snd kemSs] in (hN (TAG_RK0 # t), hN (TAG_RK1 # t)))"

definition viewTagFromField :: "int \<Rightarrow> consumer_error + int" where
  "viewTagFromField t = (if t < 0 \<or> t \<ge> FIELD_PRIME then Inl TagOutOfRange else Inr (t mod 256))"

definition consumerViewTag :: "hashN \<Rightarrow> point \<Rightarrow> consumer_error + int" where
  "consumerViewTag hN shared = viewTagFromField (hN [TAG_VIEWTAG, fst shared, snd shared])"

definition encryptConsumerNote ::
  "perm4 \<Rightarrow> int \<Rightarrow> int \<Rightarrow> point \<Rightarrow> int \<Rightarrow> nat \<Rightarrow> consumer_error + int list" where
  "encryptConsumerNote perm value salt receiverKey encryptionNonce index =
     (case offsetNonce encryptionNonce index of
        Inl e \<Rightarrow> Inl e | Inr nonce \<Rightarrow> Inr (poseidonEncrypt perm [value, salt] receiverKey nonce))"

definition decryptConsumerNote ::
  "perm4 \<Rightarrow> int list \<Rightarrow> point \<Rightarrow> int \<Rightarrow> nat \<Rightarrow> consumer_error + int \<times> int" where
  "decryptConsumerNote perm cipherText receiverKey encryptionNonce index =
     (if length cipherText \<noteq> 4 then Inl BadCiphertextLength
      else case offsetNonce encryptionNonce index of
        Inl e \<Rightarrow> Inl e
      | Inr nonce \<Rightarrow> (let m = poseidonDecrypt perm cipherText receiverKey nonce 2 in Inr (m ! 0, m ! 1)))"

record sealed_output =
  so_cipherText :: "int list"
  so_viewTag :: int
  so_kemCiphertext :: bytes
  so_kemSs :: "int \<times> int"
  so_receiverKey :: point
  so_ecdhShared :: point

definition sealConsumerOutput ::
  "hashN \<Rightarrow> perm4 \<Rightarrow> (bytes \<Rightarrow> bytes option \<Rightarrow> bytes \<times> bytes) \<Rightarrow> int \<Rightarrow> int \<Rightarrow> int \<Rightarrow> point \<Rightarrow> bytes \<Rightarrow> int \<Rightarrow> nat \<Rightarrow>
    bytes option \<Rightarrow> consumer_error + sealed_output" where
  "sealConsumerOutput hN perm encaps value salt ephemeralPriv viewPub kemEk encryptionNonce index encapSeed =
     (case ecdhSharedSecret ephemeralPriv viewPub of
        None \<Rightarrow> Inl BadScalar
      | Some shared \<Rightarrow>
          (let (kemCt, ss) = encaps kemEk encapSeed in
           case kemSsToLimbs ss of
             None \<Rightarrow> Inl BadKemLength
           | Some kemSs \<Rightarrow>
               (let key = hybridReceiverKey hN shared kemSs in
                case encryptConsumerNote perm value salt key encryptionNonce index of
                  Inl e \<Rightarrow> Inl e
                | Inr ct \<Rightarrow>
                    (case consumerViewTag hN shared of
                       Inl e \<Rightarrow> Inl e
                     | Inr tag \<Rightarrow> Inr \<lparr>so_cipherText = ct, so_viewTag = tag, so_kemCiphertext = kemCt,
                          so_kemSs = kemSs, so_receiverKey = key, so_ecdhShared = shared\<rparr>))))"

definition openConsumerOutput ::
  "hashN \<Rightarrow> perm4 \<Rightarrow> (bytes \<Rightarrow> bytes \<Rightarrow> bytes) \<Rightarrow> int list \<Rightarrow> point \<Rightarrow> int \<Rightarrow> bytes \<Rightarrow> bytes \<Rightarrow> int \<Rightarrow> nat \<Rightarrow>
    consumer_error + int \<times> int \<times> int" where
  "openConsumerOutput hN perm decaps cipherText ecdhPublicKey viewPriv kemDk kemCiphertext encryptionNonce index =
     (case ecdhSharedSecret viewPriv ecdhPublicKey of
        None \<Rightarrow> Inl BadScalar
      | Some shared \<Rightarrow>
          (case kemSsToLimbs (decaps kemCiphertext kemDk) of
             None \<Rightarrow> Inl BadKemLength
           | Some kemSs \<Rightarrow>
               (case decryptConsumerNote perm cipherText (hybridReceiverKey hN shared kemSs) encryptionNonce index of
                  Inl e \<Rightarrow> Inl e
                | Inr (value, salt) \<Rightarrow>
                    (case consumerViewTag hN shared of Inl e \<Rightarrow> Inl e | Inr tag \<Rightarrow> Inr (value, salt, tag)))))"

definition consumerDisclosureLen :: "nat \<Rightarrow> nat" where
  "consumerDisclosureLen B = 6 * B"

definition consumerDisclosureElements ::
  "int list list \<Rightarrow> int list \<Rightarrow> int list \<Rightarrow> consumer_error + int list" where
  "consumerDisclosureElements receiverCts viewTags outputCommitments =
     (let B = length outputCommitments in
      if B = 0 then Inl EmptyBatch
      else if length receiverCts \<noteq> B \<or> length viewTags \<noteq> B then Inl RunsDisagree
      else if list_ex (\<lambda>ct. length ct \<noteq> 4) receiverCts then Inl BadCiphertextLength
      else Inr (concat receiverCts @ viewTags @ outputCommitments))"

definition consumerDisclosureHash ::
  "hash2 \<Rightarrow> int list list \<Rightarrow> int list \<Rightarrow> int list \<Rightarrow> consumer_error + int" where
  "consumerDisclosureHash h receiverCts viewTags outputCommitments =
     map_sum id (disclosureChain h) (consumerDisclosureElements receiverCts viewTags outputCommitments)"

subsection \<open>Reading back what was laid out\<close>

text \<open>Runs of pairs.\<close>

lemma length_pairs: "length (concat (map (\<lambda>x. [f x, g x]) xs)) = 2 * length xs"
  by (induction xs) auto

lemma nth_pairs:
  assumes "i < length xs"
  shows "(concat (map (\<lambda>x. [f x, g x]) xs) @ rest) ! (2 * i) = f (xs ! i)"
    and "(concat (map (\<lambda>x. [f x, g x]) xs) @ rest) ! Suc (2 * i) = g (xs ! i)"
  using assms
proof (induction xs arbitrary: i)
  case (Cons x xs)
  { case 1 with Cons show ?case by (cases i) auto }
  { case 2 with Cons show ?case by (cases i) auto }
qed simp_all

lemma pairs_eqI:
  assumes "length xs = n" and "\<And>i. i < n \<Longrightarrow> F i = xs ! i"
  shows "map F [0..<n] = xs"
  using assms by (intro nth_equalityI) auto

lemma parse_layout:
  assumes ins: "length ins = nIn" "\<And>n. n \<in> set ins \<Longrightarrow> env_owner n = own" and outs: "length outs = nOut"
    and m: "m = (if nIn > 0 then [fst own, snd own] else []) @
      concat (map (\<lambda>i. [env_value i, env_salt i]) ins) @
      concat (map (\<lambda>n. [fst (env_owner n), snd (env_owner n)]) outs) @
      concat (map (\<lambda>n. [env_value n, env_salt n]) outs)"
  shows "length m = layout_len (spendLayout nIn nOut)"
    and "parse_plaintext nIn nOut m = \<lparr>env_inputs = ins, env_outputs = outs\<rparr>"
proof -
  define hd where "hd = (if nIn > 0 then [fst own, snd own] else [])"
  define iv where "iv = concat (map (\<lambda>i. [env_value i, env_salt i]) ins)"
  define oo where "oo = concat (map (\<lambda>n. [fst (env_owner n), snd (env_owner n)]) outs)"
  define ov where "ov = concat (map (\<lambda>n. [env_value n, env_salt n]) outs)"
  have m': "m = hd @ iv @ oo @ ov" by (simp only: m hd_def iv_def oo_def ov_def)
  have lens: "length iv = 2 * nIn" "length oo = 2 * nOut" "length ov = 2 * nOut"
    using ins(1) outs by (simp_all add: iv_def oo_def ov_def length_pairs)
  have lhd: "length hd = (if nIn > 0 then 2 else 0)" by (simp add: hd_def)
  show "length m = layout_len (spendLayout nIn nOut)" by (simp add: m' lens lhd spendLayout_def Let_def)
  have bases: "inValBase (spendLayout nIn nOut) = length hd" "outOwnBase (spendLayout nIn nOut) = length (hd @ iv)"
    "outValBase (spendLayout nIn nOut) = length (hd @ iv @ oo)"
    by (simp_all add: spendLayout_def Let_def lhd lens)
  have ivn: "m ! (length hd + 2 * i) = env_value (ins ! i)" "m ! Suc (length hd + 2 * i) = env_salt (ins ! i)" if "i < nIn" for i
    using nth_pairs [of i ins env_value env_salt "oo @ ov"] that ins(1) nth_append_length_plus [of hd "iv @ oo @ ov" "2 * i"]
      nth_append_length_plus [of hd "iv @ oo @ ov" "Suc (2 * i)"]
    by (simp_all add: m' iv_def [symmetric])
  have oon: "m ! (length (hd @ iv) + 2 * i) = fst (env_owner (outs ! i))"
    "m ! Suc (length (hd @ iv) + 2 * i) = snd (env_owner (outs ! i))" if "i < nOut" for i
    using nth_pairs [of i outs "\<lambda>n. fst (env_owner n)" "\<lambda>n. snd (env_owner n)" ov] that outs
      nth_append_length_plus [of "hd @ iv" "oo @ ov" "2 * i"] nth_append_length_plus [of "hd @ iv" "oo @ ov" "Suc (2 * i)"]
    by (simp_all add: m' oo_def [symmetric] del: nth_append_length_plus)
  have ovn: "m ! (length (hd @ iv @ oo) + 2 * i) = env_value (outs ! i)"
    "m ! Suc (length (hd @ iv @ oo) + 2 * i) = env_salt (outs ! i)" if "i < nOut" for i
    using nth_pairs [of i outs env_value env_salt "[]"] that outs
      nth_append_length_plus [of "hd @ iv @ oo" ov "2 * i"] nth_append_length_plus [of "hd @ iv @ oo" ov "Suc (2 * i)"]
    by (simp_all add: m' ov_def [symmetric] del: nth_append_length_plus)
  have own: "env_owner (ins ! i) = (m ! 0, m ! 1)" if "i < nIn" for i
    using ins that by (simp add: m' hd_def)
  have "map (\<lambda>i. \<lparr>env_owner = (if nIn > 0 then (m ! 0, m ! 1) else (0, 0)), env_value = m ! (length hd + 2 * i),
      env_salt = m ! (length hd + 2 * i + 1)\<rparr>) [0..<nIn] = ins"
    using ins(1) own ivn by (intro pairs_eqI) (auto intro!: env_note.equality)
  moreover have "map (\<lambda>i. \<lparr>env_owner = (m ! (length (hd @ iv) + 2 * i), m ! (length (hd @ iv) + 2 * i + 1)),
      env_value = m ! (length (hd @ iv @ oo) + 2 * i), env_salt = m ! (length (hd @ iv @ oo) + 2 * i + 1)\<rparr>) [0..<nOut] = outs"
    using outs oon ovn by (intro pairs_eqI) (auto intro!: env_note.equality simp del: length_append)
  ultimately show "parse_plaintext nIn nOut m = \<lparr>env_inputs = ins, env_outputs = outs\<rparr>"
    unfolding parse_plaintext_def Let_def bases by simp
qed

lemma if_chain_Inr:
  "(\<exists>m. (if a then Inl x else if b then Inl y else if c then Inl z else if d then Inl w else Inr q) = Inr m) \<longleftrightarrow>
    \<not> a \<and> \<not> b \<and> \<not> c \<and> \<not> d"
  by simp

lemma parse_built:
  assumes build: "buildAuthorityPlaintext kind env = Inr m" and ar: "opArity kind (length (env_outputs env)) = (nIn, nOut)"
  shows "length m = layout_len (spendLayout nIn nOut)" and "parse_plaintext nIn nOut m = env"
proof -
  let ?ins = "env_inputs env" and ?outs = "env_outputs env"
  let ?m = "(if nIn > 0 then [fst (env_owner (?ins ! 0)), snd (env_owner (?ins ! 0))] else []) @
      concat (map (\<lambda>i. [env_value i, env_salt i]) ?ins) @
      concat (map (\<lambda>n. [fst (env_owner n), snd (env_owner n)]) ?outs) @
      concat (map (\<lambda>n. [env_value n, env_salt n]) ?outs)"
  have b: "(kind \<noteq> Disburse \<longrightarrow> length ?outs = nOut) \<and> length ?ins = nIn \<and>
      \<not> list_ex (\<lambda>i. env_owner i \<noteq> env_owner (?ins ! 0)) ?ins \<and> m = ?m"
    using build unfolding buildAuthorityPlaintext_def Let_def ar by (auto split: if_splits)
  have len: "length ?ins = nIn" "length ?outs = nOut"
    using b ar by (cases kind; simp add: opArity_def)+
  have m: "m = ?m" using b by blast
  have own: "env_owner n = env_owner (?ins ! 0)" if "n \<in> set ?ins" for n
    using b that unfolding list_ex_iff by blast
  show "length m = layout_len (spendLayout nIn nOut)" by (rule parse_layout(1) [OF len(1) own len(2) m])
  show "parse_plaintext nIn nOut m = env" using parse_layout(2) [OF len(1) own len(2) m] by simp
qed


definition demo_envelope :: envelope where
  "demo_envelope = \<lparr>env_inputs = [\<lparr>env_owner = (3, 4), env_value = 100, env_salt = 5\<rparr>, \<lparr>env_owner = (3, 4), env_value = 0, env_salt = 6\<rparr>],
     env_outputs = [\<lparr>env_owner = (8, 9), env_value = 70, env_salt = 7\<rparr>, \<lparr>env_owner = (3, 4), env_value = 30, env_salt = 8\<rparr>]\<rparr>"


text \<open>
  an envelope is laid out exactly when it has the shape of the operation's circuit: the fixed
  numbers of inputs and outputs (at least one output for a disburse) and one owner for all inputs.
  The plaintext then has the documented length: 8, 10, 14, 62, 30, and \<open>4 + 4 B\<close> for a disburse.
\<close>

theorem envelope_shapes:
  "((\<exists>m. buildAuthorityPlaintext kind env = Inr m) \<longleftrightarrow>
     (length (env_inputs env), length (env_outputs env)) = opArity kind (length (env_outputs env)) \<and>
     env_outputs env \<noteq> [] \<and> (\<forall>i\<in>set (env_inputs env). \<forall>j\<in>set (env_inputs env). env_owner i = env_owner j)) \<and>
   envelopePlaintextLen kind B =
     (case kind of Deposit \<Rightarrow> 8 | WithdrawOp \<Rightarrow> 10 | TransferOp \<Rightarrow> 14 | Transfer10 \<Rightarrow> 62 | Transfer10x2 \<Rightarrow> 30
      | Disburse \<Rightarrow> 4 + 4 * B)"
proof -
  have own: "list_ex (\<lambda>i. env_owner i \<noteq> env_owner (ins ! 0)) ins \<longleftrightarrow>
      \<not> (\<forall>i\<in>set ins. \<forall>j\<in>set ins. env_owner i = env_owner j)" for ins
  proof (cases ins)
    case (Cons x xs)
    have "(\<exists>i\<in>set ins. env_owner i \<noteq> env_owner x) \<longleftrightarrow> \<not> (\<forall>i\<in>set ins. \<forall>j\<in>set ins. env_owner i = env_owner j)"
      using Cons by (metis list.set_intros(1))
    then show ?thesis using Cons by (simp add: list_ex_iff)
  qed simp
  define one where "one \<longleftrightarrow> (\<forall>i\<in>set (env_inputs env). \<forall>j\<in>set (env_inputs env). env_owner i = env_owner j)"
  have own': "list_ex (\<lambda>i. env_owner i \<noteq> env_owner (env_inputs env ! 0)) (env_inputs env) \<longleftrightarrow> \<not> one"
    unfolding own one_def ..
  obtain nIn nOut where ar: "opArity kind (length (env_outputs env)) = (nIn, nOut)" by (metis prod.exhaust)
  have "(\<exists>m. buildAuthorityPlaintext kind env = Inr m) \<longleftrightarrow>
      (kind = Disburse \<longrightarrow> 0 < length (env_outputs env)) \<and> (kind \<noteq> Disburse \<longrightarrow> length (env_outputs env) = nOut) \<and>
      length (env_inputs env) = nIn \<and> one"
    unfolding buildAuthorityPlaintext_def Let_def own' ar prod.case if_chain_Inr not_not by blast
  also have "\<dots> \<longleftrightarrow> (length (env_inputs env), length (env_outputs env)) = (nIn, nOut) \<and> env_outputs env \<noteq> [] \<and> one"
    using ar by (cases kind) (auto simp: opArity_def)
  finally show ?thesis unfolding ar one_def [symmetric]
    by (simp add: envelopePlaintextLen_def opArity_def spendLayout_def Let_def split: op_kind.split)
qed

theorem envelope_shapes_witness: "\<exists>m. buildAuthorityPlaintext TransferOp demo_envelope = Inr m"
proof -
  have "(length (env_inputs demo_envelope), length (env_outputs demo_envelope)) =
      opArity TransferOp (length (env_outputs demo_envelope)) \<and> env_outputs demo_envelope \<noteq> [] \<and>
      (\<forall>i\<in>set (env_inputs demo_envelope). \<forall>j\<in>set (env_inputs demo_envelope). env_owner i = env_owner j)"
    by code_simp
  then show ?thesis using envelope_shapes [of TransferOp demo_envelope 2] by blast
qed

text \<open>
  A consumer output opens. When the recipient's view key and the sender's ephemeral key agree on
  the shared point and the ML-KEM ciphertext decapsulates to the secret it encapsulated, opening the
  published ciphertext at the same nonce and index gives the sealed value and salt and the published
  view tag, which is a byte; sealing fails only when the nonce escapes its 128-bit slot, the secret is
  not 32 bytes, the scalar is negative or the hash leaves the field.
\<close>

lemma consumer_output_opens:
  assumes "sealConsumerOutput hN perm encaps value salt ephemeralPriv viewPub kemEk nonce index seed = Inr out"
    and "ecdhSharedSecret viewPriv ecdhPub = ecdhSharedSecret ephemeralPriv viewPub"
    and "decaps (so_kemCiphertext out) kemDk = snd (encaps kemEk seed)"
    and "0 \<le> value" "value < FIELD_PRIME" "0 \<le> salt" "salt < FIELD_PRIME"
  shows "openConsumerOutput hN perm decaps (so_cipherText out) ecdhPub viewPriv kemDk (so_kemCiphertext out) nonce index =
      Inr (value, salt, so_viewTag out) \<and> length (so_cipherText out) = 4 \<and> 0 \<le> so_viewTag out \<and> so_viewTag out < 256"
proof -
  obtain shared kemCt ss kemSs where s: "ecdhSharedSecret ephemeralPriv viewPub = Some shared" "encaps kemEk seed = (kemCt, ss)"
    "kemSsToLimbs ss = Some kemSs"
    using assms(1) by (auto simp: sealConsumerOutput_def Let_def split: option.splits prod.splits)
  have ct: "encryptConsumerNote perm value salt (hybridReceiverKey hN shared kemSs) nonce index = Inr (so_cipherText out)"
    and tag: "consumerViewTag hN shared = Inr (so_viewTag out)" and kc: "so_kemCiphertext out = kemCt"
    using assms(1) s by (auto simp: sealConsumerOutput_def Let_def split: sum.splits)
  obtain n where n: "offsetNonce nonce index = Inr n"
    and c: "so_cipherText out = poseidonEncrypt perm [value, salt] (hybridReceiverKey hN shared kemSs) n"
    using ct by (auto simp: encryptConsumerNote_def split: sum.splits)
  have "poseidonDecrypt perm (so_cipherText out) (hybridReceiverKey hN shared kemSs) n 2 = [value, salt]"
    and len: "length (so_cipherText out) = 4"
    using sponge_roundtrip [of "[value, salt]" perm "hybridReceiverKey hN shared kemSs" n] assms(4-)
    by (simp_all add: c pad_need_def numeral_2_eq_2)
  then have "decryptConsumerNote perm (so_cipherText out) (hybridReceiverKey hN shared kemSs) nonce index = Inr (value, salt)"
    by (simp add: decryptConsumerNote_def n Let_def)
  moreover have "0 \<le> so_viewTag out \<and> so_viewTag out < 256"
    using tag by (auto simp: consumerViewTag_def viewTagFromField_def split: if_splits)
  ultimately show ?thesis using assms(2,3) s tag len kc by (simp add: openConsumerOutput_def)
qed

text \<open>
  the disclosure array of a consumer batch has \<open>6 B\<close> elements and determines the batch: two
  batches with the same array have the same receiver ciphertexts, view tags and commitments.
\<close>

theorem consumer_disclosure_determines_batch:
  assumes "consumerDisclosureElements cts tags cms = Inr es"
  shows "length es = consumerDisclosureLen (length cms) \<and>
    (\<forall>cts' tags' cms'. consumerDisclosureElements cts' tags' cms' = Inr es \<longrightarrow> cts' = cts \<and> tags' = tags \<and> cms' = cms)"
proof -
  have shape: "length cts = length cms \<and> length tags = length cms \<and> (\<forall>ct\<in>set cts. length ct = 4) \<and> es = concat cts @ tags @ cms"
    if "consumerDisclosureElements cts tags cms = Inr es" for cts tags cms
    using that by (auto simp: consumerDisclosureElements_def Let_def list_ex_iff split: if_splits)
  have len: "length (concat cts) = 4 * length cts" if "\<forall>ct\<in>set cts. length ct = 4" for cts :: "int list list"
    using that by (induction cts) auto
  have inj: "cts = cts'" if "concat cts = concat cts'" "length cts = length cts'"
    "\<forall>ct\<in>set cts. length ct = 4" "\<forall>ct\<in>set cts'. length ct = 4" for cts cts' :: "int list list"
    using that(2,1,3,4) by (induction cts cts' rule: list_induct2) auto
  note s = shape [OF assms]
  have "length es = 6 * length cms" using s len [of cts] by auto
  moreover have "cts' = cts \<and> tags' = tags \<and> cms' = cms" if "consumerDisclosureElements cts' tags' cms' = Inr es" for cts' tags' cms'
  proof -
    note s' = shape [OF that]
    have "length (concat cts' @ tags' @ cms') = length (concat cts @ tags @ cms)" using s s' by simp
    then have "length cms' = length cms" using s s' len [of cts] len [of cts'] by simp
    then show ?thesis using s s' len [of cts] len [of cts'] inj [of cts cts'] by auto
  qed
  ultimately show ?thesis by (simp add: consumerDisclosureLen_def)
qed

theorem consumer_disclosure_determines_batch_witness:
  "{(cts, tags, cms). consumerDisclosureElements cts tags cms = Inr [1, 2, 3, 4, 9, 7]} = {([[1, 2, 3, 4]], [9], [7])}"
proof -
  have e: "consumerDisclosureElements [[1, 2, 3, 4]] [9] [7] = Inr [1, 2, 3, 4, 9, 7]"
    by (simp add: consumerDisclosureElements_def)
  note d = consumer_disclosure_determines_batch [OF e, THEN conjunct2, rule_format]
  show ?thesis
  proof (intro equalityI subsetI)
    fix x assume "x \<in> {(cts, tags, cms). consumerDisclosureElements cts tags cms = Inr [1, 2, 3, 4, 9, 7]}"
    then show "x \<in> {([[1, 2, 3, 4]], [9], [7])}" using d by (cases x) blast
  qed (use e in \<open>simp only: singleton_iff mem_Collect_eq prod.case\<close>)
qed

end
