(* ===== verification/Pubkey.thy ===== *)
theory Pubkey
  imports Note_Crypto
begin

text \<open>
  \<open>packages/core/src/crypto/pubkey.ts\<close>: the compressed form of a BabyJubJub public key and the
  base58check address users see. The double SHA-256 comes from \<open>@noble/hashes\<close>, the argument \<open>sha\<close>.

  The search for a quadratic non-residue has no bound in the source: where it does not return, the
  result is the error \<open>NoReturn\<close>.
\<close>

unbundle bit_operations_syntax

datatype addr_error =
    NoReturn | NotResidue | BadHex | YOutOfRange | OffCurve
  | BadChar | EmptyAddress | BadLength | BadChecksum | BadVersion

subsection \<open>Square roots in the field\<close>

definition legendre :: "int \<Rightarrow> int" where
  "legendre a = modpow a ((FIELD_PRIME - 1) div 2)"

function factor2 :: "int \<Rightarrow> nat \<Rightarrow> int \<times> nat" where
  "factor2 q s = (if q > 0 \<and> even q then factor2 (q div 2) (s + 1) else (q, s))"
  by pat_completeness auto
termination
proof (relation "measure (\<lambda>(q, s). nat q)")
  fix q :: int and s :: nat
  assume "0 < q \<and> even q"
  then have "q div 2 < q" by (intro int_div_less_self) auto
  then show "((q div 2, s + 1), (q, s)) \<in> measure (\<lambda>(q, s). nat q)" using \<open>0 < q \<and> even q\<close> by simp
qed simp

declare factor2.simps [simp del]

partial_function (option) nonResidue :: "int \<Rightarrow> int option" where
  [code]: "nonResidue z = (if legendre z = FIELD_PRIME - 1 then Some z else nonResidue (z + 1))"

function leastOrder :: "int \<Rightarrow> nat \<Rightarrow> nat \<Rightarrow> nat option" where
  "leastOrder tt i M =
     (let sq = fmod (tt * tt); ni = i + 1 in
      if ni \<ge> M then None else if sq = 1 then Some ni else leastOrder sq ni M)"
  by pat_completeness auto
termination
  by (relation "measure (\<lambda>(tt, i, M). M - i)") auto

declare leastOrder.simps [simp del]

lemma leastOrder_less: "leastOrder tt i M = Some k \<Longrightarrow> k < M"
proof (induction tt i M rule: leastOrder.induct)
  case (1 tt i M)
  then show ?case by (subst (asm) (2) leastOrder.simps) (auto simp: Let_def split: if_splits)
qed

function descend :: "nat \<Rightarrow> int \<Rightarrow> int \<Rightarrow> int \<Rightarrow> int option" where
  "descend M c t R =
     (if t = 1 then Some R
      else case leastOrder t 0 M of
        None \<Rightarrow> None
      | Some i \<Rightarrow>
          (let b = modpow c (2 ^ (M - i - 1)); c2 = fmod (b * b)
           in descend i c2 (fmod (t * c2)) (fmod (R * b))))"
  by pat_completeness auto
termination
  by (relation "measure (\<lambda>(M, c, t, R). M)") (auto dest: leastOrder_less)

declare descend.simps [simp del]

definition sqrtMod :: "int \<Rightarrow> addr_error + int" where
  "sqrtMod n0 =
     (let n = fmod n0 in
      if n = 0 then Inr 0
      else if legendre n \<noteq> 1 then Inl NotResidue
      else let (Q, S) = factor2 (FIELD_PRIME - 1) 0 in
        (case nonResidue 2 of
           None \<Rightarrow> Inl NoReturn
         | Some z \<Rightarrow>
             (case descend S (modpow z Q) (modpow n Q) (modpow n ((Q + 1) div 2)) of
                None \<Rightarrow> Inl NotResidue
              | Some r \<Rightarrow> Inr r)))"

subsection \<open>Compression\<close>

definition le_bytes :: "nat \<Rightarrow> int \<Rightarrow> bytes" where
  "le_bytes n y = map (\<lambda>i. word_of_int (y div 2 ^ (8 * i) mod 256)) [0..<n]"

definition hex_of_bytes :: "bytes \<Rightarrow> string" where
  "hex_of_bytes bs = concat (map byte_hex bs)"

definition packPubkey :: "point \<Rightarrow> string" where
  "packPubkey pt =
     (let bs = le_bytes 32 (snd pt);
          bs' = (if odd (fst pt) then bs[31 := bs ! 31 OR 0x80] else bs)
      in ''0x'' @ hex_of_bytes bs')"

text \<open>The x coordinate of a given y and sign, from the curve equation.\<close>

definition recover_point :: "int \<Rightarrow> int \<Rightarrow> addr_error + point" where
  "recover_point y signBit =
     (let y2 = fmod (y * y);
          num = fmod (1 - y2);
          den = fmod (curve_A - fmod (curve_D * y2));
          x2 = fmod (num * inv_mod den)
      in case sqrtMod x2 of
           Inl e \<Rightarrow> Inl e
         | Inr root \<Rightarrow>
             (let x = (if root mod 2 = signBit then root else fmod (FIELD_PRIME - root)) in
              if isOnCurve (x, y) then Inr (x, y) else Inl OffCurve))"

definition unpackPubkey :: "string \<Rightarrow> addr_error + point" where
  "unpackPubkey hex =
     (let h = strip_0x hex in
      case (if length h = 64 then hex_pairs h else None) of
        None \<Rightarrow> Inl BadHex
      | Some bs \<Rightarrow>
          (let signBit = unat (drop_bit 7 (bs ! 31 AND 0x80));
               y = le_value (bs[31 := bs ! 31 AND 0x7f])
           in if y \<ge> FIELD_PRIME then Inl YOutOfRange else recover_point y (int signBit)))"

subsection \<open>Addresses\<close>

definition B58_ALPHABET :: string where
  "B58_ALPHABET = ''123456789ABCDEFGHJKLMNPQRSTUVWXYZabcdefghijkmnopqrstuvwxyz''"

fun index_of :: "char \<Rightarrow> string \<Rightarrow> nat option" where
  "index_of c [] = None"
| "index_of c (d # ds) = (if c = d then Some 0 else map_option Suc (index_of c ds))"

fun b58_digits :: "nat \<Rightarrow> string" where
  "b58_digits v = (if v = 0 then [] else b58_digits (v div 58) @ [B58_ALPHABET ! (v mod 58)])"

declare b58_digits.simps [simp del]

definition be_value :: "bytes \<Rightarrow> nat" where
  "be_value bs = fold (\<lambda>b acc. acc * 256 + unat b) bs 0"

definition b58encode :: "bytes \<Rightarrow> string" where
  "b58encode bs = replicate (length (takeWhile (\<lambda>b. b = 0) bs)) (CHR ''1'') @ b58_digits (be_value bs)"

fun b58_value :: "nat \<Rightarrow> string \<Rightarrow> nat option" where
  "b58_value acc [] = Some acc"
| "b58_value acc (c # cs) =
     (case index_of c B58_ALPHABET of None \<Rightarrow> None | Some v \<Rightarrow> b58_value (acc * 58 + v) cs)"

fun be_bytes :: "nat \<Rightarrow> bytes" where
  "be_bytes v = (if v = 0 then [] else be_bytes (v div 256) @ [word_of_nat (v mod 256)])"

declare be_bytes.simps [simp del]

definition b58decode :: "string \<Rightarrow> bytes option" where
  "b58decode s =
     (case b58_value 0 s of
        None \<Rightarrow> None
      | Some n \<Rightarrow> Some (replicate (length (takeWhile (\<lambda>c. c = CHR ''1'') s)) 0 @ be_bytes n))"

definition ADDRESS_VERSION :: "8 word" where "ADDRESS_VERSION = 0x42"

definition is_hex :: "char \<Rightarrow> bool" where
  "is_hex c \<longleftrightarrow> radix_digit c \<noteq> None"

definition hex_address :: "string \<Rightarrow> bool" where
  "hex_address v \<longleftrightarrow> (let h = strip_0x v in length h = 64 \<and> list_all is_hex h)"

definition lower_char :: "char \<Rightarrow> char" where
  "lower_char c = (let x = of_char c :: nat in if 65 \<le> x \<and> x \<le> 90 then char_of (x + 32) else c)"

definition checksum4 :: "(bytes \<Rightarrow> bytes) \<Rightarrow> bytes \<Rightarrow> bytes" where
  "checksum4 sha bs = take 4 (sha (sha bs))"

definition encodeAddress :: "(bytes \<Rightarrow> bytes) \<Rightarrow> string \<Rightarrow> string option" where
  "encodeAddress sha compressedHex =
     (let v = js_trim compressedHex in
      if \<not> hex_address v then None
      else case hex_pairs (strip_0x v) of
        None \<Rightarrow> None
      | Some payload \<Rightarrow>
          (let body = ADDRESS_VERSION # payload in Some (b58encode (body @ checksum4 sha body))))"

definition decodeAddress :: "(bytes \<Rightarrow> bytes) \<Rightarrow> string \<Rightarrow> addr_error + string" where
  "decodeAddress sha input =
     (let v = js_trim input in
      if hex_address v
      then (case unpackPubkey v of
              Inl e \<Rightarrow> Inl e
            | Inr _ \<Rightarrow> Inr (''0x'' @ map lower_char (strip_0x v)))
      else if v = [] then Inl EmptyAddress
      else case b58decode v of
        None \<Rightarrow> Inl BadChar
      | Some bs \<Rightarrow>
          if length bs \<noteq> 37 then Inl BadLength
          else let body = take 33 bs in
            if checksum4 sha body \<noteq> drop 33 bs then Inl BadChecksum
            else if body ! 0 \<noteq> ADDRESS_VERSION then Inl BadVersion
            else let hex = hex_of_bytes (drop 1 body) in
              (case unpackPubkey hex of Inl e \<Rightarrow> Inl e | Inr _ \<Rightarrow> Inr (''0x'' @ hex)))"

end
