(* ===== verification/Pubkey_Correct.thy ===== *)
theory Pubkey_Correct
  imports Pubkey
begin

text \<open>
  Correctness of the key and address codecs: a decompressed key is on the curve, in range and
  compresses back to its canonical text; addresses round trip in both directions.
\<close>

subsection \<open>Hexadecimal text\<close>

lemma radix_digit_lower:
  assumes "radix_digit c = Some x"
  shows "x < 16 \<and> hex_char x = lower_char c"
proof -
  let ?n = "of_char c :: nat"
  consider "48 \<le> ?n" "?n \<le> 57" "x = ?n - 48" | "97 \<le> ?n" "?n \<le> 102" "x = ?n - 87" | "65 \<le> ?n" "?n \<le> 70" "x = ?n - 55"
    using assms by (auto simp: radix_digit_def Let_def split: if_splits)
  then show ?thesis by cases (auto simp: hex_char_def lower_char_def Let_def)
qed

lemma byte_hex_pair: "x < 16 \<Longrightarrow> y < 16 \<Longrightarrow> byte_hex (pair_byte x y) = [hex_char x, hex_char y]"
proof -
  assume x: "x < 16" "y < 16"
  then have "unat (pair_byte x y) = 16 * x + y"
    unfolding pair_byte_def unat_of_nat by (simp del: of_nat_add of_nat_mult)
  with x show ?thesis by (simp add: byte_hex_def)
qed

lemma hex_pairs_lower: "hex_pairs h = Some bs \<Longrightarrow> hex_of_bytes bs = map lower_char h \<and> length h = 2 * length bs"
proof (induction h arbitrary: bs rule: hex_pairs.induct)
  case (3 c d cs)
  then show ?case
    by (auto simp: hex_of_bytes_def byte_hex_pair dest!: radix_digit_lower split: option.splits)
qed (auto simp: hex_of_bytes_def)

lemma hex_char_not_x: "x < 16 \<Longrightarrow> hex_char x \<noteq> CHR ''x'' \<and> hex_char x \<noteq> CHR ''X''"
  by (auto simp: hex_char_def dest!: arg_cong [of _ _ "of_char :: char \<Rightarrow> nat"])

lemma byte_hex_form: "\<exists>x<16. \<exists>y<16. byte_hex b = [hex_char x, hex_char y]"
proof -
  have "unat b < 256" using unsigned_less [of b, where 'a = nat] by simp
  then show ?thesis by (intro exI [of _ "unat b div 16"] exI [of _ "unat b mod 16"] conjI) (auto simp: byte_hex_def)
qed

lemma strip_0x_hex_of_bytes: "strip_0x (hex_of_bytes bs) = hex_of_bytes bs"
proof (cases bs)
  case (Cons b bs')
  obtain x y where "y < 16" "byte_hex b = [hex_char x, hex_char y]" using byte_hex_form by blast
  then show ?thesis using hex_char_not_x [of y] by (auto simp: strip_0x_def hex_of_bytes_def Cons)
qed (simp add: strip_0x_def hex_of_bytes_def)

lemma strip_0x_prefix [simp]: "strip_0x (''0x'' @ s) = s"
  by (simp add: strip_0x_def)

lemma hex_pairs_is_hex: "hex_pairs h = Some bs \<Longrightarrow> list_all is_hex h"
  by (induction h arbitrary: bs rule: hex_pairs.induct) (auto simp: is_hex_def split: option.splits)

lemma hex_pairs_total: "list_all is_hex h \<Longrightarrow> even (length h) \<Longrightarrow> \<exists>bs. hex_pairs h = Some bs"
  by (induction h rule: hex_pairs.induct) (auto simp: is_hex_def)

lemma hex_address_pairs:
  "hex_address v \<longleftrightarrow> (\<exists>bs. length bs = 32 \<and> hex_pairs (strip_0x v) = Some bs)"
proof
  assume "hex_address v"
  then obtain bs where "hex_pairs (strip_0x v) = Some bs" "length (strip_0x v) = 64"
    using hex_pairs_total [of "strip_0x v"] by (auto simp: hex_address_def Let_def)
  then show "\<exists>bs. length bs = 32 \<and> hex_pairs (strip_0x v) = Some bs" using hex_pairs_lower by fastforce
next
  assume "\<exists>bs. length bs = 32 \<and> hex_pairs (strip_0x v) = Some bs"
  then show "hex_address v" using hex_pairs_lower hex_pairs_is_hex by (fastforce simp: hex_address_def Let_def)
qed

lemma hex_of_bytes_pairs [simp]: "hex_pairs (hex_of_bytes bs) = Some bs"
  by (simp add: hex_of_bytes_def hex_pairs_bytes)

text \<open>Decompression depends only on the bytes the text denotes.\<close>

lemma unpack_bytes:
  assumes "hex_pairs (strip_0x v) = Some bs" and "length bs = 32"
  shows "unpackPubkey v = unpackPubkey (hex_of_bytes bs)"
proof -
  have "length (strip_0x v) = 64" "length (hex_of_bytes bs) = 64"
    using hex_pairs_lower [OF assms(1)] hex_pairs_lower [OF hex_of_bytes_pairs, of bs] assms(2) by auto
  then show ?thesis using assms(1) by (simp add: unpackPubkey_def strip_0x_hex_of_bytes)
qed

subsection \<open>Little-endian bytes\<close>

lemma le_value_Cons: "le_value (b # bs) = le_value bs * 256 + uint b"
  by (simp add: le_value_def)

lemma le_bytes_Suc: "le_bytes (Suc n) y = word_of_int (y mod 256) # le_bytes n (y div 256)"
proof -
  have "y div 256 div 2 ^ (8 * i) = y div 2 ^ (8 * Suc i)" for i
    by (simp add: zdiv_zmult2_eq power_add)
  then show ?thesis by (simp add: le_bytes_def upt_conv_Cons map_Suc_upt [symmetric] comp_def del: upt_Suc)
qed

lemma le_bytes_value: "le_bytes (length bs) (le_value bs) = bs"
proof (induction bs)
  case (Cons b bs)
  have u: "0 \<le> uint b" "uint b < 256" using uint_lt2p [of b] by simp_all
  then have "(le_value bs * 256 + uint b) div 256 = le_value bs" by simp
  with u Cons show ?case by (simp add: le_bytes_Suc le_value_Cons)
qed (simp add: le_bytes_def)

subsection \<open>The sign bit\<close>

unbundle bit_operations_syntax

lemma sign_bit_byte:
  fixes b :: "8 word"
  shows "unat (drop_bit 7 (b AND 0x80)) = (if bit b 7 then 1 else 0)"
    and "\<not> bit b 7 \<Longrightarrow> b AND 0x7f = b" and "bit b 7 \<Longrightarrow> (b AND 0x7f) OR 0x80 = b"
proof -
  have low: "bit (0x7f :: 8 word) n \<longleftrightarrow> n < 7" for n
  proof -
    have "(0x7f :: 8 word) = mask 7" by (simp add: mask_eq_exp_minus_1)
    then show ?thesis by (simp only: bit_mask_iff) auto
  qed
  have high: "bit (0x80 :: 8 word) n \<longleftrightarrow> n = 7" for n
  proof -
    have "(0x80 :: 8 word) = 2 ^ 7" by simp
    then show ?thesis by (simp only: bit_exp_iff) auto
  qed
  have "drop_bit 7 (b AND 0x80) = (if bit b 7 then 1 else 0)"
    by (rule bit_word_eqI) (auto simp: bit_drop_bit_eq bit_and_iff high bit_1_iff simp del: drop_bit_and)
  then show "unat (drop_bit 7 (b AND 0x80)) = (if bit b 7 then 1 else 0)" by (simp del: drop_bit_and)
  have seven: "n < 8 \<Longrightarrow> \<not> n < 7 \<Longrightarrow> n = 7" for n :: nat by simp
  have eq: "b AND 0x7f = b" if "\<not> bit b 7"
  proof (rule bit_word_eqI)
    fix n assume "n < LENGTH(8)"
    then have "n < 7 \<or> n = 7" by auto
    then show "bit (b AND 0x7f) n \<longleftrightarrow> bit b n" using that unfolding bit_and_iff low by auto
  qed
  then show "\<not> bit b 7 \<Longrightarrow> b AND 0x7f = b" .
  have eq': "(b AND 0x7f) OR 0x80 = b" if "bit b 7"
  proof (rule bit_word_eqI)
    fix n assume "n < LENGTH(8)"
    then have "n < 7 \<or> n = 7" by auto
    then show "bit ((b AND 0x7f) OR 0x80) n \<longleftrightarrow> bit b n" using that unfolding bit_and_iff bit_or_iff low high by auto
  qed
  then show "bit b 7 \<Longrightarrow> (b AND 0x7f) OR 0x80 = b" .
qed

subsection \<open>Square roots stay in the field\<close>

lemma modpow_range: "0 \<le> modpow b e \<and> modpow b e < FIELD_PRIME"
proof (cases "e \<le> 0")
  case False
  then show ?thesis by (simp add: modpow_power)
qed (simp add: modpow_def)

lemma descend_range: "descend M c t R = Some r \<Longrightarrow> 0 \<le> R \<and> R < FIELD_PRIME \<Longrightarrow> 0 \<le> r \<and> r < FIELD_PRIME"
proof (induction M c t R rule: descend.induct)
  case (1 M c t R)
  show ?case
  proof (cases "t = 1")
    case True
    then show ?thesis using 1(2,3) by (simp add: descend.simps [of M c 1 R])
  next
    case False
    then obtain i where i: "leastOrder t 0 M = Some i"
      using 1(2) by (auto simp: descend.simps [of M c t R] split: option.splits)
    with False 1(2) show ?thesis
      using 1(1) [OF False i refl refl] fmod_range by (simp add: descend.simps [of M c t R] Let_def)
  qed
qed

lemma sqrtMod_range: "sqrtMod n = Inr r \<Longrightarrow> 0 \<le> r \<and> r < FIELD_PRIME"
  using descend_range [OF _ modpow_range]
  by (auto simp: sqrtMod_def Let_def split: if_splits option.splits prod.splits)

lemma recover_point_Inr:
  assumes "recover_point y d = Inr (x, y')"
  obtains root where "0 \<le> root" "root < FIELD_PRIME" "x = (if root mod 2 = d then root else fmod (FIELD_PRIME - root))"
    and "y' = y" and "isOnCurve (x, y)"
proof -
  let ?x2 = "fmod (fmod (1 - fmod (y * y)) * inv_mod (fmod (curve_A - fmod (curve_D * fmod (y * y)))))"
  obtain root where root: "sqrtMod ?x2 = Inr root"
    using assms unfolding recover_point_def Let_def by (cases "sqrtMod ?x2") simp_all
  have "(if isOnCurve (if root mod 2 = d then root else fmod (FIELD_PRIME - root), y)
      then Inr (if root mod 2 = d then root else fmod (FIELD_PRIME - root), y) else Inl OffCurve) = Inr (x, y')"
    using assms unfolding recover_point_def Let_def root by simp
  then have "x = (if root mod 2 = d then root else fmod (FIELD_PRIME - root))" "y' = y" "isOnCurve (x, y)"
    by (simp_all only: prod.inject sum.inject split: if_split_asm) auto
  with sqrtMod_range [OF root] show thesis by (intro that) auto
qed

text \<open>
  A decompressed key is a point of the curve with reduced coordinates whose y is the one encoded;
  unless its x is zero, compressing it gives back the text it was read from, in lower case.
\<close>

theorem unpack_sound:
  assumes "unpackPubkey hex = Inr (x, y)"
  shows "isOnCurve (x, y) \<and> 0 \<le> x \<and> x < FIELD_PRIME \<and> 0 \<le> y \<and> y < FIELD_PRIME \<and>
    (x \<noteq> 0 \<longrightarrow> packPubkey (x, y) = ''0x'' @ map lower_char (strip_0x hex))"
proof -
  let ?h = "strip_0x hex"
  obtain bs where bs: "length ?h = 64" "hex_pairs ?h = Some bs"
    using assms by (auto simp: unpackPubkey_def Let_def split: if_splits option.splits)
  from hex_pairs_lower [OF bs(2)] bs(1) have len: "length bs = 32" and lower: "hex_of_bytes bs = map lower_char ?h" by auto
  let ?b = "bs ! 31" and ?ys = "bs[31 := bs ! 31 AND 0x7f]"
  have rp: "recover_point (le_value ?ys) (int (unat (drop_bit 7 (?b AND 0x80)))) = Inr (x, y)" "le_value ?ys < FIELD_PRIME"
    using assms bs unfolding unpackPubkey_def Let_def by (auto split: if_splits simp del: isOnCurve.simps)
  obtain root where root: "0 \<le> root" "root < FIELD_PRIME"
    and x: "x = (if root mod 2 = int (unat (drop_bit 7 (?b AND 0x80))) then root else fmod (FIELD_PRIME - root))"
    and y': "y = le_value ?ys" and curve: "isOnCurve (x, y)"
    using recover_point_Inr [OF rp(1)] by metis
  note x' = x [unfolded sign_bit_byte(1)]
  note y = y' rp(2) [folded y']
  have yb: "le_bytes 32 y = ?ys" using le_bytes_value [of ?ys] len y by simp
  have odd_prime: "odd FIELD_PRIME" by (simp add: FIELD_PRIME_def)
  have x_range: "0 \<le> x \<and> x < FIELD_PRIME" using root fmod_range by (simp add: x)
  have parity: "odd x \<longleftrightarrow> bit ?b 7" if "x \<noteq> 0"
  proof (cases "root mod 2 = int (if bit ?b 7 then 1 else 0)")
    case True
    then show ?thesis using x' by (auto simp: odd_iff_mod_2_eq_one split: if_splits)
  next
    case False
    then have "x = (FIELD_PRIME - root) mod FIELD_PRIME" using x' by (simp add: fmod_mod)
    moreover have "root \<noteq> 0" using calculation that by auto
    moreover have "0 < root" using calculation(2) root by linarith
    moreover have "(FIELD_PRIME - root) mod FIELD_PRIME = FIELD_PRIME - root"
      using root calculation(3) by (intro mod_pos_pos_trivial) linarith+
    ultimately have "x = FIELD_PRIME - root" by metis
    then have "odd x \<longleftrightarrow> even root" using odd_prime by simp
    then show ?thesis using False by (auto simp: even_iff_mod_2_eq_zero odd_iff_mod_2_eq_one split: if_splits)
  qed
  have "packPubkey (x, y) = ''0x'' @ map lower_char ?h" if nz: "x \<noteq> 0"
  proof (cases "bit ?b 7")
    case True
    then have "?ys[31 := ?ys ! 31 OR 0x80] = bs" using len sign_bit_byte(3) [OF True] by simp
    then show ?thesis using parity [OF nz] True lower by (simp add: packPubkey_def yb)
  next
    case False
    then have "?ys = bs" using sign_bit_byte(2) [OF False] by simp
    then show ?thesis using parity [OF nz] False lower yb by (simp add: packPubkey_def)
  qed
  moreover have "0 \<le> y" using le_value_bounds y by simp
  ultimately show ?thesis using curve x_range y(2) by blast
qed

lemma recover_identity: "recover_point 1 d = Inr (0, 1)"
proof -
  have f: "fmod 0 = 0" "fmod 1 = 1" "fmod FIELD_PRIME = 0" by (simp_all add: fmod_mod)
  have "isOnCurve (0, 1)" by (simp add: f fmod_mod Let_def)
  then show ?thesis by (simp add: recover_point_def sqrtMod_def Let_def f del: isOnCurve.simps)
qed

definition identity_hex :: "nat \<Rightarrow> string" where
  "identity_hex d = ''01'' @ replicate 60 (CHR ''0'') @ (if d = 0 then ''00'' else ''80'')"

lemma identity_hex_bytes:
  "hex_pairs (strip_0x (identity_hex 0)) = Some (1 # replicate 31 0)"
  "hex_pairs (strip_0x (identity_hex 1)) = Some (1 # replicate 30 0 @ [0x80])"
  "length (strip_0x (identity_hex 0)) = 64" "length (strip_0x (identity_hex 1)) = 64"
  by code_simp+

lemma unpack_identity: "unpackPubkey (identity_hex 0) = Inr (0, 1)" "unpackPubkey (identity_hex 1) = Inr (0, 1)"
proof -
  have y: "le_value ((1 # replicate 31 0)[31 := (1 # replicate 31 0) ! 31 AND 0x7f]) = 1"
    "le_value ((1 # replicate 30 0 @ [0x80])[31 := (1 # replicate 30 0 @ [0x80]) ! 31 AND 0x7f]) = 1" by code_simp+
  have small: "\<not> 1 \<ge> FIELD_PRIME" by (simp add: FIELD_PRIME_def)
  show "unpackPubkey (identity_hex 0) = Inr (0, 1)"
    unfolding unpackPubkey_def Let_def identity_hex_bytes using small
    by (simp only: simp_thms if_True option.case y recover_identity if_False)
  show "unpackPubkey (identity_hex 1) = Inr (0, 1)"
    unfolding unpackPubkey_def Let_def identity_hex_bytes using small
    by (simp only: simp_thms if_True option.case y recover_identity if_False)
qed

theorem unpack_sound_witness: "isOnCurve (0, 1) \<and> (1::int) < FIELD_PRIME"
  using unpack_sound [OF unpack_identity(1)] by (simp only: simp_thms)

text \<open>
  the encoding is not unique where x is zero: the text of the identity with the sign bit set, which
  compression never produces, decompresses to the same point.
\<close>

theorem identity_has_two_encodings:
  "unpackPubkey (identity_hex 0) = Inr (0, 1) \<and> unpackPubkey (identity_hex 1) = Inr (0, 1) \<and>
   packPubkey (0, 1) = ''0x'' @ identity_hex 0 \<and> identity_hex 1 \<noteq> identity_hex 0"
proof -
  have "packPubkey (0, 1) = ''0x'' @ identity_hex 0" "identity_hex 1 \<noteq> identity_hex 0" by code_simp+
  then show ?thesis using unpack_identity by blast
qed

subsection \<open>Base 58\<close>

lemma alphabet_index: "k < 58 \<Longrightarrow> index_of (B58_ALPHABET ! k) B58_ALPHABET = Some k"
proof -
  have "\<forall>k\<in>set [0..<58]. index_of (B58_ALPHABET ! k) B58_ALPHABET = Some k" by code_simp
  then show "k < 58 \<Longrightarrow> index_of (B58_ALPHABET ! k) B58_ALPHABET = Some k" by simp
qed

lemma index_of_nth: "index_of c ds = Some k \<Longrightarrow> k < length ds \<and> ds ! k = c"
  by (induction ds arbitrary: k) (auto split: if_splits)

lemma length_alphabet: "length B58_ALPHABET = 58"
  by code_simp

lemma alphabet_chars: "\<forall>c\<in>set B58_ALPHABET. \<not> is_space c"
proof -
  have "list_all (\<lambda>c. \<not> is_space c) B58_ALPHABET" by code_simp
  then show ?thesis by (simp add: list_all_iff)
qed

lemma b58_value_append:
  "b58_value a (xs @ ys) = (case b58_value a xs of None \<Rightarrow> None | Some a' \<Rightarrow> b58_value a' ys)"
  by (induction xs arbitrary: a) (auto split: option.splits)

lemma b58_value_digits: "b58_value 0 (b58_digits v) = Some v"
proof (induction v rule: b58_digits.induct)
  case (1 v)
  show ?case
  proof (cases "v = 0")
    case False
    have "v mod 58 < 58" by simp
    from alphabet_index [OF this] False 1 [OF False] show ?thesis
      by (subst b58_digits.simps) (simp add: b58_value_append)
  qed (simp add: b58_digits.simps)
qed

lemma b58_value_ones: "b58_value 0 (replicate k (CHR ''1'') @ s) = b58_value 0 s"
proof (induction k)
  case (Suc k)
  have "index_of (CHR ''1'') B58_ALPHABET = Some 0" by code_simp
  with Suc show ?case by simp
qed simp

lemma b58_digits_hd: "v \<noteq> 0 \<Longrightarrow> b58_digits v \<noteq> [] \<and> hd (b58_digits v) \<noteq> CHR ''1''"
proof (induction v rule: b58_digits.induct)
  case (1 v)
  show ?case
  proof (cases "v div 58 = 0")
    case True
    then have "v < 58" by simp
    then have "B58_ALPHABET ! v \<noteq> CHR ''1''"
      using alphabet_index [of v] alphabet_index [of 0] 1(2) by (auto simp: B58_ALPHABET_def)
    then show ?thesis using 1(2) True \<open>v < 58\<close> by (subst (1 2) b58_digits.simps) (simp add: b58_digits.simps [of 0])
  next
    case False
    with 1 show ?thesis by (subst (1 2) b58_digits.simps) (auto simp: hd_append)
  qed
qed

lemma takeWhile_ones: "takeWhile (\<lambda>c. c = CHR ''1'') (replicate k (CHR ''1'') @ b58_digits v) = replicate k (CHR ''1'')"
proof (cases "v = 0")
  case True
  then show ?thesis by (simp add: b58_digits.simps takeWhile_eq_all_conv)
next
  case False
  with b58_digits_hd [OF False] show ?thesis by (induction k) (auto simp: neq_Nil_conv)
qed

text \<open>Bytes of a number, most significant first.\<close>

lemma be_value_append: "be_value (xs @ ys) = be_value xs * 256 ^ length ys + be_value ys"
proof -
  have "fold (\<lambda>b acc. acc * 256 + unat b) ys a = a * 256 ^ length ys + fold (\<lambda>b acc. acc * 256 + unat b) ys 0" for a
  proof (induction ys arbitrary: a)
    case (Cons y ys)
    show ?case using Cons.IH [of "a * 256 + unat y"] Cons.IH [of "unat y"] by (simp add: algebra_simps)
  qed simp
  from this [of "be_value xs"] show ?thesis by (simp add: be_value_def)
qed

lemma be_value_less: "be_value bs < 256 ^ length bs"
proof (induction bs rule: rev_induct)
  case (snoc b bs)
  have "unat b < 256" using unsigned_less [of b, where 'a = nat] by simp
  with snoc have "be_value bs * 256 + unat b < (be_value bs + 1) * 256" by simp
  also have "\<dots> \<le> 256 ^ length bs * 256" using snoc by (intro mult_le_mono1) simp
  finally show ?case by (simp add: be_value_append be_value_def [of "[b]"])
qed (simp add: be_value_def)

lemma be_value_zeros [simp]: "be_value (replicate k 0 @ bs) = be_value bs"
  by (induction k) (simp_all add: be_value_def)

lemma be_bytes_value: "be_bytes (be_value bs) = dropWhile (\<lambda>b. b = 0) bs"
proof (induction bs rule: rev_induct)
  case (snoc b bs)
  have u: "unat b < 256" using unsigned_less [of b, where 'a = nat] by simp
  have v: "be_value (bs @ [b]) = be_value bs * 256 + unat b" by (simp add: be_value_append be_value_def [of "[b]"])
  show ?case
  proof (cases "be_value (bs @ [b]) = 0")
    case True
    then have "unat b = 0" "be_value bs = 0" using v by simp_all
    then have "b = 0" "dropWhile (\<lambda>b. b = 0) bs = []" using snoc by (simp_all add: unat_eq_zero be_bytes.simps)
    then show ?thesis using True by (simp add: be_bytes.simps dropWhile_append)
  next
    case False
    have w: "(word_of_nat (unat b) :: 8 word) = b" by simp
    have q: "(be_value bs * 256 + unat b) div 256 = be_value bs" "(be_value bs * 256 + unat b) mod 256 = unat b" using u by simp_all
    have "be_bytes (be_value (bs @ [b])) = be_bytes (be_value bs) @ [b]"
      using False by (subst be_bytes.simps) (simp only: v q if_False w)
    also have "\<dots> = dropWhile (\<lambda>b. b = 0) (bs @ [b])"
    proof (cases "dropWhile (\<lambda>b. b = 0) bs = []")
      case True
      then have "be_value bs = 0" using snoc by (metis append_is_Nil_conv be_bytes.simps list.distinct(1))
      then have "b \<noteq> 0" using False v by auto
      then show ?thesis using True snoc by (simp add: dropWhile_append)
    next
      case ne: False
      then show ?thesis using snoc by (auto simp: dropWhile_append)
    qed
    finally show ?thesis .
  qed
qed (simp add: be_value_def be_bytes.simps)

lemma replicate_takeWhile: "replicate (length (takeWhile (\<lambda>b. b = z) bs)) z @ dropWhile (\<lambda>b. b = z) bs = bs"
  by (induction bs) auto

lemma b58_decode_encode: "b58decode (b58encode bs) = Some bs"
  by (simp add: b58decode_def b58encode_def b58_value_ones b58_value_digits takeWhile_ones be_bytes_value replicate_takeWhile)

text \<open>Every string of the alphabet is the encoding of the bytes it decodes to.\<close>

lemma b58_value_less: "b58_value a s = Some n \<Longrightarrow> s \<noteq> [] \<Longrightarrow> hd s \<noteq> CHR ''1'' \<or> a \<noteq> 0 \<Longrightarrow>
    b58_digits n = (if a = 0 then [] else b58_digits a) @ s \<and> n \<noteq> 0"
proof (induction s arbitrary: n rule: rev_induct)
  case (snoc c s)
  obtain m v where m: "b58_value a s = Some m" and v: "index_of c B58_ALPHABET = Some v" and n: "n = m * 58 + v"
    using snoc.prems(1) by (auto simp: b58_value_append split: option.splits)
  have v58: "v < 58" "B58_ALPHABET ! v = c" using index_of_nth [OF v] length_alphabet by simp_all
  have step: "b58_digits n = b58_digits m @ [c]" if "n \<noteq> 0"
    using that v58 by (subst b58_digits.simps) (simp add: n)
  show ?case
  proof (cases "s = []")
    case True
    then have "m = a" using m by simp
    have "v \<noteq> 0 \<or> a \<noteq> 0" using snoc.prems(3) True v58 by (auto simp: B58_ALPHABET_def intro: gr0I)
    then have "n \<noteq> 0" using n \<open>m = a\<close> by auto
    with step \<open>m = a\<close> True show ?thesis by (simp add: b58_digits.simps [of 0])
  next
    case False
    with snoc.prems(3) snoc.IH [OF m] have "b58_digits m = (if a = 0 then [] else b58_digits a) @ s" "m \<noteq> 0" by auto
    then show ?thesis using step n by auto
  qed
qed simp

lemma b58_digits_value:
  assumes "b58_value 0 s = Some n"
  shows "replicate (length (takeWhile (\<lambda>c. c = CHR ''1'') s)) (CHR ''1'') @ b58_digits n = s"
proof -
  let ?r = "dropWhile (\<lambda>c. c = CHR ''1'') s" and ?k = "length (takeWhile (\<lambda>c. c = CHR ''1'') s)"
  have s: "replicate ?k (CHR ''1'') @ ?r = s" by (rule replicate_takeWhile)
  then have "b58_value 0 ?r = Some n" using assms b58_value_ones [of ?k ?r] by simp
  then have "b58_digits n = ?r"
  proof (cases "?r = []")
    case True
    with \<open>b58_value 0 ?r = Some n\<close> have "n = 0" by simp
    then show ?thesis unfolding True by (simp add: b58_digits.simps [of 0])
  next
    case False
    then have "hd ?r \<noteq> CHR ''1''" by (metis (mono_tags, lifting) hd_dropWhile)
    with b58_value_less [OF \<open>b58_value 0 ?r = Some n\<close> False] show ?thesis by simp
  qed
  then show ?thesis using s by simp
qed

lemma be_value_bytes: "be_value (be_bytes n) = n \<and> (n \<noteq> 0 \<longrightarrow> be_bytes n \<noteq> [] \<and> hd (be_bytes n) \<noteq> 0)"
proof (induction n rule: be_bytes.induct)
  case (1 n)
  show ?case
  proof (cases "n = 0")
    case False
    have u: "unat (word_of_nat (n mod 256) :: 8 word) = n mod 256" by (simp add: unat_of_nat take_bit_eq_mod)
    have e: "be_bytes n = be_bytes (n div 256) @ [word_of_nat (n mod 256)]" using False by (subst be_bytes.simps) simp
    have "be_value (be_bytes n) = n"
      using 1 [OF False] u by (simp add: e be_value_append be_value_def [of "[_]"])
    moreover have "hd (be_bytes n) \<noteq> 0"
    proof (cases "n div 256 = 0")
      case True
      then have "n mod 256 = n" by simp
      then show ?thesis using True False u e by (auto simp: be_bytes.simps [of 0])
    next
      case ne: False
      then show ?thesis using 1 [OF False] e by (simp add: hd_append)
    qed
    ultimately show ?thesis using e by simp
  qed (simp add: be_bytes.simps be_value_def)
qed

lemma b58_encode_decode: "b58decode s = Some bs \<Longrightarrow> b58encode bs = s"
proof -
  assume "b58decode s = Some bs"
  then obtain n where n: "b58_value 0 s = Some n"
    and bs: "bs = replicate (length (takeWhile (\<lambda>c. c = CHR ''1'') s)) 0 @ be_bytes n"
    by (auto simp: b58decode_def split: option.splits)
  let ?k = "length (takeWhile (\<lambda>c. c = CHR ''1'') s)"
  have "takeWhile (\<lambda>b. b = 0) (be_bytes n) = []"
    using be_value_bytes [of n] by (cases "n = 0") (auto simp: be_bytes.simps [of 0] takeWhile_eq_Nil_iff)
  then have "takeWhile (\<lambda>b. b = 0) bs = replicate ?k 0" unfolding bs by (subst takeWhile_append2) simp_all
  then show ?thesis using b58_digits_value [OF n] be_value_bytes [of n] by (simp add: b58encode_def bs)
qed

lemma b58_digits_length: "n < 58 ^ k \<Longrightarrow> length (b58_digits n) \<le> k"
proof (induction n arbitrary: k rule: b58_digits.induct)
  case (1 n)
  show ?case
  proof (cases "n = 0")
    case False
    then obtain k' where k: "k = Suc k'" using 1(2) by (cases k) auto
    then have "n div 58 < 58 ^ k'" using 1(2) by (simp add: less_mult_imp_div_less mult.commute)
    with 1(1) [OF False, of k'] False k show ?thesis by (subst b58_digits.simps) simp
  qed (simp add: b58_digits.simps)
qed

lemma b58_chars: "b58_value 0 s = Some n \<Longrightarrow> set s \<subseteq> set B58_ALPHABET"
proof -
  have "b58_value a s = Some n \<Longrightarrow> set s \<subseteq> set B58_ALPHABET" for a
  proof (induction s arbitrary: a)
    case (Cons c s)
    then show ?case by (auto split: option.splits dest!: index_of_nth)
  qed simp
  then show "b58_value 0 s = Some n \<Longrightarrow> set s \<subseteq> set B58_ALPHABET" .
qed

lemma js_trim_no_space: "\<forall>c\<in>set t. \<not> is_space c \<Longrightarrow> js_trim t = t"
proof -
  assume a: "\<forall>c\<in>set t. \<not> is_space c"
  then have "dropWhile is_space t = t" by (cases t) auto
  moreover have "dropWhile is_space (rev t) = rev t" using a by (cases "rev t") (auto dest: arg_cong [of "rev t" _ set])
  ultimately show ?thesis by (simp add: js_trim_def)
qed

text \<open>An address is a 37-byte string that starts with the version byte, so at most 51 characters long.\<close>

lemma address_text:
  assumes "length full = 37"
  shows "js_trim (b58encode full) = b58encode full" and "hd full = ADDRESS_VERSION \<Longrightarrow> \<not> hex_address (b58encode full)"
    and "b58encode full \<noteq> []"
proof -
  have "b58_value 0 (b58encode full) = Some (be_value full)" by (simp add: b58encode_def b58_value_ones b58_value_digits)
  then have "set (b58encode full) \<subseteq> set B58_ALPHABET" by (rule b58_chars)
  then show "js_trim (b58encode full) = b58encode full" using alphabet_chars by (intro js_trim_no_space) auto
  show "b58encode full \<noteq> []" using b58_decode_encode [of full] assms by (auto simp: b58decode_def be_bytes.simps [of 0])
  assume "hd full = ADDRESS_VERSION"
  then have "takeWhile (\<lambda>b. b = 0) full = []" using assms by (cases full) (auto simp: ADDRESS_VERSION_def)
  moreover have "be_value full < 58 ^ 51"
    using be_value_less [of full] assms by (rule_tac order.strict_trans2 [where b = "256 ^ 37"]) simp_all
  ultimately have "length (b58encode full) \<le> 51" using b58_digits_length by (simp add: b58encode_def)
  then show "\<not> hex_address (b58encode full)" by (auto simp: hex_address_def Let_def strip_0x_def)
qed

text \<open>
  C22: addresses round trip. For a key in hex form that decompresses, the address encodes and decodes to
  the canonical lower-case hex of the key; and an address (not hex) that decodes is, spaces aside, the
  very encoding of the key it decodes to, so a mistyped character never names another key unless the
  four checksum bytes collide.
\<close>

theorem address_roundtrip:
  assumes "\<forall>x. 4 \<le> length (sha x)"
  shows "(hex_address (js_trim h) \<longrightarrow> unpackPubkey (js_trim h) = Inr pt \<longrightarrow>
      (\<exists>a. encodeAddress sha h = Some a \<and>
         decodeAddress sha a = Inr (''0x'' @ map lower_char (strip_0x (js_trim h))))) \<and>
    (\<not> hex_address (js_trim s) \<longrightarrow> decodeAddress sha s = Inr k \<longrightarrow> encodeAddress sha k = Some (js_trim s))"
proof (intro conjI impI)
  assume hex: "hex_address (js_trim h)" and unp: "unpackPubkey (js_trim h) = Inr pt"
  obtain bs where bs: "length bs = 32" "hex_pairs (strip_0x (js_trim h)) = Some bs" using hex hex_address_pairs by blast
  let ?body = "ADDRESS_VERSION # bs"
  let ?full = "?body @ checksum4 sha ?body"
  have "4 \<le> length (sha (sha ?body))" using assms by blast
  then have len: "length ?full = 37" using bs(1) by (simp add: checksum4_def min_def)
  have enc: "encodeAddress sha h = Some (b58encode ?full)" using hex bs by (simp add: encodeAddress_def Let_def)
  have t: "take 33 ?full = ?body" "drop 33 ?full = checksum4 sha ?body" using bs(1) by simp_all
  note at = address_text [OF len]
  have "decodeAddress sha (b58encode ?full) = Inr (''0x'' @ hex_of_bytes bs)"
    using at(1) at(2) at(3) t unp unpack_bytes [OF bs(2,1)] len
    by (simp add: decodeAddress_def Let_def b58_decode_encode)
  then show "\<exists>a. encodeAddress sha h = Some a \<and> decodeAddress sha a = Inr (''0x'' @ map lower_char (strip_0x (js_trim h)))"
    using enc hex_pairs_lower [OF bs(2)] by simp
next
  assume nhex: "\<not> hex_address (js_trim s)" and dec: "decodeAddress sha s = Inr k"
  let ?v = "js_trim s"
  obtain bs where bs: "b58decode ?v = Some bs" "length bs = 37" "checksum4 sha (take 33 bs) = drop 33 bs"
    "take 33 bs ! 0 = ADDRESS_VERSION" and k: "k = ''0x'' @ hex_of_bytes (drop 1 (take 33 bs))"
    using dec nhex by (auto simp: decodeAddress_def Let_def split: option.splits if_splits sum.splits)
  let ?p = "drop 1 (take 33 bs)"
  have body: "take 33 bs = ADDRESS_VERSION # ?p"
    using bs(2,4) by (cases "take 33 bs") (auto simp: min_def)
  have plen: "length ?p = 32" using bs(2) by simp
  have digits: "\<forall>c\<in>set (hex_of_bytes ?p). \<not> is_space c"
  proof -
    have "\<not> is_space (hex_char x)" if "x < 16" for x using that by (auto simp: is_space_def hex_char_def)
    then show ?thesis by (auto simp: hex_of_bytes_def byte_hex_def)
        (metis byte_hex_def byte_hex_form list.inject)+
  qed
  then have trim: "js_trim k = k" unfolding k by (intro js_trim_no_space) (auto simp: is_space_def)
  have sk: "strip_0x k = hex_of_bytes ?p" unfolding k by (rule strip_0x_prefix)
  have "hex_address k" unfolding hex_address_pairs sk by (intro exI [of _ ?p] conjI plen) simp
  then have "encodeAddress sha k = Some (b58encode (take 33 bs @ drop 33 bs))"
    using trim bs(3) body sk by (simp add: encodeAddress_def Let_def)
  then show "encodeAddress sha k = Some ?v" using b58_encode_decode [OF bs(1)] by simp
qed

definition demo_sha :: "bytes \<Rightarrow> bytes" where
  "demo_sha bs = replicate 32 (word_of_nat (7 * be_value bs + 3))"

theorem address_roundtrip_witness:
  "\<exists>a. encodeAddress demo_sha (identity_hex 0) = Some a \<and>
     decodeAddress demo_sha a = Inr (''0x'' @ map lower_char (strip_0x (js_trim (identity_hex 0))))"
proof -
  have "\<forall>x. 4 \<le> length (demo_sha x)" by (simp add: demo_sha_def)
  note r = address_roundtrip [OF this]
  have "js_trim (identity_hex 0) = identity_hex 0" "hex_address (identity_hex 0)" by code_simp+
  then show ?thesis using r [of "identity_hex 0" "(0, 1)"] unpack_identity(1) by simp
qed

end
