(* ===== verification/Feed_Store.thy ===== *)
theory Feed_Store
  imports Mirror_Correct Envelope Js_Number
begin

text \<open>
  The event feed of the indexer: \<open>apps/indexer/src/disclosure.ts\<close> (the verdict on a published
  ciphertext run), \<open>apps/indexer/src/projection.ts\<close> (the feed entry of each operation) and
  \<open>apps/indexer/src/store.ts\<close> (the ordered feed, its pages, the alarm channel and the spent set).

  Decimal strings of field elements are the integers they print (printing and parsing are inverse),
  and the key \<open>txHash:logIndex\<close> is the pair of its parts.
\<close>

subsection \<open>Disclosure verdicts\<close>

datatype disclosure_status = Verified | Mismatch | Unverifiable | Withheld

record disclosure_result =
  dr_status :: disclosure_status
  dr_txHash :: string
  dr_startLeafIndex :: nat
  dr_emittedCount :: nat
  dr_receiverCount :: nat
  dr_recomputed :: int
  dr_expected :: int

definition verifyDisclosure :: "hash2 \<Rightarrow> int list \<Rightarrow> int \<Rightarrow> nat \<Rightarrow> string \<Rightarrow> nat \<Rightarrow> disclosure_result" where
  "verifyDisclosure h emitted onchainDH B txHash start =
     (let receiverCount = B * 4; recomputed = disclosureChain h emitted;
          status = (if length emitted = 0 then Withheld
                    else if recomputed = onchainDH then Verified
                    else if length emitted = receiverCount then Unverifiable
                    else Mismatch)
      in \<lparr>dr_status = status, dr_txHash = txHash, dr_startLeafIndex = start, dr_emittedCount = length emitted,
          dr_receiverCount = receiverCount, dr_recomputed = recomputed, dr_expected = onchainDH\<rparr>)"

definition verifyServedDisclosure :: "hash2 \<Rightarrow> int list \<Rightarrow> int \<Rightarrow> nat \<Rightarrow> string \<Rightarrow> nat \<Rightarrow> disclosure_result" where
  "verifyServedDisclosure h elements onchainDH B txHash start =
     (if length elements > 0 \<and> list_ex (\<lambda>x. x < 0 \<or> x \<ge> FIELD_PRIME) elements
      then \<lparr>dr_status = Mismatch, dr_txHash = txHash, dr_startLeafIndex = start, dr_emittedCount = length elements,
            dr_receiverCount = B * 4, dr_recomputed = 0, dr_expected = onchainDH\<rparr>
      else verifyDisclosure h elements onchainDH B txHash start)"

text \<open>
  The pairwise fold of the commitment run. The recursion of the code stops at a level of length one;
  the empty level, on which it would not stop, is never passed (a run of length zero is withheld).
\<close>

fun up_levels :: "hash2 \<Rightarrow> int list \<Rightarrow> int list" where
  "up_levels h level =
     (if length level \<le> 1 then level
      else up_levels h (map (\<lambda>j. h (level ! (2 * j)) (level ! (2 * j + 1))) [0..<length level div 2]))"

declare up_levels.simps [simp del]

record consumer_verdict =
  cv_result :: disclosure_result
  cv_leaves :: "int list option"

definition verdict_fail ::
  "string \<Rightarrow> nat \<Rightarrow> nat \<Rightarrow> nat \<Rightarrow> disclosure_status \<Rightarrow> int \<Rightarrow> int \<Rightarrow> consumer_verdict" where
  "verdict_fail txHash start emitted B status recomputed expected =
     \<lparr>cv_result = \<lparr>dr_status = status, dr_txHash = txHash, dr_startLeafIndex = start, dr_emittedCount = emitted,
                   dr_receiverCount = 4 * B, dr_recomputed = recomputed, dr_expected = expected\<rparr>,
      cv_leaves = None\<rparr>"

definition verifyConsumerDisclosure ::
  "hash2 \<Rightarrow> int list \<Rightarrow> int \<Rightarrow> int \<Rightarrow> nat \<Rightarrow> string \<Rightarrow> nat \<Rightarrow> consumer_verdict" where
  "verifyConsumerDisclosure h disclosure onchainDH subtreeRoot B txHash start =
     (let fail = verdict_fail txHash start (length disclosure) B in
      if length disclosure = 0 then fail Withheld 0 onchainDH
      else if length disclosure \<noteq> 6 * B then fail Unverifiable 0 onchainDH
      else if list_ex (\<lambda>x. x < 0 \<or> x \<ge> FIELD_PRIME) disclosure then fail Mismatch 0 onchainDH
      else let recomputed = disclosureChain h disclosure in
        if recomputed \<noteq> onchainDH then fail Mismatch recomputed onchainDH
        else let ls = take B (drop (5 * B) disclosure); root = up_levels h ls ! 0 in
          if root \<noteq> subtreeRoot then fail Mismatch root subtreeRoot
          else \<lparr>cv_result = \<lparr>dr_status = Verified, dr_txHash = txHash, dr_startLeafIndex = start,
                     dr_emittedCount = length disclosure, dr_receiverCount = 4 * B,
                     dr_recomputed = recomputed, dr_expected = onchainDH\<rparr>,
                cv_leaves = Some ls\<rparr>)"

subsection \<open>Feed entries\<close>

datatype event_kind =
    KDeposit | KTransfer | KTransfer10 | KTransfer10x2 | KDisburse | KWithdraw
  | KDepositPriv | KTransferPriv | KTransfer10x2Priv | KWithdrawPriv | KDisbursePriv

record slice =
  sl_offset :: nat
  sl_elts :: nat
  sl_leafIndex :: "nat option"

record announcement =
  an_recipient :: string
  an_ephemeralPub :: string
  an_viewTag :: nat

record disburse_anchor =
  da_disclosureHash :: int
  da_kemBinding :: int
  da_epoch :: nat
  da_recordedAt :: nat

record feed_draft =
  fe_txHash :: string
  fe_blockNumber :: nat
  fe_logIndex :: nat
  fe_kind :: event_kind
  fe_epoch :: "nat option"
  fe_ecdhPublicKey :: "point option"
  fe_encryptionNonce :: "int option"
  fe_slices :: "slice list"
  fe_ciphertext :: "int list"
  fe_disclosure :: "disclosure_result option"
  fe_announcement :: "announcement option"
  fe_viewTags :: "int list option"
  fe_kemCiphertexts :: "string list option"
  fe_batchId :: "nat option"
  fe_outputCommitments :: "int list option"
  fe_disburseAnchor :: "disburse_anchor option"

record feed_entry = feed_draft +
  fe_seq :: nat

record feed_position =
  at_txHash :: string
  at_blockNumber :: nat
  at_logIndex :: nat

text \<open>The inputs of the projection table, one constructor per arm.\<close>

datatype transfer_kind = PTransfer | PTransfer10 | PTransfer10x2
datatype consumer_kind = PDepositPriv | PTransferPriv | PTransfer10x2Priv

datatype op_projection =
    DepositRow
  | WithdrawRow "announcement option"
  | TransferRow transfer_kind nat point int "nat list" "int list" "int list"
  | ConsumerRow consumer_kind point int nat nat "int list" "int list" "string list"
  | WithdrawPrivRow point int nat "int list" "int list" "string list" "announcement option"
  | DisbursePrivRow point int nat nat "int list" disclosure_result

fun transfer_event :: "transfer_kind \<Rightarrow> event_kind" where
  "transfer_event PTransfer = KTransfer"
| "transfer_event PTransfer10 = KTransfer10"
| "transfer_event PTransfer10x2 = KTransfer10x2"

fun consumer_event :: "consumer_kind \<Rightarrow> event_kind" where
  "consumer_event PDepositPriv = KDepositPriv"
| "consumer_event PTransferPriv = KTransferPriv"
| "consumer_event PTransfer10x2Priv = KTransfer10x2Priv"

definition bare_entry :: "feed_position \<Rightarrow> event_kind \<Rightarrow> feed_draft" where
  "bare_entry at kind =
     \<lparr>fe_txHash = at_txHash at, fe_blockNumber = at_blockNumber at, fe_logIndex = at_logIndex at, fe_kind = kind,
      fe_epoch = None, fe_ecdhPublicKey = None, fe_encryptionNonce = None, fe_slices = [], fe_ciphertext = [],
      fe_disclosure = None, fe_announcement = None, fe_viewTags = None, fe_kemCiphertexts = None,
      fe_batchId = None, fe_outputCommitments = None, fe_disburseAnchor = None\<rparr>"

definition receiver_slice :: "nat \<Rightarrow> nat \<Rightarrow> slice" where
  "receiver_slice i leafIndex = \<lparr>sl_offset = i * 4, sl_elts = 4, sl_leafIndex = Some leafIndex\<rparr>"

fun projectFeedEntry :: "feed_position \<Rightarrow> op_projection \<Rightarrow> feed_draft" where
  "projectFeedEntry at DepositRow = bare_entry at KDeposit"
| "projectFeedEntry at (WithdrawRow announcement) = (bare_entry at KWithdraw)\<lparr>fe_announcement := announcement\<rparr>"
| "projectFeedEntry at (TransferRow kind epoch key nonce outs receiverCts authorityCt) =
     (bare_entry at (transfer_event kind))
       \<lparr>fe_epoch := Some epoch, fe_ecdhPublicKey := Some key, fe_encryptionNonce := Some nonce,
        fe_slices := map (\<lambda>i. receiver_slice i (outs ! i)) [0..<length outs] @
          [\<lparr>sl_offset = 4 * length outs, sl_elts = length authorityCt, sl_leafIndex = None\<rparr>],
        fe_ciphertext := receiverCts @ authorityCt\<rparr>"
| "projectFeedEntry at (ConsumerRow kind key nonce out0 out1 cts viewTags kemCts) =
     (bare_entry at (consumer_event kind))
       \<lparr>fe_ecdhPublicKey := Some key, fe_encryptionNonce := Some nonce,
        fe_slices := [\<lparr>sl_offset = 0, sl_elts = 4, sl_leafIndex = Some out0\<rparr>,
                      \<lparr>sl_offset = 4, sl_elts = 4, sl_leafIndex = Some out1\<rparr>],
        fe_ciphertext := cts, fe_viewTags := Some viewTags, fe_kemCiphertexts := Some kemCts\<rparr>"
| "projectFeedEntry at (WithdrawPrivRow key nonce change cts viewTags kemCts announcement) =
     (bare_entry at KWithdrawPriv)
       \<lparr>fe_ecdhPublicKey := Some key, fe_encryptionNonce := Some nonce,
        fe_slices := [\<lparr>sl_offset = 0, sl_elts = 4, sl_leafIndex = Some change\<rparr>],
        fe_ciphertext := cts, fe_viewTags := Some viewTags, fe_kemCiphertexts := Some kemCts,
        fe_announcement := announcement\<rparr>"
| "projectFeedEntry at (DisbursePrivRow key nonce start B disclosure verdict) =
     (let full = (length disclosure = 6 * B) in
      (bare_entry at KDisbursePriv)
       \<lparr>fe_ecdhPublicKey := Some key, fe_encryptionNonce := Some nonce,
        fe_slices := (if full then map (\<lambda>i. receiver_slice i (start + i)) [0..<B] else []),
        fe_ciphertext := take (4 * B) disclosure, fe_disclosure := Some verdict,
        fe_viewTags := (if full then Some (take B (drop (4 * B) disclosure)) else None),
        fe_outputCommitments := (if full then Some (take B (drop (5 * B) disclosure)) else None),
        fe_batchId := Some start\<rparr>)"

subsection \<open>The store\<close>

record feed_store =
  feed :: "feed_entry list"
  alarms :: "disclosure_result list"
  seen :: "(string \<times> nat) set"
  nullifierSet :: "int list"
  seq :: nat
  lastBlock :: int

definition new_store :: feed_store where
  "new_store = \<lparr>feed = [], alarms = [], seen = {}, nullifierSet = [], seq = 0, lastBlock = -1\<rparr>"

definition draft_key :: "'a feed_draft_scheme \<Rightarrow> string \<times> nat" where
  "draft_key e = (fe_txHash e, fe_logIndex e)"

definition addEvent :: "feed_store \<Rightarrow> feed_draft \<Rightarrow> feed_store \<times> feed_entry option" where
  "addEvent s e =
     (if draft_key e \<in> seen s then (s, None)
      else let entry = feed_draft.extend e \<lparr>fe_seq = seq s\<rparr>;
               s1 = s\<lparr>seen := insert (draft_key e) (seen s), seq := seq s + 1, feed := feed s @ [entry]\<rparr>
        in (case fe_disclosure e of
              Some d \<Rightarrow> if dr_status d \<noteq> Verified then s1\<lparr>alarms := alarms s1 @ [d]\<rparr> else s1
            | None \<Rightarrow> s1, Some entry))"

definition events :: "feed_store \<Rightarrow> int \<Rightarrow> nat \<Rightarrow> feed_entry list" where
  "events s cursor limit = take limit (filter (\<lambda>e. int (fe_seq e) > cursor) (feed s))"

record announcement_record =
  ar_seq :: nat
  ar_txHash :: string
  ar_blockNumber :: nat
  ar_recipient :: string
  ar_ephemeralPub :: string
  ar_viewTag :: nat

definition announcement_of :: "feed_entry \<Rightarrow> announcement_record option" where
  "announcement_of e =
     (if fe_kind e \<noteq> KWithdraw \<and> fe_kind e \<noteq> KWithdrawPriv then None
      else map_option (\<lambda>a. \<lparr>ar_seq = fe_seq e, ar_txHash = fe_txHash e, ar_blockNumber = fe_blockNumber e,
             ar_recipient = an_recipient a, ar_ephemeralPub = an_ephemeralPub a, ar_viewTag = an_viewTag a\<rparr>)
           (fe_announcement e))"

text \<open>The loop over the feed; the limit \<open>None\<close> is the default \<open>Infinity\<close>.\<close>

fun announcement_loop :: "int \<Rightarrow> nat option \<Rightarrow> feed_entry list \<Rightarrow> announcement_record list \<Rightarrow> announcement_record list" where
  "announcement_loop cursor limit [] out = out"
| "announcement_loop cursor limit (e # es) out =
     (case announcement_of e of
        None \<Rightarrow> announcement_loop cursor limit es out
      | Some r \<Rightarrow>
          if int (fe_seq e) \<le> cursor then announcement_loop cursor limit es out
          else if (case limit of None \<Rightarrow> False | Some n \<Rightarrow> length out \<ge> n) then out
          else announcement_loop cursor limit es (out @ [r]))"

definition announcements :: "feed_store \<Rightarrow> int \<Rightarrow> nat option \<Rightarrow> announcement_record list" where
  "announcements s cursor limit = announcement_loop cursor limit (feed s) []"

definition addNullifiers :: "feed_store \<Rightarrow> int list \<Rightarrow> feed_store" where
  "addNullifiers s nfs =
     fold (\<lambda>nf s. if nf \<noteq> 0 \<and> nf \<notin> set (nullifierSet s) then s\<lparr>nullifierSet := nullifierSet s @ [nf]\<rparr> else s) nfs s"

definition nullifiers :: "feed_store \<Rightarrow> int list" where
  "nullifiers s = nullifierSet s"

end
