(* ===== verification/Feed_Correct.thy ===== *)
theory Feed_Correct
  imports Feed_Store
begin

text \<open>
  The feed: first-sight deduplication and numbering, complete pages under growth, the alarm channel,
  the announcement pages; the slices of an entry tile its ciphertext; a consumer batch that passes
  its checks can be filled and every leaf of it is then served with a path to the root.
\<close>

subsection \<open>Appending to the feed\<close>

definition add_step :: "feed_store \<Rightarrow> feed_draft \<Rightarrow> feed_store \<times> unit option" where
  "add_step s e = (fst (addEvent s e), None)"

abbreviation add_run :: "feed_store \<Rightarrow> feed_draft list \<Rightarrow> feed_store" where
  "add_run s es \<equiv> fst (run_steps add_step s es)"

lemma add_run_simps:
  "run_steps add_step s [] = (s, None)"
  "run_steps add_step s (e # es) = run_steps add_step (fst (addEvent s e)) es"
  by (simp_all add: add_step_def)

lemma add_run_ok: "run_steps add_step s es = (add_run s es, None)"
  by (induction es arbitrary: s) (simp_all add: add_step_def)

interpretation store_replay: replay_safe add_step "\<lambda>s e. draft_key e \<in> seen s" "\<lambda>s. True" "\<lambda>e e'. True"
  by unfold_locales (auto simp: add_step_def addEvent_def Let_def split: if_splits option.splits)

definition alarm_of :: "feed_entry \<Rightarrow> disclosure_result option" where
  "alarm_of e = (case fe_disclosure e of Some d \<Rightarrow> if dr_status d \<noteq> Verified then Some d else None | None \<Rightarrow> None)"

definition store_ok :: "feed_store \<Rightarrow> bool" where
  "store_ok s \<longleftrightarrow> map fe_seq (feed s) = [0..<seq s] \<and> length (feed s) = seq s \<and>
     seen s = set (map draft_key (feed s)) \<and> alarms s = List.map_filter alarm_of (feed s)"

lemma extend_simps [simp]:
  "fe_seq (feed_draft.extend e \<lparr>fe_seq = n\<rparr>) = n"
  "draft_key (feed_draft.extend e \<lparr>fe_seq = n\<rparr>) = draft_key e"
  "fe_disclosure (feed_draft.extend e \<lparr>fe_seq = n\<rparr>) = fe_disclosure e"
  by (simp_all add: feed_draft.extend_def draft_key_def)

lemma feed_addEvent:
  "feed (fst (addEvent s e)) = feed s @ (if draft_key e \<in> seen s then [] else [feed_draft.extend e \<lparr>fe_seq = seq s\<rparr>])"
  by (auto simp: addEvent_def Let_def split: option.splits)

lemma addEvent_ok: "store_ok s \<Longrightarrow> store_ok (fst (addEvent s e))"
  by (auto simp: store_ok_def addEvent_def Let_def alarm_of_def map_filter_def split: option.splits)

lemma add_run_store_ok: "store_ok s \<Longrightarrow> store_ok (add_run s es)"
  by (induction es arbitrary: s) (simp_all add: addEvent_ok add_step_def)

lemma new_store_ok: "store_ok new_store"
  by (simp add: store_ok_def new_store_def map_filter_def)

lemma add_run_grows: "\<exists>fs. feed (add_run s es) = feed s @ fs"
  by (induction es arbitrary: s) (simp, metis add_run_simps(2) append.assoc feed_addEvent)

text \<open>The drafts a feed is made of: each key at its first occurrence.\<close>

fun first_sight :: "(string \<times> nat) set \<Rightarrow> feed_draft list \<Rightarrow> feed_draft list" where
  "first_sight ks [] = []"
| "first_sight ks (e # es) =
     (if draft_key e \<in> ks then first_sight ks es else e # first_sight (insert (draft_key e) ks) es)"

lemma addEvent_seen [simp]: "seen (fst (addEvent s e)) = insert (draft_key e) (seen s)"
  by (auto simp: addEvent_def Let_def split: option.splits)

lemma addEvent_seq: "seq (fst (addEvent s e)) = (if draft_key e \<in> seen s then seq s else Suc (seq s))"
  by (auto simp: addEvent_def Let_def split: option.splits)

lemma addEvent_replay: "draft_key e \<in> seen s \<Longrightarrow> fst (addEvent s e) = s"
  by (simp add: addEvent_def)

lemma add_run_first_sight:
  "feed (add_run s es) = feed s @
     map (\<lambda>(n, e). feed_draft.extend e \<lparr>fe_seq = n\<rparr>) (enumerate (seq s) (first_sight (seen s) es))"
  by (induction es arbitrary: s) (auto simp: feed_addEvent addEvent_seq insert_absorb addEvent_replay add_step_def)

subsection \<open>Pages\<close>

lemma filter_above:
  assumes "map f xs = [a..<b]"
  shows "filter (\<lambda>x. int (f x) > c) xs = drop (nat (c + 1 - int a)) xs"
  using assms
proof (induction xs arbitrary: a)
  case (Cons x xs)
  then have a: "f x = a" "a < b" and IH: "map f xs = [Suc a..<b]" by (cases "a < b"; simp add: upt_conv_Cons)+
  show ?case
  proof (cases "int a > c")
    case True
    then have "nat (c + 1 - int (Suc a)) = 0" "nat (c + 1 - int a) = 0" by auto
    with Cons.IH [OF IH] a True show ?thesis by simp
  next
    case False
    then have "nat (c + 1 - int a) = Suc (nat (c + 1 - int (Suc a)))" by auto
    with Cons.IH [OF IH] a False show ?thesis by simp
  qed
qed simp

lemma events_drop: "store_ok s \<Longrightarrow> events s c L = take L (drop (nat (c + 1)) (feed s))"
  unfolding events_def store_ok_def using filter_above [of fe_seq "feed s" 0 "seq s" c] by simp

lemma seq_last_page:
  assumes "store_ok s" "events s c L \<noteq> []"
  shows "fe_seq (last (events s c L)) = nat (c + 1) + length (events s c L) - 1"
proof -
  let ?k = "nat (c + 1)" and ?p = "events s c L"
  have p: "?p = take L (drop ?k (feed s))" using assms(1) by (rule events_drop)
  have "?k + length ?p - 1 < length (feed s)" using assms(2) unfolding p by (simp add: min_def; arith)
  moreover have "last ?p = feed s ! (?k + length ?p - 1)"
    using assms(2) unfolding p by (subst last_conv_nth) (auto simp: nth_append min_def)
  moreover have "fe_seq (feed s ! i) = i" if "i < length (feed s)" for i
  proof -
    have "fe_seq (feed s ! i) = map fe_seq (feed s) ! i" using that by simp
    also have "\<dots> = [0..<length (feed s)] ! i" using assms(1) unfolding store_ok_def by metis
    finally show ?thesis using that by simp
  qed
  ultimately show ?thesis by simp
qed

text \<open>
  Paging never skips or repeats. A client that read one page and comes back with the sequence
  number of its last entry gets, from the store as it has grown in between, exactly what one longer
  read of the grown store would have added; sequence numbers are positions.
\<close>

theorem feed_pages_resume:
  assumes "s = add_run new_store ds" and "s' = add_run s ds'" and "events s c L \<noteq> []"
  shows "events s' c (length (events s c L) + M) =
      events s c L @ events s' (int (fe_seq (last (events s c L)))) M \<and>
    map fe_seq (feed s') = [0..<length (feed s')]"
proof -
  have ok: "store_ok s" "store_ok s'" using assms(1,2) by (simp_all add: add_run_store_ok new_store_ok)
  obtain fs where fs: "feed s' = feed s @ fs" using add_run_grows [of s ds'] assms(2) by auto
  let ?p = "events s c L"
  have p: "?p = take L (drop (nat (c + 1)) (feed s))" by (rule events_drop [OF ok(1)])
  have len: "0 < length ?p" "length ?p \<le> length (feed s) - nat (c + 1)" using assms(3) unfolding p by (simp_all add: min_def)
  have next_cursor: "nat (int (fe_seq (last ?p)) + 1) = nat (c + 1) + length ?p"
    using seq_last_page [OF ok(1) assms(3)] len(1) by linarith
  have "take (length ?p) (drop (nat (c + 1)) (feed s')) = ?p"
    using len unfolding fs p by (simp add: min_def)
  moreover have "drop (length ?p) (drop (nat (c + 1)) (feed s')) = drop (nat (c + 1) + length ?p) (feed s')"
    by (simp only: drop_drop add.commute)
  ultimately have "events s' c (length ?p + M) = ?p @ events s' (int (fe_seq (last ?p))) M"
    by (simp only: events_drop [OF ok(2)] next_cursor take_add)
  then show ?thesis using ok(2) unfolding store_ok_def by metis
qed

definition demo_draft :: "string \<Rightarrow> nat \<Rightarrow> feed_draft" where
  "demo_draft tx i = projectFeedEntry \<lparr>at_txHash = tx, at_blockNumber = 7, at_logIndex = i\<rparr> DepositRow"

theorem feed_pages_resume_witness:
  "let s = add_run new_store [demo_draft ''a'' 0, demo_draft ''a'' 0, demo_draft ''a'' 1, demo_draft ''b'' 0];
       s' = add_run s [demo_draft ''c'' 0] in
     events s' (-1) 5 = events s (-1) 2 @ events s' (int (fe_seq (last (events s (-1) 2)))) 3"
proof -
  let ?s = "add_run new_store [demo_draft ''a'' 0, demo_draft ''a'' 0, demo_draft ''a'' 1, demo_draft ''b'' 0]"
  have "length (events ?s (-1) 2) = 2" by code_simp
  then have n: "events ?s (-1) 2 \<noteq> []" "length (events ?s (-1) 2) + 3 = 5" by auto
  from feed_pages_resume [OF refl refl n(1), of "[demo_draft ''c'' 0]" 3] show ?thesis
    unfolding Let_def n(2) by (rule conjunct1)
qed

text \<open>
  C24: the feed holds each logged operation once, at its first sight, numbered by position; the alarm
  channel is exactly the disclosures of the feed that did not verify, in feed order; and a log range
  that arrives again changes nothing.
\<close>

theorem feed_is_first_sight:
  "feed (add_run new_store ds) =
     map (\<lambda>(n, e). feed_draft.extend e \<lparr>fe_seq = n\<rparr>) (enumerate 0 (first_sight {} ds)) \<and>
   alarms (add_run new_store ds) = List.map_filter alarm_of (feed (add_run new_store ds)) \<and>
   add_run (add_run new_store ds) ds = add_run new_store ds"
proof -
  have "run_steps add_step (add_run new_store ds) ds = (add_run new_store ds, None)"
    by (rule store_replay.replay_converges [OF _ _ add_run_ok]) simp_all
  moreover have "store_ok (add_run new_store ds)" by (simp add: add_run_store_ok new_store_ok)
  moreover have "seen new_store = {}" "seq new_store = 0" "feed new_store = []" by (simp_all add: new_store_def)
  ultimately show ?thesis by (simp add: add_run_first_sight store_ok_def)
qed

subsection \<open>Announcements and the spent set\<close>

lemma announcement_loop_out:
  "announcement_loop c limit es out =
     (let rs = List.map_filter announcement_of (filter (\<lambda>e. int (fe_seq e) > c) es) in
      out @ (case limit of None \<Rightarrow> rs | Some n \<Rightarrow> take (n - length out) rs))"
proof (induction es arbitrary: out)
  case (Cons e es)
  show ?case
  proof (cases "announcement_of e")
    case (Some r)
    then show ?thesis using Cons [of out] Cons [of "out @ [r]"]
      by (cases limit) (auto simp: Let_def map_filter_simps take_Cons' Suc_diff_le)
  next
    case None
    then show ?thesis using Cons [of out] by (cases limit) (simp_all add: Let_def map_filter_simps)
  qed
qed (simp add: Let_def map_filter_simps split: option.splits)

lemma announcement_of_seq: "announcement_of e = Some r \<Longrightarrow> ar_seq r = fe_seq e"
  by (auto simp: announcement_of_def split: if_splits)

lemma addNullifiers_effect:
  "set (nullifierSet (addNullifiers s nfs)) = set (nullifierSet s) \<union> (set nfs - {0}) \<and>
   (distinct (nullifierSet s) \<longrightarrow> distinct (nullifierSet (addNullifiers s nfs)))"
  by (induction nfs arbitrary: s) (auto simp: addNullifiers_def)

text \<open>
  the announcements page is the first \<open>limit\<close> announcement-carrying withdraw entries past the
  cursor, in feed order. The spent set lists each nonzero nullifier once, and adding the
  nullifiers of a range again leaves it as it is.
\<close>

theorem announcements_and_nullifiers:
  "announcements s c limit =
     (let rs = List.map_filter announcement_of (filter (\<lambda>e. int (fe_seq e) > c) (feed s)) in
      case limit of None \<Rightarrow> rs | Some n \<Rightarrow> take n rs) \<and>
   set (nullifiers (addNullifiers s nfs)) = set (nullifiers s) \<union> (set nfs - {0}) \<and>
   addNullifiers (addNullifiers s nfs) nfs = addNullifiers s nfs"
proof -
  have keep: "addNullifiers s' nfs' = s'" if "set nfs' - {0} \<subseteq> set (nullifierSet s')" for s' nfs'
    using that by (induction nfs') (auto simp: addNullifiers_def)
  have "addNullifiers (addNullifiers s nfs) nfs = addNullifiers s nfs"
    by (rule keep) (use addNullifiers_effect [of s nfs] in blast)
  then show ?thesis
    using addNullifiers_effect [of s nfs] by (simp add: announcements_def announcement_loop_out nullifiers_def Let_def split: option.splits)
qed

subsection \<open>Slices\<close>

text \<open>The runs of a ciphertext its slices name.\<close>

definition slice_run :: "int list \<Rightarrow> slice \<Rightarrow> int list" where
  "slice_run ct sl = take (sl_elts sl) (drop (sl_offset sl) ct)"

text \<open>The lengths the pool's event types fix, per operation.\<close>

fun well_shaped :: "op_projection \<Rightarrow> bool" where
  "well_shaped (TransferRow kind epoch key nonce outs receiverCts authorityCt) \<longleftrightarrow> length receiverCts = 4 * length outs"
| "well_shaped (ConsumerRow kind key nonce out0 out1 cts viewTags kemCts) \<longleftrightarrow> length cts = 8"
| "well_shaped (WithdrawPrivRow key nonce change cts viewTags kemCts announcement) \<longleftrightarrow> length cts = 4"
| "well_shaped (DisbursePrivRow key nonce start B disclosure verdict) \<longleftrightarrow> length disclosure = 6 * B"
| "well_shaped _ \<longleftrightarrow> True"

fun output_leaves :: "op_projection \<Rightarrow> nat list" where
  "output_leaves (TransferRow kind epoch key nonce outs receiverCts authorityCt) = outs"
| "output_leaves (ConsumerRow kind key nonce out0 out1 cts viewTags kemCts) = [out0, out1]"
| "output_leaves (WithdrawPrivRow key nonce change cts viewTags kemCts announcement) = [change]"
| "output_leaves (DisbursePrivRow key nonce start B disclosure verdict) = [start..<start + B]"
| "output_leaves _ = []"

text \<open>
  For an operation of the shape its event type fixes, the slices of its feed entry tile the
  published ciphertext: read in order they give the whole run with nothing left out or read twice;
  every slice tied to a leaf holds four elements, and the leaves are the operation's outputs in order.
\<close>

theorem slices_tile_ciphertext:
  assumes "well_shaped p"
  shows "concat (map (slice_run (fe_ciphertext (projectFeedEntry at p))) (fe_slices (projectFeedEntry at p))) =
      fe_ciphertext (projectFeedEntry at p) \<and>
    List.map_filter sl_leafIndex (fe_slices (projectFeedEntry at p)) = output_leaves p \<and>
    list_all (\<lambda>sl. sl_leafIndex sl \<noteq> None \<longrightarrow> sl_elts sl = 4) (fe_slices (projectFeedEntry at p))"
proof (cases p)
  case (TransferRow kind epoch key nonce outs receiverCts authorityCt)
  with assms show ?thesis using pieces_concat [of receiverCts "length outs" 4 authorityCt]
    by (simp add: slice_run_def receiver_slice_def bare_entry_def map_filter_def o_def map_nth list_all_iff)
next
  case (ConsumerRow kind key nonce out0 out1 cts viewTags kemCts)
  with assms show ?thesis
    by (simp add: slice_run_def bare_entry_def map_filter_def list_all_iff)
next
  case (WithdrawPrivRow key nonce change cts viewTags kemCts announcement)
  with assms show ?thesis by (simp add: slice_run_def bare_entry_def map_filter_def)
next
  case (DisbursePrivRow key nonce start B disclosure verdict)
  with assms show ?thesis using pieces_concat [of "take (4 * B) disclosure" B 4 "[]"]
    by (simp add: slice_run_def receiver_slice_def bare_entry_def map_filter_def o_def list_all_iff Let_def
        min_def map_add_upt [symmetric] add.commute)
qed (simp_all add: bare_entry_def map_filter_def)

theorem slices_tile_ciphertext_witness:
  "concat (map (slice_run [1, 2, 3, 4, 5, 6, 7, 8, 9, 10])
      [\<lparr>sl_offset = 0, sl_elts = 4, sl_leafIndex = Some 20\<rparr>, \<lparr>sl_offset = 4, sl_elts = 4, sl_leafIndex = Some 31\<rparr>,
       \<lparr>sl_offset = 8, sl_elts = 2, sl_leafIndex = None\<rparr>]) = [1, 2, 3, 4, 5, 6, 7, 8, 9, 10]"
  using slices_tile_ciphertext [of "TransferRow PTransfer 1 (2, 3) 4 [20, 31] [1, 2, 3, 4, 5, 6, 7, 8] [9, 10]"
      "\<lparr>at_txHash = [], at_blockNumber = 0, at_logIndex = 0\<rparr>"]
  by (simp add: bare_entry_def receiver_slice_def upt_rec numeral_2_eq_2)

subsection \<open>Filling a consumer batch\<close>

lemma up_levels_pair_level: "length ls = 2 ^ k \<Longrightarrow> up_levels h ls = (pair_level h ^^ k) ls"
proof (induction k arbitrary: ls)
  case (Suc k)
  let ?up = "map (\<lambda>j. h (ls ! (2 * j)) (ls ! (2 * j + 1))) [0..<length ls div 2]"
  have "1 \<le> (2::nat) ^ k" "length ls = 2 * 2 ^ k" using Suc.prems by simp_all
  then have "\<not> length ls \<le> 1" by linarith
  then have "up_levels h ls = up_levels h ?up" by (subst up_levels.simps) simp
  also have "\<dots> = (pair_level h ^^ k) ?up" using Suc.prems by (intro Suc.IH) simp
  finally show ?case by (simp only: funpow_Suc_right o_apply pair_level_def [of h ls])
qed (simp add: up_levels.simps)

lemma consumer_leaves:
  assumes "cv_leaves (verifyConsumerDisclosure h es dh root B tx s) = Some ls"
  shows "length es = 6 * B \<and> ls = drop (5 * B) es \<and> length ls = B \<and> (\<forall>x\<in>set es. 0 \<le> x \<and> x < FIELD_PRIME) \<and>
    disclosureChain h es = dh \<and> up_levels h ls ! 0 = root \<and>
    dr_status (cv_result (verifyConsumerDisclosure h es dh root B tx s)) = Verified"
  using assms
  by (auto simp: verifyConsumerDisclosure_def Let_def verdict_fail_def list_ex_iff not_le not_less min_def
      split: if_splits)

lemma mirror_run_batchSize:
  assumes "new_mirror h H B = Inr m0" and "run_steps (mirror_step h) m0 es = (m, None)"
  shows "mB m = B"
proof -
  have "mB m0 = B" using assms(1) by (auto simp: new_mirror_def new_imt_def Let_def split: sum.splits if_splits)
  moreover have "0 < B" using calculation mirror_shape(4) [of h m0] new_mirror_ok [OF assms(1)] by (simp add: mirror_ok_def)
  ultimately show ?thesis using mirror_replay.good_run [of m0 B h es m] assms(2) by simp
qed

text \<open>
  C23: the verdict on a consumer batch is sound for serving it. When the checks hand out the leaves
  of a batch that the tree holds with the committed subtree root, filling the batch keeps every
  path below the frontier served, and the leaf at each position of the batch is the published
  commitment, with a path that folds it to the root.
\<close>

theorem consumer_fill_serves:
  assumes "new_mirror h H B = Inr m0" and "guarded_run h m0 es" and "run_steps (mirror_step h) m0 es = (m, None)"
    and "all_recorded m" and "B dvd s" and "s < mnext m" and "js_get (batchRoots m) (s div B) = Some root"
    and "cv_leaves (verifyConsumerDisclosure h pub dh root B tx s) = Some ls" and "i < B"
  shows "\<exists>siblings. path h (fillBatch m s ls Public) (s + i) =
      Inr (PathResult siblings (map (\<lambda>j. (s + i) div 2 ^ j mod 2) [0..<H]) (mroot m)) \<and>
    foldToRoot h (pub ! (5 * B + i)) siblings (s + i) = mroot m \<and>
    isPublicBatch (fillBatch m s ls Public) (s div B)"
proof -
  let ?m = "fillBatch m s ls Public"
  have ok: "mirror_ok h m" "height (tree m) = H" "mB m = B"
    using new_mirror_ok [OF assms(1)] mirror_run_ok [of h m0 es m] assms(2,3) mirror_run_batchSize [OF assms(1,3)] by auto
  have sh: "mB m = 2 ^ logB (tree m)" "0 < mB m" using mirror_shape(1,4) [of h m] ok(1) by (simp_all add: mirror_ok_def)
  from consumer_leaves [OF assms(8)] have ls: "length ls = B" "ls ! i = pub ! (5 * B + i)" "up_levels h ls ! 0 = root"
    using assms(9) by (auto simp: nth_append)
  then have "(pair_level h ^^ logB (tree m)) ls ! 0 = root"
    using up_levels_pair_level [of ls "logB (tree m)" h] sh(1) ok(3) by metis
  then have g: "guarded h m (EvFill s ls Public)" using assms(5-7) ls ok(3) by simp
  from fillBatch_ok [OF ok(1) g] have ok': "mirror_ok h ?m" "tree ?m = tree m" by auto
  have blk: "(s + i) div B = s div B" "(s + i - s) = i" using assms(5,9) by (auto elim!: dvdE)
  have lv: "js_get (leaves ?m) x = (if x div B = s div B then Some (ls ! (x - s)) else js_get (leaves m) x)" for x
    using assms(5) sh(2) ls(1) ok(3) in_block_iff [of B s x] by (auto simp: fillBatch_def Let_def js_get_set_run)
  have br: "batchRoots ?m = batchRoots m" "filled ?m = insert (s div B) (filled m)" using ok(3) by (simp_all add: fillBatch_def Let_def)
  have rec: "all_recorded ?m" using assms(4) lv ok' br(1) ok(3) by (auto simp: all_recorded_def split: if_splits)
  have "s + i < mnext m"
  proof -
    have "Suc (s div B) * B \<le> mnext m"
      using mirror_shape(1,6) [of h m] ok assms(7) by (auto simp: mirror_ok_def view_upto_def)
    then show ?thesis using assms(5,9) by (auto elim!: dvdE)
  qed
  moreover have "open_tags ?m ((s + i) div mB ?m) = None" using br blk ok(3) ok'(2) by (simp add: open_tags_def)
  ultimately obtain sib where "path h ?m (s + i) = Inr (PathResult sib (map (\<lambda>j. (s + i) div 2 ^ j mod 2) [0..<H]) (mroot m))"
    "foldToRoot h (leafValue ?m (s + i)) sib (s + i) = mroot m"
    using path_serves [OF ok'(1) rec, of "s + i"] ok' ok(2) by auto
  moreover have "leafValue ?m (s + i) = pub ! (5 * B + i)" using lv [of "s + i"] blk ls(2) by (simp add: leafValue_def)
  ultimately show ?thesis using ok(3) by (auto simp: isPublicBatch_def fillBatch_def Let_def)
qed

definition demo_fill_range :: "mirror_event list" where
  "demo_fill_range = take 5 demo_range"

definition demo_publication :: "int list" where
  "demo_publication = replicate 10 1 @ [7, 8]"

theorem consumer_fill_serves_witness:
  "let m = fst (run_steps (mirror_step demo_hash) demo_mirror demo_fill_range) in
     \<exists>siblings. path demo_hash (fillBatch m 2 [7, 8] Public) 3 =
       Inr (PathResult siblings (map (\<lambda>j. 3 div 2 ^ j mod 2) [0..<3]) (mroot m)) \<and>
       foldToRoot demo_hash 8 siblings 3 = mroot m"
proof -
  let ?m = "fst (run_steps (mirror_step demo_hash) demo_mirror demo_fill_range)"
  have "all_recorded ?m \<longleftrightarrow> (\<forall>x\<in>set [0..<mnext ?m]. tags ?m (x div mB ?m) = None \<longrightarrow>
      js_get (leaves ?m) x = None \<longrightarrow> log_view (leaf_log (tree ?m)) x = 0)"
    by (auto simp: all_recorded_def)
  moreover have "\<forall>x\<in>set [0..<mnext ?m]. tags ?m (x div mB ?m) = None \<longrightarrow>
      js_get (leaves ?m) x = None \<longrightarrow> log_view (leaf_log (tree ?m)) x = 0"
    and c: "2 < mnext ?m" "run_steps (mirror_step demo_hash) demo_mirror demo_fill_range = (?m, None)"
    "js_get (batchRoots ?m) (2 div 2) = Some 24" "guarded_run demo_hash demo_mirror demo_fill_range"
    "new_mirror demo_hash 3 2 = Inr demo_mirror"
    "cv_leaves (verifyConsumerDisclosure demo_hash demo_publication (disclosureChain demo_hash demo_publication) 24 2 [] 2) = Some [7, 8]"
    "demo_publication ! (5 * 2 + 1) = 8" by code_simp+
  ultimately have r: "all_recorded ?m" by blast
  have "(2::nat) dvd 2" "(1::nat) < 2" "(2::nat) + 1 = 3" by simp_all
  with consumer_fill_serves [OF c(5) c(4) c(2) r _ c(1) c(3) c(6), of 1] show ?thesis
    unfolding Let_def c(7) by metis
qed

end
