(* ===== verification/Kem_Chunks.thy ===== *)
theory Kem_Chunks
  imports Prelude Replay "HOL-Library.AList"
begin

text \<open>
  \<open>apps/indexer/src/kemchunks.ts\<close>, the chunked transport of a consumer batch's ML-KEM ciphertexts,
  and \<open>apps/indexer/src/modules.ts\<close>, the registry of operation modules whose logs are watched.

  A JavaScript \<open>Map\<close> is an association list in insertion order (\<open>AList.update\<close> is \<open>set\<close>). A method
  returns the state it leaves, also when it throws. The two tables of the database are association
  lists by their primary keys, and the statements of \<open>flushInto\<close> are written out on them; Keccak
  is the argument \<open>keccak\<close>.
\<close>

definition lower_ascii :: "char \<Rightarrow> char" where
  "lower_ascii c = (let n = of_char c :: nat in if 65 \<le> n \<and> n \<le> 90 then char_of (n + 32) else c)"

definition toLowerCase :: "string \<Rightarrow> string" where
  "toLowerCase s = map lower_ascii s"

definition KEM_CT_BYTES :: nat where
  "KEM_CT_BYTES = 1088"

subsection \<open>State\<close>

record kem_batch =
  kb_batchId :: nat
  kb_module :: string
  kb_txHash :: string
  kb_chunkHashes :: "string list"
  kb_batchTimestamp :: int
  kb_outputs :: nat
  kb_chunks :: "string option list"
  kb_acceptedOnChain :: "bool list"
  kb_chunkTxHashes :: "string option list"

record chunk_row =
  cr_batchId :: nat
  cr_chunkIndex :: nat
  cr_data :: "string option"
  cr_txHash :: "string option"

record kem_store =
  batches :: "(nat \<times> kem_batch) list"
  kseen :: "(string \<times> nat) set"
  pendingBatchRows :: "kem_batch list"
  pendingChunkRows :: "chunk_row list"

datatype kem_status = KComplete | KPending | KWithheld | KAcceptedUnassembled

record kem_projection =
  kp_status :: kem_status
  kp_chunkCount :: nat
  kp_acceptedCount :: nat
  kp_kemCiphertexts :: "string list option"

datatype kem_error = CorruptCalldata | BadAssembledLength | UnknownBatch

definition new_kem_store :: kem_store where
  "new_kem_store = \<lparr>batches = [], kseen = {}, pendingBatchRows = [], pendingChunkRows = []\<rparr>"

subsection \<open>Recording a batch and accepting chunks\<close>

record batch_args =
  ba_batchId :: nat
  ba_module :: string
  ba_txHash :: string
  ba_logIndex :: nat
  ba_chunkHashes :: "string list"
  ba_batchTimestamp :: int
  ba_outputs :: nat

definition batch_of_args :: "batch_args \<Rightarrow> kem_batch" where
  "batch_of_args a =
     (let K = length (ba_chunkHashes a) in
      \<lparr>kb_batchId = ba_batchId a, kb_module = toLowerCase (ba_module a), kb_txHash = ba_txHash a,
       kb_chunkHashes = map toLowerCase (ba_chunkHashes a), kb_batchTimestamp = ba_batchTimestamp a,
       kb_outputs = ba_outputs a, kb_chunks = replicate K None, kb_acceptedOnChain = replicate K False,
       kb_chunkTxHashes = replicate K None\<rparr>)"

definition recordBatch :: "kem_store \<Rightarrow> batch_args \<Rightarrow> kem_store" where
  "recordBatch s a =
     (let key = (ba_txHash a, ba_logIndex a) in
      if key \<in> kseen s \<or> map_of (batches s) (ba_batchId a) \<noteq> None then s
      else let batch = batch_of_args a in
        s\<lparr>kseen := insert key (kseen s), batches := AList.update (ba_batchId a) batch (batches s),
          pendingBatchRows := pendingBatchRows s @ [batch]\<rparr>)"

record chunk_args =
  ca_batchId :: nat
  ca_chunkIndex :: int
  ca_dataHex :: "string option"
  ca_txHash :: string
  ca_logIndex :: nat

definition accept_in :: "kem_batch \<Rightarrow> nat \<Rightarrow> string option \<Rightarrow> string \<Rightarrow> kem_batch" where
  "accept_in batch j data txHash =
     batch\<lparr>kb_acceptedOnChain := (kb_acceptedOnChain batch)[j := True],
           kb_chunks := (kb_chunks batch)[j := data],
           kb_chunkTxHashes := (kb_chunkTxHashes batch)[j := Some txHash]\<rparr>"

definition acceptChunk :: "(string \<Rightarrow> string) \<Rightarrow> kem_store \<Rightarrow> chunk_args \<Rightarrow> kem_store \<times> kem_error option" where
  "acceptChunk keccak s a =
     (let key = (ca_txHash a, ca_logIndex a) in
      if key \<in> kseen s then (s, None)
      else let s1 = s\<lparr>kseen := insert key (kseen s)\<rparr> in
        case map_of (batches s1) (ca_batchId a) of
          None \<Rightarrow> (s1, None)
        | Some batch \<Rightarrow>
            if ca_chunkIndex a < 0 \<or> ca_chunkIndex a \<ge> int (length (kb_chunkHashes batch)) then (s1, None)
            else let j = nat (ca_chunkIndex a) in
              if kb_acceptedOnChain batch ! j then (s1, None)
              else if (case ca_dataHex a of None \<Rightarrow> False
                       | Some d \<Rightarrow> toLowerCase (keccak d) \<noteq> kb_chunkHashes batch ! j)
              then (s1, Some CorruptCalldata)
              else (s1\<lparr>batches := AList.update (ca_batchId a) (accept_in batch j (ca_dataHex a) (ca_txHash a)) (batches s1),
                       pendingChunkRows := pendingChunkRows s1 @
                         [\<lparr>cr_batchId = ca_batchId a, cr_chunkIndex = j, cr_data = ca_dataHex a,
                           cr_txHash = Some (ca_txHash a)\<rparr>]\<rparr>, None))"

definition attachChunkData ::
  "(string \<Rightarrow> string) \<Rightarrow> kem_store \<Rightarrow> nat \<Rightarrow> nat \<Rightarrow> string \<Rightarrow> kem_store \<times> kem_error option" where
  "attachChunkData keccak s batchId j dataHex =
     (case map_of (batches s) batchId of
        None \<Rightarrow> (s, None)
      | Some batch \<Rightarrow>
          if \<not> (j < length (kb_acceptedOnChain batch) \<and> kb_acceptedOnChain batch ! j) \<or> kb_chunks batch ! j \<noteq> None
          then (s, None)
          else if toLowerCase (keccak dataHex) \<noteq> kb_chunkHashes batch ! j then (s, Some CorruptCalldata)
          else (s\<lparr>batches := AList.update batchId (batch\<lparr>kb_chunks := (kb_chunks batch)[j := Some dataHex]\<rparr>) (batches s),
                  pendingChunkRows := pendingChunkRows s @
                    [\<lparr>cr_batchId = batchId, cr_chunkIndex = j, cr_data = Some dataHex,
                      cr_txHash = kb_chunkTxHashes batch ! j\<rparr>]\<rparr>, None))"

subsection \<open>Reads\<close>

definition unassembled_of :: "kem_batch \<Rightarrow> (nat \<times> nat \<times> string option) list" where
  "unassembled_of batch =
     map (\<lambda>j. (kb_batchId batch, j, kb_chunkTxHashes batch ! j))
       (filter (\<lambda>j. kb_acceptedOnChain batch ! j \<and> kb_chunks batch ! j = None) [0..<length (kb_chunks batch)])"

definition unassembledAccepted :: "kem_store \<Rightarrow> (nat \<times> nat \<times> string option) list" where
  "unassembledAccepted s = concat (map (\<lambda>(k, batch). unassembled_of batch) (batches s))"

definition strip0x :: "string \<Rightarrow> string" where
  "strip0x h = (case h of c # d # r \<Rightarrow> if c = CHR ''0'' \<and> (d = CHR ''x'' \<or> d = CHR ''X'') then r else h | _ \<Rightarrow> h)"

definition assembled :: "kem_store \<Rightarrow> nat \<Rightarrow> kem_error + string list option" where
  "assembled s batchId =
     (case map_of (batches s) batchId of
        None \<Rightarrow> Inr None
      | Some batch \<Rightarrow>
          if list_ex (\<lambda>c. c = None) (kb_chunks batch) then Inr None
          else let all = concat (map (\<lambda>c. strip0x (the c)) (kb_chunks batch)); n = KEM_CT_BYTES * 2 in
            if length all \<noteq> kb_outputs batch * n then Inl BadAssembledLength
            else Inr (Some (map (\<lambda>i. ''0x'' @ take n (drop (i * n) all)) [0..<kb_outputs batch])))"

definition batch_status :: "kem_batch \<Rightarrow> int \<Rightarrow> int \<Rightarrow> kem_status" where
  "batch_status batch nowSeconds graceSeconds =
     (if list_all (\<lambda>c. c \<noteq> None) (kb_chunks batch) then KComplete
      else if list_all (\<lambda>a. a) (kb_acceptedOnChain batch) then KAcceptedUnassembled
      else if nowSeconds - kb_batchTimestamp batch > graceSeconds then KWithheld else KPending)"

definition status :: "kem_store \<Rightarrow> nat \<Rightarrow> int \<Rightarrow> int \<Rightarrow> kem_error + kem_status" where
  "status s batchId nowSeconds graceSeconds =
     (case map_of (batches s) batchId of
        None \<Rightarrow> Inl UnknownBatch
      | Some batch \<Rightarrow> Inr (batch_status batch nowSeconds graceSeconds))"

definition kem_project :: "kem_store \<Rightarrow> nat \<Rightarrow> int \<Rightarrow> int \<Rightarrow> kem_error + kem_projection option" where
  "kem_project s batchId nowSeconds graceSeconds =
     (case map_of (batches s) batchId of
        None \<Rightarrow> Inr None
      | Some batch \<Rightarrow>
          (case assembled s batchId of
             Inl e \<Rightarrow> Inl e
           | Inr cts \<Rightarrow>
               (case status s batchId nowSeconds graceSeconds of
                  Inl e \<Rightarrow> Inl e
                | Inr st \<Rightarrow> Inr (Some \<lparr>kp_status = st, kp_chunkCount = length (kb_chunkHashes batch),
                    kp_acceptedCount = length (filter (\<lambda>a. a) (kb_acceptedOnChain batch)), kp_kemCiphertexts = cts\<rparr>))))"

definition pendingModules :: "kem_store \<Rightarrow> string list" where
  "pendingModules s =
     remdups (map (\<lambda>(k, batch). kb_module batch) (filter (\<lambda>(k, batch). list_ex Not (kb_acceptedOnChain batch)) (batches s)))"

subsection \<open>The database\<close>

record batch_row =
  br_module :: string
  br_txHash :: string
  br_chunkHashes :: "string list"
  br_batchTimestamp :: int
  br_outputs :: nat

record kem_db =
  db_batches :: "(nat \<times> batch_row) list"
  db_chunks :: "((nat \<times> nat) \<times> string option \<times> string option) list"

definition empty_db :: kem_db where
  "empty_db = \<lparr>db_batches = [], db_chunks = []\<rparr>"

definition row_of_batch :: "kem_batch \<Rightarrow> batch_row" where
  "row_of_batch b = \<lparr>br_module = kb_module b, br_txHash = kb_txHash b, br_chunkHashes = kb_chunkHashes b,
     br_batchTimestamp = kb_batchTimestamp b, br_outputs = kb_outputs b\<rparr>"

text \<open>\<open>ON CONFLICT (batch_id) DO NOTHING\<close>\<close>

definition insert_batch :: "kem_db \<Rightarrow> kem_batch \<Rightarrow> kem_db" where
  "insert_batch db b =
     (if map_of (db_batches db) (kb_batchId b) \<noteq> None then db
      else db\<lparr>db_batches := db_batches db @ [(kb_batchId b, row_of_batch b)]\<rparr>)"

definition coalesce :: "'a option \<Rightarrow> 'a option \<Rightarrow> 'a option" where
  "coalesce x y = (case x of None \<Rightarrow> y | Some a \<Rightarrow> Some a)"

text \<open>\<open>ON CONFLICT (batch_id, chunk_index) DO UPDATE\<close> with \<open>COALESCE\<close>\<close>

definition upsert_chunk :: "kem_db \<Rightarrow> chunk_row \<Rightarrow> kem_db" where
  "upsert_chunk db c =
     (let key = (cr_batchId c, cr_chunkIndex c) in
      db\<lparr>db_chunks := AList.update key
           (case map_of (db_chunks db) key of
              None \<Rightarrow> (cr_data c, cr_txHash c)
            | Some (data, tx) \<Rightarrow> (coalesce (cr_data c) data, coalesce (cr_txHash c) tx)) (db_chunks db)\<rparr>)"

definition kem_flushInto :: "kem_store \<Rightarrow> kem_db \<Rightarrow> kem_db" where
  "kem_flushInto s db = fold (\<lambda>c db. upsert_chunk db c) (pendingChunkRows s)
     (fold (\<lambda>b db. insert_batch db b) (pendingBatchRows s) db)"

definition kem_commitFlush :: "kem_store \<Rightarrow> kem_store" where
  "kem_commitFlush s = s\<lparr>pendingBatchRows := [], pendingChunkRows := []\<rparr>"

definition batch_of_row :: "nat \<Rightarrow> batch_row \<Rightarrow> kem_batch" where
  "batch_of_row k r =
     (let K = length (br_chunkHashes r) in
      \<lparr>kb_batchId = k, kb_module = toLowerCase (br_module r), kb_txHash = br_txHash r,
       kb_chunkHashes = br_chunkHashes r, kb_batchTimestamp = br_batchTimestamp r, kb_outputs = br_outputs r,
       kb_chunks = replicate K None, kb_acceptedOnChain = replicate K False, kb_chunkTxHashes = replicate K None\<rparr>)"

definition boot_batch :: "kem_store \<Rightarrow> nat \<times> batch_row \<Rightarrow> kem_store" where
  "boot_batch s row = s\<lparr>batches := AList.update (fst row) (batch_of_row (fst row) (snd row)) (batches s)\<rparr>"

definition boot_chunk :: "kem_store \<Rightarrow> (nat \<times> nat) \<times> string option \<times> string option \<Rightarrow> kem_store" where
  "boot_chunk s row =
     (case row of ((k, j), data, tx) \<Rightarrow>
        (case map_of (batches s) k of
           None \<Rightarrow> s
         | Some batch \<Rightarrow> s\<lparr>batches := AList.update k
             (batch\<lparr>kb_acceptedOnChain := (kb_acceptedOnChain batch)[j := True], kb_chunks := (kb_chunks batch)[j := data],
                    kb_chunkTxHashes := (kb_chunkTxHashes batch)[j := tx]\<rparr>) (batches s)\<rparr>))"

definition kem_boot :: "kem_db \<Rightarrow> kem_store" where
  "kem_boot db = fold (\<lambda>r s. boot_chunk s r) (db_chunks db)
     (fold (\<lambda>r s. boot_batch s r) (db_batches db) new_kem_store)"

subsection \<open>The module registry\<close>

record module_registry =
  byAddress :: "(string \<times> bool) list"
  mseen :: "(string \<times> nat) set"
  pendingUpserts :: "(string \<times> bool) list"

datatype registry_error = DoubleRegistered | RemovedUnregistered

definition new_registry :: module_registry where
  "new_registry = \<lparr>byAddress = [], mseen = {}, pendingUpserts = []\<rparr>"

definition set_module :: "module_registry \<Rightarrow> string \<Rightarrow> bool \<Rightarrow> module_registry" where
  "set_module r addr registered =
     r\<lparr>byAddress := AList.update addr registered (byAddress r), pendingUpserts := pendingUpserts r @ [(addr, registered)]\<rparr>"

definition applyRegistered :: "module_registry \<Rightarrow> string \<Rightarrow> nat \<Rightarrow> string \<Rightarrow> module_registry \<times> registry_error option" where
  "applyRegistered r txHash logIndex module =
     (if (txHash, logIndex) \<in> mseen r then (r, None)
      else let r1 = r\<lparr>mseen := insert (txHash, logIndex) (mseen r)\<rparr>; addr = toLowerCase module in
        if map_of (byAddress r1) addr = Some True then (r1, Some DoubleRegistered)
        else (set_module r1 addr True, None))"

definition applyRemoved :: "module_registry \<Rightarrow> string \<Rightarrow> nat \<Rightarrow> string \<Rightarrow> module_registry \<times> registry_error option" where
  "applyRemoved r txHash logIndex module =
     (if (txHash, logIndex) \<in> mseen r then (r, None)
      else let r1 = r\<lparr>mseen := insert (txHash, logIndex) (mseen r)\<rparr>; addr = toLowerCase module in
        if map_of (byAddress r1) addr \<noteq> Some True then (r1, Some RemovedUnregistered)
        else (set_module r1 addr False, None))"

definition isRegistered :: "module_registry \<Rightarrow> string \<Rightarrow> bool" where
  "isRegistered r address \<longleftrightarrow> map_of (byAddress r) (toLowerCase address) = Some True"

definition isKnown :: "module_registry \<Rightarrow> string \<Rightarrow> bool" where
  "isKnown r address \<longleftrightarrow> map_of (byAddress r) (toLowerCase address) \<noteq> None"

definition watchAddresses :: "module_registry \<Rightarrow> string list \<Rightarrow> string list" where
  "watchAddresses r pendingKem = map fst (filter (\<lambda>(addr, registered). registered \<or> addr \<in> set pendingKem) (byAddress r))"

definition modules_flushInto :: "module_registry \<Rightarrow> (string \<times> bool) list \<Rightarrow> (string \<times> bool) list" where
  "modules_flushInto r rows = fold (\<lambda>(a, f) rows. AList.update a f rows) (pendingUpserts r) rows"

definition modules_commitFlush :: "module_registry \<Rightarrow> module_registry" where
  "modules_commitFlush r = r\<lparr>pendingUpserts := []\<rparr>"

definition modules_boot :: "(string \<times> bool) list \<Rightarrow> module_registry" where
  "modules_boot rows = fold (\<lambda>(a, f) r. r\<lparr>byAddress := AList.update (toLowerCase a) f (byAddress r)\<rparr>) rows new_registry"

end
