(* ===== verification/Kem_Correct.thy ===== *)
theory Kem_Correct
  imports Kem_Chunks
begin

text \<open>
  The chunk transport and the module registry: what is held in memory is what the database gives
  back after the next flush, over any interleaving of logs, re-fetches, commits and restarts; the
  bytes held match their commitments; assembly splits them back without loss; the watch set keeps
  every module that still owes chunks. Two methods mark a log as seen before they check it.
\<close>

subsection \<open>The tables, read back\<close>

lemma lower_ascii_idem [simp]: "lower_ascii (lower_ascii c) = lower_ascii c"
proof -
  have "of_char (char_of (n + 32) :: char) = n + 32" if "n \<le> 90" for n :: nat using that by simp
  then show ?thesis by (auto simp: lower_ascii_def Let_def)
qed

lemma toLowerCase_idem [simp]: "toLowerCase (toLowerCase s) = toLowerCase s"
  by (simp add: toLowerCase_def)

abbreviation row_accepted :: "('a \<times> 'b) option \<Rightarrow> bool" where
  "row_accepted r \<equiv> r \<noteq> None"

definition fill_batch :: "kem_batch \<Rightarrow> (nat \<Rightarrow> (string option \<times> string option) option) \<Rightarrow> kem_batch" where
  "fill_batch b f =
     b\<lparr>kb_acceptedOnChain := map (\<lambda>j. f j \<noteq> None) [0..<length (kb_chunkHashes b)],
       kb_chunks := map (\<lambda>j. case f j of None \<Rightarrow> None | Some (d, t) \<Rightarrow> d) [0..<length (kb_chunkHashes b)],
       kb_chunkTxHashes := map (\<lambda>j. case f j of None \<Rightarrow> None | Some (d, t) \<Rightarrow> t) [0..<length (kb_chunkHashes b)]\<rparr>"

definition db_view :: "kem_db \<Rightarrow> nat \<Rightarrow> kem_batch option" where
  "db_view db k = map_option (\<lambda>r. fill_batch (batch_of_row k r) (\<lambda>j. map_of (db_chunks db) (k, j))) (map_of (db_batches db) k)"

definition kem_batch_ok :: "(string \<Rightarrow> string) \<Rightarrow> kem_batch \<Rightarrow> bool" where
  "kem_batch_ok keccak b \<longleftrightarrow>
     (let K = length (kb_chunkHashes b) in length (kb_chunks b) = K \<and> length (kb_acceptedOnChain b) = K \<and>
        length (kb_chunkTxHashes b) = K) \<and>
     (\<forall>j d. j < length (kb_chunkHashes b) \<longrightarrow> kb_chunks b ! j = Some d \<longrightarrow>
        kb_acceptedOnChain b ! j \<and> toLowerCase (keccak d) = kb_chunkHashes b ! j)"

definition db_ok :: "(string \<Rightarrow> string) \<Rightarrow> kem_db \<Rightarrow> bool" where
  "db_ok keccak db \<longleftrightarrow> distinct (map fst (db_batches db)) \<and> distinct (map fst (db_chunks db)) \<and>
     (\<forall>k j. map_of (db_chunks db) (k, j) \<noteq> None \<longrightarrow> map_of (db_batches db) k \<noteq> None) \<and>
     (\<forall>k r. map_of (db_batches db) k = Some r \<longrightarrow> toLowerCase (br_module r) = br_module r) \<and>
     (\<forall>k b. db_view db k = Some b \<longrightarrow> kem_batch_ok keccak b)"

lemma fill_batch_hashes [simp]: "kb_chunkHashes (fill_batch b f) = kb_chunkHashes b"
  by (simp add: fill_batch_def)

lemma length_fill_batch [simp]:
  "length (kb_chunks (fill_batch b f)) = length (kb_chunkHashes b)"
  "length (kb_acceptedOnChain (fill_batch b f)) = length (kb_chunkHashes b)"
  "length (kb_chunkTxHashes (fill_batch b f)) = length (kb_chunkHashes b)"
  by (simp_all add: fill_batch_def)

lemma boot_batches_view:
  "distinct (map fst rows) \<Longrightarrow> map_of (batches (fold (\<lambda>r s. boot_batch s r) rows s)) k =
     (case map_of rows k of Some r \<Rightarrow> Some (batch_of_row k r) | None \<Rightarrow> map_of (batches s) k)"
proof (induction rows arbitrary: s)
  case (Cons r rows)
  then have "fst r = k \<Longrightarrow> map_of rows k = None" by (auto simp: map_of_eq_None_iff)
  with Cons show ?case by (auto simp: boot_batch_def update_conv' split: option.splits)
qed simp

lemma fill_batch_step:
  "fill_batch (b\<lparr>kb_acceptedOnChain := xs, kb_chunks := ys, kb_chunkTxHashes := zs\<rparr>) f = fill_batch b f"
  by (simp add: fill_batch_def)

lemma batch_eqI:
  fixes a b :: kem_batch
  assumes "kb_batchId a = kb_batchId b" "kb_module a = kb_module b" "kb_txHash a = kb_txHash b"
    "kb_chunkHashes a = kb_chunkHashes b" "kb_batchTimestamp a = kb_batchTimestamp b" "kb_outputs a = kb_outputs b"
    "kb_chunks a = kb_chunks b" "kb_acceptedOnChain a = kb_acceptedOnChain b" "kb_chunkTxHashes a = kb_chunkTxHashes b"
  shows "a = b"
  using assms by (cases a; cases b) simp

text \<open>Booting the chunk rows sets, in each batch, the slots that have a row.\<close>

definition overlay :: "(nat \<Rightarrow> (string option \<times> string option) option) \<Rightarrow> kem_batch \<Rightarrow> kem_batch" where
  "overlay f b =
     b\<lparr>kb_acceptedOnChain := map (\<lambda>j. f j \<noteq> None \<or> kb_acceptedOnChain b ! j) [0..<length (kb_acceptedOnChain b)],
       kb_chunks := map (\<lambda>j. case f j of None \<Rightarrow> kb_chunks b ! j | Some (d, t) \<Rightarrow> d) [0..<length (kb_chunks b)],
       kb_chunkTxHashes := map (\<lambda>j. case f j of None \<Rightarrow> kb_chunkTxHashes b ! j | Some (d, t) \<Rightarrow> t) [0..<length (kb_chunkTxHashes b)]\<rparr>"

lemma overlay_none: "overlay (\<lambda>j. None) b = b"
  by (rule batch_eqI) (simp_all add: overlay_def map_nth)

lemma overlay_set:
  assumes "f j = None"
  shows "overlay f (b\<lparr>kb_acceptedOnChain := (kb_acceptedOnChain b)[j := True], kb_chunks := (kb_chunks b)[j := d],
      kb_chunkTxHashes := (kb_chunkTxHashes b)[j := t]\<rparr>) = overlay (f(j := Some (d, t))) b"
  using assms by (intro batch_eqI) (auto simp: overlay_def nth_list_update split: option.splits)

lemma boot_chunk_batches:
  "map_of (batches (boot_chunk s ((k', j), d, t))) k = (if k = k'
     then map_option (\<lambda>b. b\<lparr>kb_acceptedOnChain := (kb_acceptedOnChain b)[j := True], kb_chunks := (kb_chunks b)[j := d],
       kb_chunkTxHashes := (kb_chunkTxHashes b)[j := t]\<rparr>) (map_of (batches s) k) else map_of (batches s) k)"
  by (auto simp: boot_chunk_def update_conv' split: option.splits)

lemma boot_chunks_view:
  "distinct (map fst rows) \<Longrightarrow> map_of (batches (fold (\<lambda>r s. boot_chunk s r) rows s)) k =
     map_option (overlay (\<lambda>j. map_of rows (k, j))) (map_of (batches s) k)"
proof (induction rows arbitrary: s)
  case Nil
  show ?case by (simp add: overlay_none option.map_ident)
next
  case (Cons r rows)
  obtain k' j d t where r: "r = ((k', j), d, t)" by (metis prod.exhaust)
  have none: "map_of rows (k', j) = None" using Cons.prems r by (simp add: map_of_eq_None_iff)
  have f: "(\<lambda>i. map_of (r # rows) (k, i)) = (if k = k' then (\<lambda>i. map_of rows (k, i))(j := Some (d, t)) else (\<lambda>i. map_of rows (k, i)))"
    using r by auto
  have "map_of (batches (fold (\<lambda>r s. boot_chunk s r) (r # rows) s)) k =
      map_option (overlay (\<lambda>i. map_of rows (k, i))) (map_of (batches (boot_chunk s ((k', j), d, t))) k)"
    using Cons r by simp
  also have "\<dots> = map_option (overlay (\<lambda>i. map_of (r # rows) (k, i))) (map_of (batches s) k)"
    unfolding boot_chunk_batches f using overlay_set [of "\<lambda>i. map_of rows (k', i)" j] none
    by (cases "map_of (batches s) k") auto
  finally show ?case .
qed

lemma boot_view:
  assumes "db_ok keccak db"
  shows "map_of (batches (kem_boot db)) k = db_view db k"
proof -
  have "overlay f (batch_of_row k r) = fill_batch (batch_of_row k r) f" for f r
    by (rule batch_eqI) (auto simp: overlay_def fill_batch_def batch_of_row_def Let_def split: option.splits)
  then show ?thesis using assms
    by (auto simp: kem_boot_def db_ok_def boot_chunks_view boot_batches_view db_view_def new_kem_store_def split: option.splits)
qed

subsection \<open>Every interleaving keeps memory and database together\<close>

datatype kem_op = RecordOp batch_args | AcceptOp chunk_args | AttachOp nat nat string | PersistOp | RestartOp

fun kem_step :: "(string \<Rightarrow> string) \<Rightarrow> kem_op \<Rightarrow> kem_store \<times> kem_db \<Rightarrow> kem_store \<times> kem_db" where
  "kem_step keccak (RecordOp a) (s, db) = (recordBatch s a, db)"
| "kem_step keccak (AcceptOp a) (s, db) = (fst (acceptChunk keccak s a), db)"
| "kem_step keccak (AttachOp k j d) (s, db) = (fst (attachChunkData keccak s k j d), db)"
| "kem_step keccak PersistOp (s, db) = (kem_commitFlush s, kem_flushInto s db)"
| "kem_step keccak RestartOp (s, db) = (kem_boot db, db)"

definition kem_inv :: "(string \<Rightarrow> string) \<Rightarrow> kem_store \<times> kem_db \<Rightarrow> bool" where
  "kem_inv keccak w \<longleftrightarrow> (case w of (s, db) \<Rightarrow>
     db_ok keccak db \<and> db_ok keccak (kem_flushInto s db) \<and> (\<forall>k. db_view (kem_flushInto s db) k = map_of (batches s) k))"

lemma insert_upsert_commute: "insert_batch (upsert_chunk db c) b = upsert_chunk (insert_batch db b) c"
  by (simp add: insert_batch_def upsert_chunk_def Let_def)

lemma insert_upserts_commute:
  "insert_batch (fold (\<lambda>c db. upsert_chunk db c) cs db) b = fold (\<lambda>c db. upsert_chunk db c) cs (insert_batch db b)"
  by (induction cs arbitrary: db) (simp_all add: insert_upsert_commute)

lemma flush_record:
  "kem_flushInto (s\<lparr>kseen := ks, batches := bs, pendingBatchRows := pendingBatchRows s @ [b]\<rparr>) db = insert_batch (kem_flushInto s db) b"
  by (simp add: kem_flushInto_def insert_upserts_commute)

lemma flush_chunk:
  "kem_flushInto (s\<lparr>kseen := ks, batches := bs, pendingChunkRows := pendingChunkRows s @ [c]\<rparr>) db = upsert_chunk (kem_flushInto s db) c"
  "kem_flushInto (s\<lparr>batches := bs, pendingChunkRows := pendingChunkRows s @ [c]\<rparr>) db = upsert_chunk (kem_flushInto s db) c"
  by (simp_all add: kem_flushInto_def)

lemma flush_seen [simp]: "kem_flushInto (s\<lparr>kseen := ks\<rparr>) db = kem_flushInto s db"
  by (simp add: kem_flushInto_def)

lemma flush_commit: "kem_flushInto (kem_commitFlush s) db = db"
  by (simp add: kem_flushInto_def kem_commitFlush_def)

lemma flush_boot: "kem_flushInto (kem_boot db) db' = db'"
proof -
  have b: "pendingBatchRows (fold (\<lambda>r s. boot_batch s r) rows s) = pendingBatchRows s \<and>
      pendingChunkRows (fold (\<lambda>r s. boot_batch s r) rows s) = pendingChunkRows s" for rows s
    by (induction rows arbitrary: s) (simp_all add: boot_batch_def)
  have c: "pendingBatchRows (fold (\<lambda>r s. boot_chunk s r) rows s) = pendingBatchRows s \<and>
      pendingChunkRows (fold (\<lambda>r s. boot_chunk s r) rows s) = pendingChunkRows s" for rows s
    by (induction rows arbitrary: s) (simp_all add: boot_chunk_def split: prod.splits option.splits)
  show ?thesis using b c by (simp add: kem_flushInto_def kem_boot_def new_kem_store_def)
qed

lemma view_insert:
  assumes "db_ok keccak db" and "map_of (db_batches db) (kb_batchId b) = None"
  shows "db_view (insert_batch db b) k = (if k = kb_batchId b
    then Some (fill_batch (batch_of_row k (row_of_batch b)) (\<lambda>j. None)) else db_view db k)"
proof -
  have "map_of (db_chunks db) (kb_batchId b, j) = None" for j using assms unfolding db_ok_def by blast
  then show ?thesis using assms(2) by (auto simp: db_view_def insert_batch_def map_add_def split: option.splits)
qed

lemma view_of_args:
  "fill_batch (batch_of_row (ba_batchId a) (row_of_batch (batch_of_args a))) (\<lambda>j. None) = batch_of_args a"
  by (intro batch_eqI) (auto simp: fill_batch_def batch_of_row_def row_of_batch_def batch_of_args_def Let_def
      map_replicate_const intro: nth_equalityI)

lemma args_batch_ok: "kem_batch_ok keccak (batch_of_args a)"
  by (simp add: kem_batch_ok_def batch_of_args_def Let_def)

lemma insert_maps:
  assumes "map_of (db_batches db) (kb_batchId b) = None"
  shows "map_of (db_batches (insert_batch db b)) = (map_of (db_batches db))(kb_batchId b \<mapsto> row_of_batch b)"
    "db_chunks (insert_batch db b) = db_chunks db"
    "map fst (db_batches (insert_batch db b)) = map fst (db_batches db) @ [kb_batchId b]"
  using assms by (auto simp: insert_batch_def map_add_def fun_eq_iff split: option.splits)

lemma insert_ok:
  assumes "db_ok keccak db" and "map_of (db_batches db) (ba_batchId a) = None"
  shows "db_ok keccak (insert_batch db (batch_of_args a))"
proof -
  have id: "kb_batchId (batch_of_args a) = ba_batchId a" by (simp add: batch_of_args_def Let_def)
  note v = view_insert [OF assms(1), of "batch_of_args a", unfolded id, OF assms(2)]
  have m: "br_module (row_of_batch (batch_of_args a)) = toLowerCase (ba_module a)"
    by (simp add: row_of_batch_def batch_of_args_def Let_def)
  have views: "\<forall>k b. db_view (insert_batch db (batch_of_args a)) k = Some b \<longrightarrow> kem_batch_ok keccak b"
    using assms(1) v view_of_args [of a] args_batch_ok [of keccak a] by (auto simp: db_ok_def)
  note ins = insert_maps [of db "batch_of_args a", unfolded id, OF assms(2)]
  have "ba_batchId a \<notin> set (map fst (db_batches db))" using assms(2) by (simp add: map_of_eq_None_iff)
  then have "distinct (map fst (db_batches db) @ [ba_batchId a])" "distinct (map fst (db_chunks db))"
    using assms(1) unfolding db_ok_def by simp_all
  moreover have "\<forall>k j. map_of (db_chunks db) (k, j) \<noteq> None \<longrightarrow>
      ((map_of (db_batches db))(ba_batchId a \<mapsto> row_of_batch (batch_of_args a))) k \<noteq> None"
    using assms(1) unfolding db_ok_def by (metis fun_upd_apply option.distinct(1))
  moreover have "\<forall>k r. ((map_of (db_batches db))(ba_batchId a \<mapsto> row_of_batch (batch_of_args a))) k = Some r \<longrightarrow>
      toLowerCase (br_module r) = br_module r"
    using assms(1) m unfolding db_ok_def by (metis fun_upd_apply option.inject toLowerCase_idem)
  ultimately show ?thesis using views unfolding db_ok_def ins by blast
qed

lemma view_upsert:
  assumes "map_of (db_batches db) (cr_batchId c) = Some r" and "j = cr_chunkIndex c"
    and "row = (case map_of (db_chunks db) (cr_batchId c, j) of None \<Rightarrow> (cr_data c, cr_txHash c)
      | Some (data, tx) \<Rightarrow> (coalesce (cr_data c) data, coalesce (cr_txHash c) tx))"
  shows "db_view (upsert_chunk db c) k = (if k = cr_batchId c
    then Some (fill_batch (batch_of_row k r) ((\<lambda>i. map_of (db_chunks db) (k, i))(j := Some row))) else db_view db k)"
  using assms by (auto simp: db_view_def upsert_chunk_def Let_def update_conv' fun_upd_def intro!: arg_cong [where f = "fill_batch _"])

lemma fill_step:
  assumes "j < length (kb_chunkHashes b)"
  shows "fill_batch b (f(j := Some (d, t))) =
    (fill_batch b f)\<lparr>kb_acceptedOnChain := (kb_acceptedOnChain (fill_batch b f))[j := True],
       kb_chunks := (kb_chunks (fill_batch b f))[j := d], kb_chunkTxHashes := (kb_chunkTxHashes (fill_batch b f))[j := t]\<rparr>"
  using assms by (intro batch_eqI) (auto simp: fill_batch_def nth_list_update intro!: nth_equalityI)

lemma upsert_chunks:
  "map_of (db_chunks (upsert_chunk db c)) = (map_of (db_chunks db))((cr_batchId c, cr_chunkIndex c) \<mapsto>
     (case map_of (db_chunks db) (cr_batchId c, cr_chunkIndex c) of None \<Rightarrow> (cr_data c, cr_txHash c)
      | Some (data, tx) \<Rightarrow> (coalesce (cr_data c) data, coalesce (cr_txHash c) tx)))"
  by (simp add: upsert_chunk_def Let_def update_conv')

lemma nth_fill_batch:
  assumes "j < length (kb_chunkHashes b)"
  shows "kb_acceptedOnChain (fill_batch b f) ! j = (f j \<noteq> None)"
    and "kb_chunks (fill_batch b f) ! j = (case f j of None \<Rightarrow> None | Some (d, t) \<Rightarrow> d)"
    and "kb_chunkTxHashes (fill_batch b f) ! j = (case f j of None \<Rightarrow> None | Some (d, t) \<Rightarrow> t)"
  using assms by (simp_all add: fill_batch_def)

lemma upsert_ok:
  assumes "db_ok keccak db" and "map_of (db_batches db) (cr_batchId c) \<noteq> None"
    and "\<And>b. db_view (upsert_chunk db c) (cr_batchId c) = Some b \<Longrightarrow> kem_batch_ok keccak b"
  shows "db_ok keccak (upsert_chunk db c)"
proof -
  have b: "db_batches (upsert_chunk db c) = db_batches db" by (simp add: upsert_chunk_def Let_def)
  have d: "distinct (map fst (db_chunks (upsert_chunk db c)))"
    using assms(1) by (simp add: upsert_chunk_def Let_def distinct_update db_ok_def)
  have known: "map_of (db_batches db) k \<noteq> None" if "map_of (db_chunks (upsert_chunk db c)) (k, j) \<noteq> None" for k j
  proof (cases "(k, j) = (cr_batchId c, cr_chunkIndex c)")
    case False
    then have "map_of (db_chunks db) (k, j) \<noteq> None" using that unfolding upsert_chunks by (subst (asm) fun_upd_other)
    then show ?thesis using assms(1) unfolding db_ok_def by blast
  qed (use assms(2) in blast)
  have "kem_batch_ok keccak b" if v: "db_view (upsert_chunk db c) k = Some b" for k b
  proof (cases "k = cr_batchId c")
    case False
    obtain r where "map_of (db_batches db) (cr_batchId c) = Some r" using assms(2) by blast
    from view_upsert [OF this refl refl] False v have "db_view db k = Some b" by simp
    then show ?thesis using assms(1) unfolding db_ok_def by blast
  qed (use assms(3) v in blast)
  with assms(1) d known show ?thesis unfolding db_ok_def b by blast
qed

lemma kem_inv_view: "kem_inv keccak (s, db) \<Longrightarrow> map_of (batches s) k = db_view (kem_flushInto s db) k"
  by (simp add: kem_inv_def)

lemma kem_inv_batch:
  assumes "kem_inv keccak (s, db)" and "map_of (batches s) k = Some b"
  obtains r where "map_of (db_batches (kem_flushInto s db)) k = Some r"
    "b = fill_batch (batch_of_row k r) (\<lambda>j. map_of (db_chunks (kem_flushInto s db)) (k, j))" "kem_batch_ok keccak b"
proof -
  let ?D = "kem_flushInto s db"
  have v: "db_view ?D k = Some b" and ok: "db_ok keccak ?D" using assms by (simp_all add: kem_inv_def)
  then have "kem_batch_ok keccak b" unfolding db_ok_def by blast
  then show thesis using v that by (auto simp: db_view_def)
qed

lemma record_inv:
  assumes "kem_inv keccak (s, db)"
  shows "kem_inv keccak (recordBatch s a, db)"
proof (cases "(ba_txHash a, ba_logIndex a) \<in> kseen s \<or> map_of (batches s) (ba_batchId a) \<noteq> None")
  case True
  then show ?thesis using assms by (auto simp: recordBatch_def)
next
  case False
  let ?D = "kem_flushInto s db" and ?b = "batch_of_args a"
  have ok: "db_ok keccak ?D" "db_ok keccak db" using assms by (simp_all add: kem_inv_def)
  have id: "kb_batchId ?b = ba_batchId a" by (simp add: batch_of_args_def Let_def)
  have none: "map_of (db_batches ?D) (ba_batchId a) = None"
    using False kem_inv_view [OF assms, of "ba_batchId a"] by (auto simp: db_view_def)
  have flush: "kem_flushInto (recordBatch s a) db = insert_batch ?D ?b"
    using False by (simp add: recordBatch_def flush_record Let_def)
  have "db_view (insert_batch ?D ?b) k = map_of (batches (recordBatch s a)) k" for k
    using view_insert [OF ok(1), of ?b, unfolded id, OF none] view_of_args [of a] kem_inv_view [OF assms, of k] False
    by (auto simp: recordBatch_def update_conv' Let_def)
  then show ?thesis using ok insert_ok [OF ok(1) none] by (simp add: kem_inv_def flush)
qed

lemma kem_batch_ok_set:
  assumes "kem_batch_ok keccak b" and "j < length (kb_chunkHashes b)"
    and "\<And>x. d = Some x \<Longrightarrow> toLowerCase (keccak x) = kb_chunkHashes b ! j"
  shows "kem_batch_ok keccak (b\<lparr>kb_acceptedOnChain := (kb_acceptedOnChain b)[j := True], kb_chunks := (kb_chunks b)[j := d],
    kb_chunkTxHashes := (kb_chunkTxHashes b)[j := t]\<rparr>)"
  using assms by (auto simp: kem_batch_ok_def Let_def nth_list_update)

lemma write_chunk_inv:
  assumes inv: "kem_inv keccak (s, db)" and b: "map_of (batches s) k = Some b" and j: "j < length (kb_chunkHashes b)"
    and data: "\<And>x. d = Some x \<Longrightarrow> toLowerCase (keccak x) = kb_chunkHashes b ! j"
    and row: "(case map_of (db_chunks (kem_flushInto s db)) (k, j) of None \<Rightarrow> (d, t)
      | Some (data, tx) \<Rightarrow> (coalesce d data, coalesce t tx)) = (d, t)"
    and s': "batches s' = AList.update k (b\<lparr>kb_acceptedOnChain := (kb_acceptedOnChain b)[j := True],
      kb_chunks := (kb_chunks b)[j := d], kb_chunkTxHashes := (kb_chunkTxHashes b)[j := t]\<rparr>) (batches s)"
    and flush: "kem_flushInto s' db = upsert_chunk (kem_flushInto s db) \<lparr>cr_batchId = k, cr_chunkIndex = j, cr_data = d, cr_txHash = t\<rparr>"
  shows "kem_inv keccak (s', db)"
proof -
  let ?D = "kem_flushInto s db" and ?c = "\<lparr>cr_batchId = k, cr_chunkIndex = j, cr_data = d, cr_txHash = t\<rparr>"
  obtain r where r: "map_of (db_batches ?D) k = Some r" and bf: "b = fill_batch (batch_of_row k r) (\<lambda>j. map_of (db_chunks ?D) (k, j))"
    and bok: "kem_batch_ok keccak b" by (rule kem_inv_batch [OF inv b])
  have ok: "db_ok keccak ?D" "db_ok keccak db" using inv by (simp_all add: kem_inv_def)
  have jr: "j < length (kb_chunkHashes (batch_of_row k r))" using j bf by simp
  have v: "db_view (upsert_chunk ?D ?c) i = (if i = k
      then Some (fill_batch (batch_of_row i r) ((\<lambda>x. map_of (db_chunks ?D) (i, x))(j := Some (d, t)))) else db_view ?D i)" for i
    using r row by (subst view_upsert [where r = r and j = j and row = "(d, t)"]) (simp_all split: option.splits prod.splits)
  have "db_view (upsert_chunk ?D ?c) i = map_of (batches s') i" for i
    using v [of i] r row fill_step [OF jr, of "\<lambda>j. map_of (db_chunks ?D) (k, j)" d t]
      kem_inv_view [OF inv, of i] bf by (auto simp: s' update_conv')
  moreover have "db_ok keccak (upsert_chunk ?D ?c)"
    using ok(1) r kem_batch_ok_set [OF bok j data] calculation [of k] by (intro upsert_ok) (auto simp: s' update_conv')
  ultimately show ?thesis using ok(2) by (simp add: kem_inv_def flush)
qed

lemma accept_inv:
  assumes inv: "kem_inv keccak (s, db)"
  shows "kem_inv keccak (fst (acceptChunk keccak s a), db)"
proof -
  have seen: "kem_inv keccak (s\<lparr>kseen := ks\<rparr>, db)" for ks using inv by (simp add: kem_inv_def)
  show ?thesis
  proof (cases "(ca_txHash a, ca_logIndex a) \<notin> kseen s \<and> (\<exists>b. map_of (batches s) (ca_batchId a) = Some b \<and>
      0 \<le> ca_chunkIndex a \<and> ca_chunkIndex a < int (length (kb_chunkHashes b)) \<and> \<not> kb_acceptedOnChain b ! nat (ca_chunkIndex a) \<and>
      (\<forall>x. ca_dataHex a = Some x \<longrightarrow> toLowerCase (keccak x) = kb_chunkHashes b ! nat (ca_chunkIndex a)))")
    case True
    then obtain b where b: "map_of (batches s) (ca_batchId a) = Some b" "0 \<le> ca_chunkIndex a"
      "ca_chunkIndex a < int (length (kb_chunkHashes b))" "\<not> kb_acceptedOnChain b ! nat (ca_chunkIndex a)"
      "\<And>x. ca_dataHex a = Some x \<Longrightarrow> toLowerCase (keccak x) = kb_chunkHashes b ! nat (ca_chunkIndex a)"
      "(ca_txHash a, ca_logIndex a) \<notin> kseen s" by blast
    let ?j = "nat (ca_chunkIndex a)" and ?D = "kem_flushInto s db"
    obtain r where bf: "b = fill_batch (batch_of_row (ca_batchId a) r) (\<lambda>j. map_of (db_chunks ?D) (ca_batchId a, j))"
      by (rule kem_inv_batch [OF inv b(1)])
    have none: "map_of (db_chunks ?D) (ca_batchId a, ?j) = None"
    proof -
      have "?j < length (kb_chunkHashes (batch_of_row (ca_batchId a) r))" using b(2,3) bf by simp
      from nth_fill_batch(1) [OF this] b(4) show ?thesis unfolding bf by blast
    qed
    have s': "fst (acceptChunk keccak s a) = s\<lparr>kseen := insert (ca_txHash a, ca_logIndex a) (kseen s),
        batches := AList.update (ca_batchId a) (accept_in b ?j (ca_dataHex a) (ca_txHash a)) (batches s),
        pendingChunkRows := pendingChunkRows s @ [\<lparr>cr_batchId = ca_batchId a, cr_chunkIndex = ?j,
          cr_data = ca_dataHex a, cr_txHash = Some (ca_txHash a)\<rparr>]\<rparr>"
      using b by (auto simp: acceptChunk_def Let_def split: option.splits)
    show ?thesis
      by (rule write_chunk_inv [OF inv b(1), of ?j "ca_dataHex a" "Some (ca_txHash a)"])
        (use b none in \<open>simp_all add: s' flush_chunk accept_in_def\<close>)
  next
    case False
    then have "fst (acceptChunk keccak s a) \<in> {s, s\<lparr>kseen := insert (ca_txHash a, ca_logIndex a) (kseen s)\<rparr>}"
      by (auto simp: acceptChunk_def Let_def split: option.splits)
    then show ?thesis using inv seen by auto
  qed
qed

lemma attach_inv:
  assumes inv: "kem_inv keccak (s, db)"
  shows "kem_inv keccak (fst (attachChunkData keccak s k j d), db)"
proof (cases "\<exists>b. map_of (batches s) k = Some b \<and> j < length (kb_acceptedOnChain b) \<and> kb_acceptedOnChain b ! j \<and>
    kb_chunks b ! j = None \<and> toLowerCase (keccak d) = kb_chunkHashes b ! j")
  case True
  then obtain b where b: "map_of (batches s) k = Some b" "j < length (kb_acceptedOnChain b)" "kb_acceptedOnChain b ! j"
    "kb_chunks b ! j = None" "toLowerCase (keccak d) = kb_chunkHashes b ! j" by blast
  let ?D = "kem_flushInto s db" and ?t = "kb_chunkTxHashes b ! j"
  obtain r where bf: "b = fill_batch (batch_of_row k r) (\<lambda>j. map_of (db_chunks ?D) (k, j))" and bok: "kem_batch_ok keccak b"
    by (rule kem_inv_batch [OF inv b(1)])
  have jl: "j < length (kb_chunkHashes b)" "length (kb_chunkTxHashes b) = length (kb_chunkHashes b)"
    using b(2) bok by (simp_all add: kem_batch_ok_def Let_def)
  then obtain x where x: "map_of (db_chunks ?D) (k, j) = Some (None, x)" "?t = x"
    using b(3,4) bf nth_fill_batch [of j "batch_of_row k r"] by (auto split: option.splits prod.splits)
  have upd: "b\<lparr>kb_chunks := (kb_chunks b)[j := Some d]\<rparr> = b\<lparr>kb_acceptedOnChain := (kb_acceptedOnChain b)[j := True],
      kb_chunks := (kb_chunks b)[j := Some d], kb_chunkTxHashes := (kb_chunkTxHashes b)[j := ?t]\<rparr>"
    using b(3) list_update_id [of "kb_acceptedOnChain b" j] by (intro batch_eqI) simp_all
  have s': "fst (attachChunkData keccak s k j d) = s\<lparr>batches := AList.update k (b\<lparr>kb_chunks := (kb_chunks b)[j := Some d]\<rparr>) (batches s),
      pendingChunkRows := pendingChunkRows s @ [\<lparr>cr_batchId = k, cr_chunkIndex = j, cr_data = Some d, cr_txHash = ?t\<rparr>]\<rparr>"
    using b by (simp add: attachChunkData_def)
  show ?thesis
    by (rule write_chunk_inv [OF inv b(1) jl(1), of "Some d" ?t]) (use b x upd in \<open>simp_all add: s' flush_chunk coalesce_def split: option.splits\<close>)
next
  case False
  then have "fst (attachChunkData keccak s k j d) = s" by (auto simp: attachChunkData_def split: option.splits)
  then show ?thesis using inv by simp
qed

lemma kem_step_inv: "kem_inv keccak w \<Longrightarrow> kem_inv keccak (kem_step keccak op w)"
proof (cases w)
  case (Pair s db)
  assume inv: "kem_inv keccak w"
  then have ok: "db_ok keccak db" "db_ok keccak (kem_flushInto s db)" using Pair by (simp_all add: kem_inv_def)
  have "kem_inv keccak (kem_boot db, db)" using ok boot_view [OF ok(1)] by (simp add: kem_inv_def flush_boot)
  moreover have "kem_inv keccak (kem_commitFlush s, kem_flushInto s db)"
    using inv ok Pair by (simp add: kem_inv_def flush_commit) (simp add: kem_commitFlush_def)
  ultimately show ?thesis using inv Pair by (cases op) (simp_all add: record_inv accept_inv attach_inv)
qed

lemma kem_run_inv: "kem_inv keccak (fold (kem_step keccak) ops (new_kem_store, empty_db))"
proof -
  have "kem_inv keccak w \<Longrightarrow> kem_inv keccak (fold (kem_step keccak) ops w)" for w
    by (induction ops arbitrary: w) (simp_all add: kem_step_inv)
  moreover have "kem_inv keccak (new_kem_store, empty_db)"
    by (simp add: kem_inv_def db_ok_def db_view_def kem_flushInto_def new_kem_store_def empty_db_def)
  ultimately show ?thesis .
qed

subsection \<open>Properties of the chunk store\<close>

text \<open>
  C16: memory and database never drift. After any interleaving of batch logs, chunk logs (also
  corrupt ones), re-fetches, commits and restarts, a restart right after the next flush gives back
  every batch exactly as it is held; every batch has its three slot lists of one length, and bytes
  are held only for a chunk accepted on chain, whose commitment they hash to.
\<close>

theorem kem_store_durable:
  assumes "fold (kem_step keccak) ops (new_kem_store, empty_db) = (s, db)"
  shows "map_of (batches (kem_boot (kem_flushInto s db))) k = map_of (batches s) k \<and>
    (case map_of (batches s) k of None \<Rightarrow> True | Some b \<Rightarrow> kem_batch_ok keccak b)"
proof -
  have inv: "kem_inv keccak (s, db)" using kem_run_inv [of keccak ops] assms by simp
  then have "db_ok keccak (kem_flushInto s db)" by (simp add: kem_inv_def)
  note view = boot_view [OF this, of k] kem_inv_view [OF inv, of k]
  show ?thesis
  proof (cases "map_of (batches s) k")
    case (Some b)
    then have "kem_batch_ok keccak b" by (rule kem_inv_batch [OF inv])
    with Some view show ?thesis by simp
  qed (use view in simp)
qed

definition demo_keccak :: "string \<Rightarrow> string" where
  "demo_keccak s = ''0x'' @ take 2 (rev s)"

definition demo_batch_args :: batch_args where
  "demo_batch_args = \<lparr>ba_batchId = 4, ba_module = ''0xAB'', ba_txHash = ''t'', ba_logIndex = 0,
     ba_chunkHashes = [''0x10'', ''0x32''], ba_batchTimestamp = 100, ba_outputs = 1\<rparr>"

definition demo_chunk_args :: "int \<Rightarrow> string option \<Rightarrow> nat \<Rightarrow> chunk_args" where
  "demo_chunk_args j d i = \<lparr>ca_batchId = 4, ca_chunkIndex = j, ca_dataHex = d, ca_txHash = ''u'', ca_logIndex = i\<rparr>"

definition demo_kem_ops :: "kem_op list" where
  "demo_kem_ops = [RecordOp demo_batch_args, AcceptOp (demo_chunk_args 0 None 0), PersistOp, RestartOp,
     AttachOp 4 0 ''0x01'', AcceptOp (demo_chunk_args 1 (Some ''0x23'') 1)]"

theorem kem_store_durable_witness:
  "let (s, db) = fold (kem_step demo_keccak) demo_kem_ops (new_kem_store, empty_db) in
     map_of (batches (kem_boot (kem_flushInto s db))) 4 = map_of (batches s) 4 \<and>
     map_option kb_chunks (map_of (batches s) 4) = Some [Some ''0x01'', Some ''0x23'']"
proof -
  obtain s db where r: "fold (kem_step demo_keccak) demo_kem_ops (new_kem_store, empty_db) = (s, db)" by fastforce
  have "map_option kb_chunks (map_of (batches (fst (fold (kem_step demo_keccak) demo_kem_ops (new_kem_store, empty_db)))) 4) =
      Some [Some ''0x01'', Some ''0x23'']" by code_simp
  then show ?thesis using kem_store_durable [OF r, of 4] by (simp add: r)
qed

text \<open>The chunk logs as replayable steps.\<close>

datatype kem_log = BatchLog batch_args | ChunkLog chunk_args

fun kem_log_step :: "(string \<Rightarrow> string) \<Rightarrow> kem_store \<Rightarrow> kem_log \<Rightarrow> kem_store \<times> kem_error option" where
  "kem_log_step keccak s (BatchLog a) = (recordBatch s a, None)"
| "kem_log_step keccak s (ChunkLog a) = acceptChunk keccak s a"

fun kem_log_applied :: "kem_store \<Rightarrow> kem_log \<Rightarrow> bool" where
  "kem_log_applied s (BatchLog a) \<longleftrightarrow> (ba_txHash a, ba_logIndex a) \<in> kseen s \<or> map_of (batches s) (ba_batchId a) \<noteq> None"
| "kem_log_applied s (ChunkLog a) \<longleftrightarrow> (ca_txHash a, ca_logIndex a) \<in> kseen s"

lemma kem_log_grows:
  assumes "kem_log_step keccak s e = (s', x)"
  shows "kseen s \<subseteq> kseen s' \<and> (map_of (batches s) k \<noteq> None \<longrightarrow> map_of (batches s') k \<noteq> None)"
  using assms by (cases e)
    (auto simp: recordBatch_def acceptChunk_def Let_def update_conv' split: if_splits option.splits)

interpretation kem_replay: replay_safe "kem_log_step keccak" kem_log_applied "\<lambda>s. True" "\<lambda>e e'. True" for keccak
proof unfold_locales
  fix s s' e e'
  show "kem_log_applied s e \<Longrightarrow> kem_log_step keccak s e = (s, None)"
    by (cases e) (auto simp: recordBatch_def acceptChunk_def Let_def)
  show "kem_log_step keccak s e = (s', None) \<Longrightarrow> kem_log_applied s' e"
    by (cases e) (auto simp: recordBatch_def acceptChunk_def Let_def update_conv' split: if_splits option.splits)
  show "kem_log_applied s e \<Longrightarrow> kem_log_step keccak s e' = (s', None) \<Longrightarrow> kem_log_applied s' e"
    using kem_log_grows [of keccak s e' s' None] by (cases e) (metis kem_log_applied.simps subsetD)+
qed simp

text \<open>
  C26: a chunk whose fetched bytes do not hash to the commitment is lost by the retry. The method
  throws so that the poll loop retries the range, but it has already marked the log as seen: every
  later call for that log, with correct bytes too, changes nothing, and the chunk stays unaccepted.
\<close>

theorem corrupt_chunk_lost:
  assumes "acceptChunk keccak s a = (s', Some e)" and "ca_txHash a' = ca_txHash a" and "ca_logIndex a' = ca_logIndex a"
  shows "acceptChunk keccak s' a' = (s', None) \<and> batches s' = batches s \<and> pendingChunkRows s' = pendingChunkRows s \<and>
    run_steps (kem_log_step keccak) s' (ChunkLog a' # ls) = run_steps (kem_log_step keccak) s' ls"
proof -
  have s': "s' = s\<lparr>kseen := insert (ca_txHash a, ca_logIndex a) (kseen s)\<rparr>"
    using assms(1) by (auto simp: acceptChunk_def Let_def split: if_splits option.splits)
  then have "kem_log_applied s' (ChunkLog a')" using assms(2,3) by simp
  from kem_replay.skip [OF TrueI this] show ?thesis by (simp add: s')
qed

theorem corrupt_chunk_lost_witness:
  "let s = recordBatch new_kem_store demo_batch_args; s' = fst (acceptChunk demo_keccak s (demo_chunk_args 0 (Some ''0x99'') 0)) in
     acceptChunk demo_keccak s' (demo_chunk_args 0 (Some ''0x01'') 0) = (s', None) \<and>
     map_option kb_acceptedOnChain (map_of (batches s') 4) = Some [False, False]"
proof -
  let ?s = "recordBatch new_kem_store demo_batch_args"
  let ?r = "acceptChunk demo_keccak ?s (demo_chunk_args 0 (Some ''0x99'') 0)"
  have "snd ?r = Some CorruptCalldata" and b: "map_option kb_acceptedOnChain (map_of (batches ?s) 4) = Some [False, False]"
    by code_simp+
  then have "?r = (fst ?r, Some CorruptCalldata)" by (metis prod.collapse)
  from corrupt_chunk_lost [OF this, of "demo_chunk_args 0 (Some ''0x01'') 0"] b show ?thesis
    by (simp add: demo_chunk_args_def Let_def)
qed

lemma strip_prefix [simp]: "strip0x (CHR ''0'' # CHR ''x'' # p) = p"
  by (simp add: strip0x_def)

text \<open>The split of a batch into ciphertexts: \<open>0x\<close> and 1088 bytes of hex each.\<close>

definition is_split :: "kem_batch \<Rightarrow> string list \<Rightarrow> bool" where
  "is_split b cts \<longleftrightarrow> length cts = kb_outputs b \<and>
     list_all (\<lambda>c. take 2 c = ''0x'' \<and> length (drop 2 c) = KEM_CT_BYTES * 2) cts \<and>
     concat (map (drop 2) cts) = concat (map (\<lambda>c. strip0x (the c)) (kb_chunks b))"

text \<open>
  C25: assembly is exact. The ciphertexts of a batch are handed out exactly when every chunk is held,
  which is when its status reads \<open>complete\<close>, and they are then the only list of as many entries of
  1088 bytes as the batch has outputs whose bytes, in order, are the chunks in order; when there is
  no such list the read throws.
\<close>

theorem assembly_exact:
  assumes "map_of (batches s) k = Some b"
  shows "(assembled s k = Inr (Some cts) \<longleftrightarrow> batch_status b t g = KComplete \<and> is_split b cts) \<and>
    (assembled s k = Inl e \<longleftrightarrow> batch_status b t g = KComplete \<and> (\<nexists>cts. is_split b cts) \<and> e = BadAssembledLength)"
proof -
  let ?n = "KEM_CT_BYTES * 2" and ?all = "concat (map (\<lambda>c. strip0x (the c)) (kb_chunks b))"
  let ?cut = "map (\<lambda>i. ''0x'' @ take ?n (drop (i * ?n) ?all)) [0..<kb_outputs b]"
  have full: "batch_status b t g = KComplete \<longleftrightarrow> \<not> list_ex (\<lambda>c. c = None) (kb_chunks b)"
    by (auto simp: batch_status_def list_all_iff list_ex_iff)
  have only: "length ?all = kb_outputs b * ?n \<and> cts = ?cut" if sp: "is_split b cts" for cts
  proof -
    have pre: "list_all (\<lambda>x. length x = ?n) (map (drop 2) cts)" and eq: "concat (map (drop 2) cts) = ?all"
      and len: "length cts = kb_outputs b" and hd: "list_all (\<lambda>c. take 2 c = ''0x'') cts"
      using sp unfolding is_split_def by (simp_all add: list_all_iff)
    have "map (\<lambda>i. take ?n (drop (i * ?n) ?all)) [0..<kb_outputs b] = map (drop 2) cts"
      using concat_pieces [OF pre] unfolding eq length_map len .
    then have "map ((@) ''0x'') (map (\<lambda>i. take ?n (drop (i * ?n) ?all)) [0..<kb_outputs b]) = map ((@) ''0x'') (map (drop 2) cts)"
      by (rule arg_cong)
    then have "?cut = map ((@) ''0x'') (map (drop 2) cts)" by (simp add: o_def)
    also have "\<dots> = map (\<lambda>c. c) cts" unfolding map_map
    proof (rule map_cong [OF refl])
      fix c assume "c \<in> set cts"
      then have "take 2 c = ''0x''" using hd unfolding list_all_iff by blast
      then show "((@) ''0x'' \<circ> drop 2) c = c" unfolding o_apply by (metis append_take_drop_id)
    qed
    also have "\<dots> = cts" by simp
    finally show ?thesis using length_concat_pieces [OF pre] len unfolding eq by simp
  qed
  have cut: "is_split b ?cut" if l: "length ?all = kb_outputs b * ?n"
  proof -
    have "length (take ?n (drop (i * ?n) ?all)) = ?n" if "i < kb_outputs b" for i
    proof -
      have "Suc i * ?n \<le> length ?all" unfolding l using that by (intro mult_le_mono1) simp
      then show ?thesis by simp
    qed
    moreover have "concat (map (drop 2) ?cut) = ?all" using pieces_concat [OF l, of "[]"] by (simp add: o_def)
    ultimately show ?thesis by (simp add: is_split_def list_all_iff)
  qed
  have "assembled s k = Inr (Some cts) \<longleftrightarrow> batch_status b t g = KComplete \<and> is_split b cts"
    using assms full only [of cts] cut by (auto simp: assembled_def Let_def)
  moreover have "assembled s k = Inl e \<longleftrightarrow> batch_status b t g = KComplete \<and> (\<nexists>cts. is_split b cts) \<and> e = BadAssembledLength"
    using assms full only cut by (auto simp: assembled_def Let_def)
  ultimately show ?thesis by blast
qed

definition demo_full_store :: kem_store where
  "demo_full_store = new_kem_store\<lparr>batches := [(4, (batch_of_args demo_batch_args)\<lparr>kb_acceptedOnChain := [True, True],
     kb_chunks := [Some (''0x'' @ replicate 1000 (CHR ''a'')), Some (''0X'' @ replicate 1176 (CHR ''b''))]\<rparr>)]\<rparr>"

theorem assembly_exact_witness:
  "assembled demo_full_store 4 = Inr (Some [''0x'' @ replicate 1000 (CHR ''a'') @ replicate 1176 (CHR ''b'')])"
proof -
  define b where "b = (batch_of_args demo_batch_args)\<lparr>kb_acceptedOnChain := [True, True],
     kb_chunks := [Some (''0x'' @ replicate 1000 (CHR ''a'')), Some (''0X'' @ replicate 1176 (CHR ''b''))]\<rparr>"
  have m: "map_of (batches demo_full_store) 4 = Some b" by (simp add: demo_full_store_def b_def)
  have "batch_status b 0 0 = KComplete" by (simp add: batch_status_def b_def)
  moreover have "is_split b [''0x'' @ replicate 1000 (CHR ''a'') @ replicate 1176 (CHR ''b'')]"
    by (simp add: is_split_def b_def batch_of_args_def demo_batch_args_def Let_def KEM_CT_BYTES_def strip0x_def)
  ultimately show ?thesis using assembly_exact [OF m] by blast
qed

subsection \<open>The module registry\<close>

datatype registry_event = Registered string nat string | Removed string nat string

fun registry_step :: "module_registry \<Rightarrow> registry_event \<Rightarrow> module_registry \<times> registry_error option" where
  "registry_step r (Registered tx i a) = applyRegistered r tx i a"
| "registry_step r (Removed tx i a) = applyRemoved r tx i a"

fun event_key :: "registry_event \<Rightarrow> string \<times> nat" where
  "event_key (Registered tx i a) = (tx, i)"
| "event_key (Removed tx i a) = (tx, i)"

fun event_addr :: "registry_event \<Rightarrow> string" where
  "event_addr (Registered tx i a) = toLowerCase a"
| "event_addr (Removed tx i a) = toLowerCase a"

fun is_registered :: "registry_event \<Rightarrow> bool" where
  "is_registered (Registered tx i a) \<longleftrightarrow> True"
| "is_registered (Removed tx i a) \<longleftrightarrow> False"

interpretation registry_replay: replay_safe registry_step "\<lambda>r e. event_key e \<in> mseen r" "\<lambda>r. True" "\<lambda>e e'. True"
proof unfold_locales
  fix r r' e e'
  show "event_key e \<in> mseen r \<Longrightarrow> registry_step r e = (r, None)"
    by (cases e) (auto simp: applyRegistered_def applyRemoved_def)
  show "registry_step r e = (r', None) \<Longrightarrow> event_key e \<in> mseen r'"
    by (cases e) (auto simp: applyRegistered_def applyRemoved_def set_module_def Let_def split: if_splits)
  show "event_key e \<in> mseen r \<Longrightarrow> registry_step r e' = (r', None) \<Longrightarrow> event_key e \<in> mseen r'"
    by (cases e') (auto simp: applyRegistered_def applyRemoved_def set_module_def Let_def split: if_splits)
qed simp

text \<open>The flag a stream leaves for an address: that of the last event naming it.\<close>

definition last_flag :: "registry_event list \<Rightarrow> string \<Rightarrow> bool option" where
  "last_flag es a = (let fs = filter (\<lambda>e. event_addr e = a) es in if fs = [] then None else Some (is_registered (last fs)))"

lemma last_flag_snoc: "last_flag (es @ [e]) a = (if event_addr e = a then Some (is_registered e) else last_flag es a)"
  by (auto simp: last_flag_def Let_def)

lemma registry_step_None:
  assumes "registry_step r e = (r', None)" and "event_key e \<notin> mseen r"
  shows "map_of (byAddress r') = (map_of (byAddress r))(event_addr e \<mapsto> is_registered e) \<and>
    pendingUpserts r' = pendingUpserts r @ [(event_addr e, is_registered e)] \<and>
    mseen r' = insert (event_key e) (mseen r) \<and>
    (map_of (byAddress r) (event_addr e) = Some True \<longleftrightarrow> \<not> is_registered e)"
  using assms by (cases e)
    (auto simp: applyRegistered_def applyRemoved_def set_module_def Let_def update_conv' split: if_splits)

lemma registry_run:
  assumes "run_steps registry_step new_registry es = (r, None)" and "distinct (map event_key es)"
  shows "map_of (byAddress r) = last_flag es \<and> mseen r = set (map event_key es) \<and>
    pendingUpserts r = map (\<lambda>e. (event_addr e, is_registered e)) es"
  using assms
proof (induction es arbitrary: r rule: rev_induct)
  case Nil
  then show ?case by (auto simp: new_registry_def last_flag_def)
next
  case (snoc e es)
  then obtain r1 where r1: "run_steps registry_step new_registry es = (r1, None)" "registry_step r1 e = (r, None)"
    by (auto simp: run_steps_append split: prod.splits option.splits)
  have IH: "map_of (byAddress r1) = last_flag es" "mseen r1 = set (map event_key es)"
    "pendingUpserts r1 = map (\<lambda>e. (event_addr e, is_registered e)) es" using snoc r1 by auto
  have "event_key e \<notin> mseen r1" using snoc.prems(2) IH by auto
  from registry_step_None [OF r1(2) this] IH show ?case by (auto simp: last_flag_snoc fun_eq_iff)
qed

lemma flush_modules:
  "map_of (fold (\<lambda>(a, f) rows. AList.update a f rows) ups rows) a =
     (case map_of (rev ups) a of None \<Rightarrow> map_of rows a | Some f \<Rightarrow> Some f)"
  by (induction ups arbitrary: rows) (auto simp: update_conv' map_add_def split: option.splits)

lemma boot_modules:
  "list_all (\<lambda>(a, f). toLowerCase a = a) rows \<Longrightarrow>
   map_of (byAddress (fold (\<lambda>(a, f) r. r\<lparr>byAddress := AList.update (toLowerCase a) f (byAddress r)\<rparr>) rows r)) a =
     (case map_of (rev rows) a of None \<Rightarrow> map_of (byAddress r) a | Some f \<Rightarrow> Some f)"
  by (induction rows arbitrary: r) (auto simp: update_conv' map_add_def split: option.splits)

lemma upsert_flags: "map_of (rev (map (\<lambda>e. (event_addr e, is_registered e)) es)) a = last_flag es a"
  by (induction es rule: rev_induct) (auto simp: last_flag_snoc, simp add: last_flag_def)

lemma flushed_modules_shape:
  assumes "list_all (\<lambda>(a, f). toLowerCase a = a) ups" and "list_all (\<lambda>(a, f). toLowerCase a = a) rows" and "distinct (map fst rows)"
  shows "list_all (\<lambda>(a, f). toLowerCase a = a) (fold (\<lambda>(a, f) rows. AList.update a f rows) ups rows) \<and>
    distinct (map fst (fold (\<lambda>(a, f) rows. AList.update a f rows) ups rows))"
  using assms
proof (induction ups arbitrary: rows)
  case (Cons u ups)
  obtain a f where u: "u = (a, f)" by fastforce
  have "list_all (\<lambda>(a, f). toLowerCase a = a) (AList.update a f rows)" using Cons.prems u
    by (induction rows) auto
  then show ?case using Cons u by (simp add: distinct_update)
qed simp

lemma event_addr_lower: "toLowerCase (event_addr e) = event_addr e"
  by (cases e) simp_all

text \<open>
  the registry mirrors the stream. After a stream that raised no error an address is registered
  exactly when the last event that names it is a registration, and known when some event names it;
  the watch set holds the registered modules and those
  removed ones the caller names as owing chunks; and a restart after the flush gives back the same
  flags.
\<close>

theorem registry_mirrors_stream:
  assumes "run_steps registry_step new_registry es = (r, None)" and "distinct (map event_key es)"
  shows "isRegistered r a = (last_flag es (toLowerCase a) = Some True) \<and>
    isKnown r a = (last_flag es (toLowerCase a) \<noteq> None) \<and>
    (x \<in> set (watchAddresses r pend)) = (last_flag es x = Some True \<or> last_flag es x \<noteq> None \<and> x \<in> set pend) \<and>
    map_of (byAddress (modules_boot (modules_flushInto r []))) = map_of (byAddress r)"
proof -
  note run = registry_run [OF assms]
  have dist: "distinct (map fst (byAddress r))"
  proof -
    have step: "distinct (map fst (byAddress r'))" if "registry_step r e = (r', x)" "distinct (map fst (byAddress r))" for r r' e x
      using that by (cases e)
        (auto simp: applyRegistered_def applyRemoved_def set_module_def Let_def distinct_update split: if_splits)
    have "distinct (map fst (byAddress r))" if "run_steps registry_step r0 es = (r, None)" "distinct (map fst (byAddress r0))" for r0 r es
      using that by (induction es arbitrary: r0) (auto split: prod.splits option.splits dest: step)
    from this [OF assms(1)] show ?thesis by (simp add: new_registry_def)
  qed
  have watch: "x \<in> set (watchAddresses r pend) \<longleftrightarrow> (\<exists>f. map_of (byAddress r) x = Some f \<and> (f \<or> x \<in> set pend))"
    by (auto simp: watchAddresses_def map_of_eq_Some_iff [OF dist] image_iff)
  let ?rows = "modules_flushInto r []"
  have ups: "list_all (\<lambda>(a, f). toLowerCase a = a) (pendingUpserts r)" using run by (simp add: list_all_iff event_addr_lower)
  have shape: "list_all (\<lambda>(a, f). toLowerCase a = a) ?rows" "distinct (map fst ?rows)"
    using flushed_modules_shape [OF ups] by (simp_all add: modules_flushInto_def)
  have "map_of (rev ?rows) a = map_of ?rows a" for a
    using shape(2) by (metis distinct_rev map_of_eq_Some_iff not_Some_eq rev_map set_rev)
  then have "map_of (byAddress (modules_boot ?rows)) a = map_of ?rows a" for a
    unfolding modules_boot_def boot_modules [OF shape(1)] by (simp add: new_registry_def split: option.splits)
  moreover have "map_of ?rows a = map_of (byAddress r) a" for a
    using run upsert_flags [of es a] by (simp add: modules_flushInto_def flush_modules split: option.splits)
  ultimately show ?thesis using run watch by (auto simp: isRegistered_def isKnown_def fun_eq_iff)
qed

theorem registry_mirrors_stream_witness:
  "let es = [Registered ''t'' 0 ''0xA'', Registered ''t'' 1 ''0xb'', Removed ''u'' 0 ''0xa''];
       r = fst (run_steps registry_step new_registry es) in
     \<not> isRegistered r ''0xA'' \<and> isKnown r ''0xA'' \<and> ''0xa'' \<in> set (watchAddresses r [''0xa''])"
proof -
  let ?es = "[Registered ''t'' 0 ''0xA'', Registered ''t'' 1 ''0xb'', Removed ''u'' 0 ''0xa'']"
  let ?r = "fst (run_steps registry_step new_registry ?es)"
  have "snd (run_steps registry_step new_registry ?es) = None" and d: "distinct (map event_key ?es)"
    and f: "last_flag ?es (toLowerCase ''0xA'') = Some False" "last_flag ?es ''0xa'' = Some False" by code_simp+
  then have "run_steps registry_step new_registry ?es = (?r, None)" by (metis prod.collapse)
  from registry_mirrors_stream [OF this d, of "''0xA''" "''0xa''" "[''0xa'']"] f show ?thesis by (simp only: Let_def) simp
qed

text \<open>
  A corrupt registry event stops the first pass only: it is marked as seen before the check, so the
  retry of the range accepts it silently.
\<close>

lemma registry_corruption_tolerated:
  "registry_step r e = (r', Some x) \<Longrightarrow> registry_step r' e = (r', None) \<and> byAddress r' = byAddress r"
  by (cases e) (auto simp: applyRegistered_def applyRemoved_def Let_def split: if_splits)

text \<open>A removed module is watched while a chunk of one of its batches is not accepted.\<close>

lemma pendingModules_iff:
  "m \<in> set (pendingModules s) \<longleftrightarrow> (\<exists>(k, b) \<in> set (batches s). kb_module b = m \<and> False \<in> set (kb_acceptedOnChain b))"
  by (force simp: pendingModules_def list_ex_iff)

end
