(* ===== verification/Ledger.thy ===== *)
theory Ledger
  imports Mirror_Tree Envelope Pubkey "HOL-Library.AList"
begin

text \<open>
  The arbiter's ledger: \<open>apps/indexer/src/ledger.ts\<close> (\<open>deriveOp\<close>, the whole cryptographic step, the
  activity history and the record helpers) and the class \<open>PostgresLedger\<close> of
  \<open>apps/indexer/src/postgres.ts\<close> (the read model).

  \<open>decaps\<close> is the ML-KEM library (\<open>None\<close> when it throws), \<open>hN\<close>, \<open>h\<close> and \<open>perm\<close> are Poseidon. The text of an
  alarm is the constructor of its \<open>detail\<close>, decimal strings are the integers they print and
  \<open>ownerKey\<close> is the pair it joins. A stored note is one mutable object that two maps and the
  write-behind buffer share: notes live in a heap and the maps hold positions in it. Ingest passes
  one on-chain leaf per output of the operation (none for a disburse, which has its batch).
\<close>

subsection \<open>Deriving one operation\<close>

datatype alarm_detail = DecapsFailed | BindingMismatch | BatchFoldMismatch nat | OutputMismatch nat nat

record envelope_alarm =
  ea_kind :: op_kind
  ea_txHash :: string
  ea_detail :: alarm_detail
  ea_recomputed :: int
  ea_expected :: int

datatype history_kind = HReceived | HSent | HWithdraw | HDeposit

record op_envelope =
  oe_kind :: op_kind
  oe_txHash :: string
  oe_logIndex :: nat
  oe_blockTimestamp :: nat
  oe_ecdhPublicKey :: point
  oe_nonce :: int
  oe_authorityCt :: "int list"
  oe_kem :: "(int \<times> bytes) option"
  oe_outputLeaves :: "(nat \<times> int) list"
  oe_batch :: "(nat \<times> int) option"

record derived_note =
  dn_owner :: point
  dn_value :: int
  dn_salt :: int
  dn_leafIndex :: nat
  dn_commitment :: int

record derived_history =
  dh_owner :: point
  dh_kind :: history_kind
  dh_counterparty :: "point option"
  dh_amount :: int

record derived_op =
  do_outputs :: "derived_note list"
  do_spent :: "int list"
  do_alarms :: "envelope_alarm list"
  do_batchFill :: "(nat \<times> int list) option"
  do_history :: "derived_history list"

datatype derive_error = NoKemKey | BadSecretLength | EcdhThrows | ShortEnvelope | NoBatch | MissingOutput | TreeThrows imt_error

definition history_item :: "point \<Rightarrow> history_kind \<Rightarrow> point option \<Rightarrow> int \<Rightarrow> derived_history" where
  "history_item owner kind counterparty amount =
     \<lparr>dh_owner = owner, dh_kind = kind, dh_counterparty = counterparty, dh_amount = amount\<rparr>"

definition transfer_history :: "envelope \<Rightarrow> derived_history list" where
  "transfer_history env =
     (let sender = env_owner (env_inputs env ! 0);
          nonzero = filter (\<lambda>o1. env_value o1 \<noteq> 0) (env_outputs env) in
      if length nonzero > 0 \<and> list_all (\<lambda>o1. env_owner o1 = sender) nonzero
      then [history_item sender HSent (Some sender) (env_value (nonzero ! 0)),
            history_item sender HReceived (Some sender) (env_value (nonzero ! 0))]
      else concat (map (\<lambda>o1. if env_value o1 \<noteq> 0 \<and> env_owner o1 \<noteq> sender
              then [history_item (env_owner o1) HReceived (Some sender) (env_value o1),
                    history_item sender HSent (Some (env_owner o1)) (env_value o1)]
              else []) (env_outputs env)))"

definition disburse_history :: "envelope \<Rightarrow> derived_history list" where
  "disburse_history env =
     (let sender = env_owner (env_inputs env ! 0);
          (out, paid) = fold (\<lambda>o1 (out, acc).
              if env_value o1 \<noteq> 0 \<and> env_owner o1 \<noteq> sender
              then (out @ [history_item (env_owner o1) HReceived (Some sender) (env_value o1)], acc + env_value o1)
              else (out, acc)) (env_outputs env) ([], 0)
      in if paid > 0 then out @ [history_item sender HSent None paid] else out)"

definition withdraw_history :: "envelope \<Rightarrow> derived_history list" where
  "withdraw_history env =
     (let owner = env_owner (env_inputs env ! 0);
          inSum = sum_list (map env_value (env_inputs env)); change = sum_list (map env_value (env_outputs env));
          withdrawn = inSum - change
      in if withdrawn > 0 then [history_item owner HWithdraw None withdrawn] else [])"

definition deriveHistory :: "op_kind \<Rightarrow> envelope \<Rightarrow> bool \<Rightarrow> derived_history list" where
  "deriveHistory kind env disburseCrossChecks =
     (case kind of
        Deposit \<Rightarrow> map (\<lambda>o1. history_item (env_owner o1) HDeposit None (env_value o1))
                     (filter (\<lambda>o1. env_value o1 \<noteq> 0) (env_outputs env))
      | Disburse \<Rightarrow> if disburseCrossChecks then disburse_history env else []
      | TransferOp \<Rightarrow> transfer_history env
      | Transfer10 \<Rightarrow> transfer_history env
      | Transfer10x2 \<Rightarrow> transfer_history env
      | WithdrawOp \<Rightarrow> withdraw_history env)"

definition op_alarm :: "op_envelope \<Rightarrow> alarm_detail \<Rightarrow> int \<Rightarrow> int \<Rightarrow> envelope_alarm" where
  "op_alarm op detail recomputed expected =
     \<lparr>ea_kind = oe_kind op, ea_txHash = oe_txHash op, ea_detail = detail, ea_recomputed = recomputed, ea_expected = expected\<rparr>"

text \<open>An operation withheld with one alarm.\<close>

definition withheld_op :: "envelope_alarm \<Rightarrow> derived_op" where
  "withheld_op a = \<lparr>do_outputs = [], do_spent = [], do_alarms = [a], do_batchFill = None, do_history = []\<rparr>"

text \<open>The KEM gate: \<open>Inl\<close> an exception, else the early result, or the limbs that feed the key.\<close>

datatype gate_result = NoKem | EarlyOp derived_op | KemLimbs "int \<times> int"

definition kemGate ::
  "hashN \<Rightarrow> (bytes \<Rightarrow> bytes \<Rightarrow> bytes option) \<Rightarrow> bytes option \<Rightarrow> op_envelope \<Rightarrow> derive_error + gate_result" where
  "kemGate hN decaps kemSecret op =
     (case oe_kem op of
        None \<Rightarrow> Inr NoKem
      | Some (binding, ciphertext) \<Rightarrow>
          (case kemSecret of
             None \<Rightarrow> Inl NoKemKey
           | Some secret \<Rightarrow>
               (case decaps ciphertext secret of
                  None \<Rightarrow> Inr (EarlyOp (withheld_op (op_alarm op DecapsFailed 0 binding)))
                | Some ss \<Rightarrow>
                    (case kemSsToLimbs ss of
                       None \<Rightarrow> Inl BadSecretLength
                     | Some limbs \<Rightarrow>
                         if kemBindingOf hN limbs \<noteq> binding
                         then Inr (EarlyOp (withheld_op (op_alarm op BindingMismatch (kemBindingOf hN limbs) binding)))
                         else Inr (KemLimbs limbs)))))"

definition note_commitment :: "hashN \<Rightarrow> env_note \<Rightarrow> int" where
  "note_commitment hN o1 = commitment hN (env_value o1) (env_salt o1) (env_owner o1)"

definition derived_of :: "env_note \<Rightarrow> nat \<Rightarrow> int \<Rightarrow> derived_note" where
  "derived_of o1 leafIndex c =
     \<lparr>dn_owner = env_owner o1, dn_value = env_value o1, dn_salt = env_salt o1, dn_leafIndex = leafIndex, dn_commitment = c\<rparr>"

text \<open>The cross-check of a disburse batch.\<close>

definition derive_batch ::
  "hash2 \<Rightarrow> hashN \<Rightarrow> nat \<Rightarrow> nat \<Rightarrow> op_envelope \<Rightarrow> envelope \<Rightarrow>
   derive_error + (derived_note list \<times> envelope_alarm list \<times> (nat \<times> int list) option \<times> bool)" where
  "derive_batch h hN B treeH op env =
     (case oe_batch op of
        None \<Rightarrow> Inl NoBatch
      | Some (start, subtreeRoot) \<Rightarrow>
          (let commits = map (note_commitment hN) (env_outputs env) in
           case new_imt h treeH B of
             Inl e \<Rightarrow> Inl (TreeThrows e)
           | Inr t \<Rightarrow>
               (case computeSubtreeRoot h t commits of
                  Inl e \<Rightarrow> Inl (TreeThrows e)
                | Inr sub \<Rightarrow>
                    if sub \<noteq> subtreeRoot
                    then Inr ([], [op_alarm op (BatchFoldMismatch start) sub subtreeRoot], None, False)
                    else if length (env_outputs env) < B then Inl MissingOutput
                    else Inr (map (\<lambda>i. derived_of (env_outputs env ! i) (start + i) (commits ! i)) [0..<B],
                              [], Some (start, commits), True))))"

text \<open>The cross-check of the outputs of the other kinds, in order, from output \<open>i\<close>.\<close>

fun derive_outputs ::
  "hashN \<Rightarrow> op_envelope \<Rightarrow> nat \<Rightarrow> env_note list \<Rightarrow> (nat \<times> int) list \<Rightarrow> derive_error + (derived_note list \<times> envelope_alarm list)" where
  "derive_outputs hN op i outs [] = Inr ([], [])"
| "derive_outputs hN op i [] (l # ls) = Inl MissingOutput"
| "derive_outputs hN op i (o1 # outs) ((leafIndex, known) # ls) =
     (case derive_outputs hN op (Suc i) outs ls of
        Inl e \<Rightarrow> Inl e
      | Inr (notes', alarms) \<Rightarrow>
          (let c = note_commitment hN o1 in
           if c \<noteq> known then Inr (notes', op_alarm op (OutputMismatch i leafIndex) c known # alarms)
           else Inr (derived_of o1 leafIndex c # notes', alarms)))"

text \<open>
  A ciphertext too short for its kind leaves fields of the parse undefined, and hashing the last
  output throws.
\<close>

definition short_envelope :: "op_kind \<Rightarrow> nat \<Rightarrow> int list \<Rightarrow> bool" where
  "short_envelope kind B ct \<longleftrightarrow> 3 * (length ct div 3) < envelopePlaintextLen kind B"

definition deriveOp ::
  "hash2 \<Rightarrow> hashN \<Rightarrow> perm4 \<Rightarrow> (bytes \<Rightarrow> bytes \<Rightarrow> bytes option) \<Rightarrow> int \<Rightarrow> bytes option \<Rightarrow> nat \<Rightarrow> nat \<Rightarrow> op_envelope \<Rightarrow>
   derive_error + derived_op" where
  "deriveOp h hN perm decaps arbiterPriv kemSecret B treeH op =
     (case kemGate hN decaps kemSecret op of
        Inl e \<Rightarrow> Inl e
      | Inr (EarlyOp d) \<Rightarrow> Inr d
      | Inr gate \<Rightarrow>
          (case parseEnvelope hN perm arbiterPriv (oe_ecdhPublicKey op) (oe_nonce op) (oe_authorityCt op) (oe_kind op) B
                  (case gate of KemLimbs limbs \<Rightarrow> Some limbs | _ \<Rightarrow> None) of
             None \<Rightarrow> Inl EcdhThrows
           | Some env \<Rightarrow>
               if short_envelope (oe_kind op) B (oe_authorityCt op) then Inl ShortEnvelope
               else
               (case (if oe_kind op = Disburse then derive_batch h hN B treeH op env
                      else (case derive_outputs hN op 0 (env_outputs env) (oe_outputLeaves op) of
                              Inl e \<Rightarrow> Inl e
                            | Inr (outputs, alarms) \<Rightarrow> Inr (outputs, alarms, None, False))) of
                  Inl e \<Rightarrow> Inl e
                | Inr (outputs, alarms, batchFill, checked) \<Rightarrow>
                    Inr \<lparr>do_outputs = outputs, do_spent = map (note_commitment hN) (env_inputs env), do_alarms = alarms,
                         do_batchFill = batchFill, do_history = deriveHistory (oe_kind op) env checked\<rparr>)))"

subsection \<open>The read model\<close>

record ledger_note =
  ln_owner :: point
  ln_value :: int
  ln_salt :: int
  ln_leafIndex :: nat
  ln_commitment :: int
  ln_txHash :: string
  ln_spent :: bool

record history_entry =
  he_kind :: history_kind
  he_counterparty :: "string option"
  he_amount :: int
  he_txHash :: string
  he_blockTimestamp :: nat
  he_seq :: nat

record ledger =
  note_heap :: "ledger_note list"
  byOwner :: "(point \<times> nat list) list"
  byCommitment :: "(int \<times> nat) list"
  historyByOwner :: "(point \<times> history_entry list) list"
  env_alarms :: "envelope_alarm list"
  applied_ops :: "(string \<times> nat) set"
  historySeq :: nat
  pendingNotes :: "nat list"
  pendingSpent :: "int list"
  pendingHistory :: "(point \<times> history_entry) list"
  pendingAlarms :: "envelope_alarm list"
  pendingApplied :: "(string \<times> nat) list"

definition new_ledger :: ledger where
  "new_ledger = \<lparr>note_heap = [], byOwner = [], byCommitment = [], historyByOwner = [], env_alarms = [], applied_ops = {},
     historySeq = 0, pendingNotes = [], pendingSpent = [], pendingHistory = [], pendingAlarms = [], pendingApplied = []\<rparr>"

definition list_at :: "('k \<times> 'a list) list \<Rightarrow> 'k \<Rightarrow> 'a list" where
  "list_at m k = (case map_of m k of None \<Rightarrow> [] | Some xs \<Rightarrow> xs)"

lemma list_at_update [simp]: "list_at (AList.update k xs m) p = (if p = k then xs else list_at m p)"
  by (simp add: list_at_def update_conv')

lemma list_at_Nil [simp]: "list_at [] p = []"
  by (simp add: list_at_def)

text \<open>\<open>recordNote\<close>, with the push of its result on the write-behind buffer.\<close>

definition recordNote :: "string \<Rightarrow> derived_note \<Rightarrow> ledger \<Rightarrow> ledger" where
  "recordNote txHash o1 l =
     (let note = \<lparr>ln_owner = dn_owner o1, ln_value = dn_value o1, ln_salt = dn_salt o1, ln_leafIndex = dn_leafIndex o1,
                  ln_commitment = dn_commitment o1, ln_txHash = txHash, ln_spent = False\<rparr>;
          p = length (note_heap l); k = dn_owner o1
      in l\<lparr>note_heap := note_heap l @ [note], byOwner := AList.update k (list_at (byOwner l) k @ [p]) (byOwner l),
           byCommitment := AList.update (dn_commitment o1) p (byCommitment l), pendingNotes := pendingNotes l @ [p]\<rparr>)"

definition recordAlarm :: "envelope_alarm \<Rightarrow> ledger \<Rightarrow> ledger" where
  "recordAlarm a l = l\<lparr>env_alarms := env_alarms l @ [a], pendingAlarms := pendingAlarms l @ [a]\<rparr>"

definition markSpent :: "int \<Rightarrow> ledger \<Rightarrow> ledger" where
  "markSpent c l =
     (case map_of (byCommitment l) c of
        None \<Rightarrow> l
      | Some p \<Rightarrow> l\<lparr>note_heap := (note_heap l)[p := (note_heap l ! p)\<lparr>ln_spent := True\<rparr>],
                    pendingSpent := pendingSpent l @ [ln_commitment (note_heap l ! p)]\<rparr>)"

definition makeHistoryItem :: "derived_history \<Rightarrow> op_envelope \<Rightarrow> nat \<Rightarrow> history_entry" where
  "makeHistoryItem draft op n =
     \<lparr>he_kind = dh_kind draft, he_counterparty = map_option packPubkey (dh_counterparty draft), he_amount = dh_amount draft,
      he_txHash = oe_txHash op, he_blockTimestamp = oe_blockTimestamp op, he_seq = n\<rparr>"

fun insertionIndex :: "history_entry list \<Rightarrow> history_entry \<Rightarrow> nat \<Rightarrow> nat" where
  "insertionIndex arr item 0 = 0"
| "insertionIndex arr item (Suc i) = (if he_seq (arr ! i) > he_seq item then insertionIndex arr item i else Suc i)"

definition pushHistory ::
  "(point \<times> history_entry list) list \<Rightarrow> point \<Rightarrow> history_entry \<Rightarrow> (point \<times> history_entry list) list" where
  "pushHistory m owner item =
     (let arr = list_at m owner in
      AList.update owner
        (if length arr > 0 \<and> he_seq item \<le> he_seq (arr ! (length arr - 1))
         then (let i = insertionIndex arr item (length arr) in take i arr @ [item] @ drop i arr)
         else arr @ [item]) m)"

definition recordHistory :: "op_envelope \<Rightarrow> derived_history \<Rightarrow> ledger \<Rightarrow> ledger" where
  "recordHistory op d l =
     (let item = makeHistoryItem d op (historySeq l) in
      l\<lparr>historySeq := historySeq l + 1, historyByOwner := pushHistory (historyByOwner l) (dh_owner d) item,
        pendingHistory := pendingHistory l @ [(dh_owner d, item)]\<rparr>)"

record ledger_env =
  le_h :: hash2
  le_hN :: hashN
  le_perm :: perm4
  le_decaps :: "bytes \<Rightarrow> bytes \<Rightarrow> bytes option"
  le_arbiterPriv :: int
  le_kemSecret :: "bytes option"
  le_B :: nat

definition derive_with :: "ledger_env \<Rightarrow> nat \<Rightarrow> op_envelope \<Rightarrow> derive_error + derived_op" where
  "derive_with E treeH op =
     deriveOp (le_h E) (le_hN E) (le_perm E) (le_decaps E) (le_arbiterPriv E) (le_kemSecret E) (le_B E) treeH op"

definition record_derived :: "op_envelope \<Rightarrow> derived_op \<Rightarrow> ledger \<Rightarrow> ledger" where
  "record_derived op d l =
     fold (recordHistory op) (do_history d)
       (fold markSpent (do_spent d)
         (fold recordAlarm (do_alarms d)
           (fold (recordNote (oe_txHash op)) (do_outputs d) l)))"

text \<open>\<open>apply\<close>; the fill goes to the shared mirror.\<close>

definition ledger_apply :: "ledger_env \<Rightarrow> ledger \<times> mirror \<Rightarrow> op_envelope \<Rightarrow> (ledger \<times> mirror) \<times> derive_error option" where
  "ledger_apply E w op =
     (case w of (l, m) \<Rightarrow>
        let key = (oe_txHash op, oe_logIndex op) in
        if key \<in> applied_ops l then (w, None)
        else let l1 = l\<lparr>applied_ops := insert key (applied_ops l), pendingApplied := pendingApplied l @ [key]\<rparr> in
          case derive_with E (height (tree m)) op of
            Inl e \<Rightarrow> ((l1, m), Some e)
          | Inr d \<Rightarrow>
              ((record_derived op d l1,
                case do_batchFill d of None \<Rightarrow> m | Some (start, ls) \<Rightarrow> fillBatch m start ls Arbiter), None))"

definition notesOf :: "ledger \<Rightarrow> point \<Rightarrow> ledger_note list" where
  "notesOf l owner = map (\<lambda>p. note_heap l ! p) (list_at (byOwner l) owner)"

text \<open>The binary search of \<open>lastIndexBelow\<close>, on the interval \<open>lo..hi\<close>.\<close>

function last_search :: "history_entry list \<Rightarrow> nat \<Rightarrow> int \<Rightarrow> int \<Rightarrow> int \<Rightarrow> int" where
  "last_search arr before lo hi ans =
     (if lo > hi then ans
      else let mid = (lo + hi) div 2 in
        if he_seq (arr ! nat mid) < before then last_search arr before (mid + 1) hi mid
        else last_search arr before lo (mid - 1) ans)"
  by pat_completeness auto
termination
  by (relation "measure (\<lambda>(arr, before, lo, hi, ans). nat (hi - lo + 1))") auto

declare last_search.simps [simp del]

definition lastIndexBelow :: "history_entry list \<Rightarrow> nat \<Rightarrow> int" where
  "lastIndexBelow arr before = last_search arr before 0 (int (length arr) - 1) (-1)"

definition historyOf :: "ledger \<Rightarrow> point \<Rightarrow> nat option \<Rightarrow> int option \<Rightarrow> history_entry list" where
  "historyOf l owner before limit =
     (let arr = list_at (historyByOwner l) owner;
          start = (case before of None \<Rightarrow> int (length arr) - 1 | Some b \<Rightarrow> lastIndexBelow arr b);
          lim = (case limit of None \<Rightarrow> int (length arr) | Some n \<Rightarrow> n);
          count = max (min (start + 1) lim) 0
      in map (\<lambda>j. arr ! nat (start - int j)) [0..<nat count])"

definition withdrawTxHashesOf :: "ledger \<Rightarrow> point \<Rightarrow> string set" where
  "withdrawTxHashesOf l owner = he_txHash ` set (filter (\<lambda>h. he_kind h = HWithdraw) (list_at (historyByOwner l) owner))"

definition ledger_commitFlush :: "ledger \<Rightarrow> ledger" where
  "ledger_commitFlush l = l\<lparr>pendingNotes := [], pendingSpent := [], pendingHistory := [], pendingAlarms := [], pendingApplied := []\<rparr>"

end
