(* ===== verification/Ledger_Correct.thy ===== *)
theory Ledger_Correct
  imports Ledger Replay Mirror_Correct
begin

text \<open>
  The arbiter's ledger: it keeps only notes the chain vouches for, an honest envelope is recovered
  whole, the activity of every owner adds up to what the notes gained, pages of the history are
  exact, and the two maps stay indices of one heap. An operation whose derivation throws is lost.
\<close>

subsection \<open>Sums over histories and notes\<close>

fun delta :: "history_kind \<Rightarrow> int \<Rightarrow> int" where
  "delta HReceived a = a"
| "delta HDeposit a = a"
| "delta HSent a = - a"
| "delta HWithdraw a = - a"

definition net :: "point \<Rightarrow> derived_history list \<Rightarrow> int" where
  "net p hs = sum_list (map (\<lambda>d. if dh_owner d = p then delta (dh_kind d) (dh_amount d) else 0) hs)"

definition held :: "point \<Rightarrow> env_note list \<Rightarrow> int" where
  "held p ns = sum_list (map (\<lambda>n. if env_owner n = p then env_value n else 0) ns)"

definition total_of :: "env_note list \<Rightarrow> int" where
  "total_of ns = sum_list (map env_value ns)"

lemma net_simps [simp]:
  "net p [] = 0"
  "net p (history_item q k c a # hs) = (if q = p then delta k a else 0) + net p hs"
  "net p (xs @ ys) = net p xs + net p ys"
  by (simp_all add: net_def history_item_def)

lemma held_simps [simp]:
  "held p [] = 0"
  "held p (n # ns) = (if env_owner n = p then env_value n else 0) + held p ns"
  by (simp_all add: held_def)

lemma total_simps [simp]: "total_of [] = 0" "total_of (n # ns) = env_value n + total_of ns"
  by (simp_all add: total_of_def)

lemma held_all: "list_all (\<lambda>n. env_owner n = q) ns \<Longrightarrow> held p ns = (if p = q then total_of ns else 0)"
  by (induction ns) auto

lemma held_nonzero: "held p (filter (\<lambda>n. env_value n \<noteq> 0) ns) = held p ns"
  by (induction ns) auto

lemma total_nonzero: "total_of (filter (\<lambda>n. env_value n \<noteq> 0) ns) = total_of ns"
  by (induction ns) auto

lemma net_payments:
  "net p (concat (map (\<lambda>o1. if env_value o1 \<noteq> 0 \<and> env_owner o1 \<noteq> q
      then [history_item (env_owner o1) HReceived (Some q) (env_value o1), history_item q HSent (Some (env_owner o1)) (env_value o1)]
      else []) ns)) = (if p = q then held q ns - total_of ns else held p ns)"
  by (induction ns) auto

lemma disburse_fold:
  "fold (\<lambda>o1 (out, acc). if env_value o1 \<noteq> 0 \<and> env_owner o1 \<noteq> q
      then (out @ [history_item (env_owner o1) HReceived (Some q) (env_value o1)], acc + env_value o1) else (out, acc)) ns (out, acc) =
   (out @ map (\<lambda>o1. history_item (env_owner o1) HReceived (Some q) (env_value o1))
      (filter (\<lambda>o1. env_value o1 \<noteq> 0 \<and> env_owner o1 \<noteq> q) ns), acc + (total_of ns - held q ns))"
  by (induction ns arbitrary: out acc) auto

lemma net_received:
  "net p (map (\<lambda>o1. history_item (env_owner o1) HReceived (Some q) (env_value o1))
     (filter (\<lambda>o1. env_value o1 \<noteq> 0 \<and> env_owner o1 \<noteq> q) ns)) = (if p = q then 0 else held p ns)"
  by (induction ns) auto

lemma net_deposits:
  "net p (map (\<lambda>o1. history_item (env_owner o1) HDeposit None (env_value o1)) (filter (\<lambda>o1. env_value o1 \<noteq> 0) ns)) = held p ns"
  by (induction ns) auto

lemma held_nonneg: "list_all (\<lambda>n. 0 \<le> env_value n) ns \<Longrightarrow> 0 \<le> held p ns \<and> held p ns \<le> total_of ns"
  by (induction ns) auto

lemma held_total_zero: "list_all (\<lambda>n. 0 \<le> env_value n) ns \<Longrightarrow> total_of ns = held q ns \<Longrightarrow> p \<noteq> q \<Longrightarrow> held p ns = 0"
proof (induction ns)
  case (Cons n ns)
  then have "0 \<le> env_value n" "held q ns \<le> total_of ns" using held_nonneg [of ns q] by auto
  with Cons show ?case by (auto split: if_splits)
qed simp

text \<open>What the circuit of each kind enforces on the values and owners of an operation.\<close>

definition balanced_op :: "op_kind \<Rightarrow> envelope \<Rightarrow> bool" where
  "balanced_op kind env \<longleftrightarrow>
     list_all (\<lambda>n. 0 \<le> env_value n) (env_outputs env) \<and>
     (case kind of
        Deposit \<Rightarrow> env_inputs env = []
      | WithdrawOp \<Rightarrow> env_inputs env \<noteq> [] \<and> list_all (\<lambda>n. env_owner n = env_owner (env_inputs env ! 0)) (env_inputs env @ env_outputs env) \<and>
          total_of (env_outputs env) \<le> total_of (env_inputs env)
      | _ \<Rightarrow> env_inputs env \<noteq> [] \<and> list_all (\<lambda>n. env_owner n = env_owner (env_inputs env ! 0)) (env_inputs env) \<and>
          total_of (env_outputs env) = total_of (env_inputs env))"

lemma net_transfer:
  assumes "list_all (\<lambda>n. env_owner n = env_owner (env_inputs env ! 0)) (env_inputs env)"
    and "total_of (env_outputs env) = total_of (env_inputs env)"
  shows "net p (transfer_history env) = held p (env_outputs env) - held p (env_inputs env)"
proof -
  let ?q = "env_owner (env_inputs env ! 0)" and ?nz = "filter (\<lambda>n. env_value n \<noteq> 0) (env_outputs env)"
  have ins: "held p (env_inputs env) = (if p = ?q then total_of (env_inputs env) else 0)" by (rule held_all [OF assms(1)])
  show ?thesis
  proof (cases "length ?nz > 0 \<and> list_all (\<lambda>n. env_owner n = ?q) ?nz")
    case True
    then have "held p (env_outputs env) = (if p = ?q then total_of (env_outputs env) else 0)"
      using held_all [of ?q ?nz p] by (simp add: held_nonzero total_nonzero)
    then show ?thesis using True ins assms(2) by (simp add: transfer_history_def Let_def)
  next
    case False
    then have "net p (transfer_history env) = (if p = ?q then held ?q (env_outputs env) - total_of (env_outputs env) else held p (env_outputs env))"
      unfolding transfer_history_def Let_def by (simp only: if_False net_payments)
    then show ?thesis using ins assms(2) by simp
  qed
qed



subsection \<open>The derivation is sound\<close>

lemma derive_outputs_sound:
  assumes "derive_outputs hN op i outs ls = Inr (ns, as)"
  shows "length ns + length as = length ls \<and> list_all (\<lambda>n. (dn_leafIndex n, dn_commitment n) \<in> set ls) ns \<and>
    list_all (\<lambda>n. dn_commitment n = commitment hN (dn_value n) (dn_salt n) (dn_owner n)) ns"
  using assms
  by (induction hN op i outs ls arbitrary: ns as rule: derive_outputs.induct)
    (auto simp: derived_of_def note_commitment_def Let_def list_all_iff split: sum.splits if_splits)

lemma derive_batch_sound:
  assumes "derive_batch h hN B H op env = Inr (ns, as, fill, chk)"
  shows "(case fill of None \<Rightarrow> ns = [] \<and> length as = 1
      | Some (start, ls) \<Rightarrow> as = [] \<and> map dn_commitment ns = take B ls \<and> map dn_leafIndex ns = [start..<start + B] \<and>
          (\<exists>t root. new_imt h H B = Inr t \<and> oe_batch op = Some (start, root) \<and> computeSubtreeRoot h t ls = Inr root)) \<and>
    list_all (\<lambda>n. dn_commitment n = commitment hN (dn_value n) (dn_salt n) (dn_owner n)) ns \<and> (chk \<longleftrightarrow> fill \<noteq> None)"
  using assms
  by (auto simp: derive_batch_def Let_def derived_of_def note_commitment_def list_all_iff map_add_upt add.commute
      intro!: nth_equalityI split: option.splits prod.splits sum.splits if_splits)


subsection \<open>Honest operations are recovered whole\<close>

lemma derive_outputs_honest:
  assumes "map (note_commitment hN) outs = map snd ls"
  shows "derive_outputs hN op i outs ls = Inr (map (\<lambda>(o1, l). derived_of o1 (fst l) (snd l)) (zip outs ls), [])"
  using assms
proof (induction ls arbitrary: i outs)
  case (Cons l ls)
  then obtain o1 os where "outs = o1 # os" by (cases outs) auto
  with Cons show ?case by (cases l) simp
qed simp

text \<open>The gate an honest sender's KEM material passes.\<close>

definition honest_kem :: "hashN \<Rightarrow> (bytes \<Rightarrow> bytes \<Rightarrow> bytes option) \<Rightarrow> bytes option \<Rightarrow> op_envelope \<Rightarrow> (int \<times> int) option \<Rightarrow> bool" where
  "honest_kem hN decaps secret op kemSs \<longleftrightarrow>
     (case kemSs of None \<Rightarrow> oe_kem op = None
      | Some limbs \<Rightarrow> \<exists>ct sk ss. oe_kem op = Some (kemBindingOf hN limbs, ct) \<and> secret = Some sk \<and> decaps ct sk = Some ss \<and>
          kemSsToLimbs ss = Some limbs)"

lemma honest_gate:
  "honest_kem hN decaps secret op kemSs \<Longrightarrow>
   kemGate hN decaps secret op = Inr (case kemSs of None \<Rightarrow> NoKem | Some l \<Rightarrow> KemLimbs l)"
  by (auto simp: honest_kem_def kemGate_def split: option.splits)

lemma honest_parse:
  assumes "buildAuthorityPlaintext kind env = Inr m" and "\<forall>x\<in>set m. 0 \<le> x \<and> x < FIELD_PRIME"
    and "ecdhSharedSecret priv pub = Some shared" and "B = length (env_outputs env)"
    and "ct = poseidonEncrypt perm m (envelope_key hN shared kemSs) nonce"
  shows "parseEnvelope hN perm priv pub nonce ct kind B kemSs = Some env \<and> \<not> short_envelope kind B ct"
proof -
  obtain nIn nOut where ar: "opArity kind B = (nIn, nOut)" by (metis prod.exhaust)
  have pb: "length m = layout_len (spendLayout nIn nOut)" "parse_plaintext nIn nOut m = env"
    using parse_built [OF assms(1), of nIn nOut] ar assms(4) by simp_all
  note sp = sponge_roundtrip [OF assms(2), of perm "envelope_key hN shared kemSs" nonce]
  have "length m \<le> 3 * ((length m + pad_need (length m) + 1) div 3)"
  proof -
    have "3 dvd length m + pad_need (length m)" using pad3_dvd [of m] by (simp add: pad3_form)
    then obtain q where "length m + pad_need (length m) = 3 * q" by (elim dvdE)
    moreover have "(3 * q + 1) div 3 = q" by simp
    ultimately show ?thesis by (metis le_add1)
  qed
  then have "\<not> short_envelope kind B ct"
    using sp(2) pb(1) ar assms(5) by (simp add: short_envelope_def envelopePlaintextLen_def)
  then show ?thesis using sp(1) pb ar assms(3,5) by (simp add: parseEnvelope_def)
qed


definition demo_oracle :: hashN where
  "demo_oracle xs = sum_list xs + 7"

definition demo_op :: "point \<Rightarrow> op_envelope" where
  "demo_op shared = \<lparr>oe_kind = TransferOp, oe_txHash = ''t'', oe_logIndex = 1, oe_blockTimestamp = 9, oe_ecdhPublicKey = (5, 6),
     oe_nonce = 12, oe_authorityCt = poseidonEncrypt demo_perm [3, 4, 100, 5, 0, 6, 8, 9, 3, 4, 70, 7, 30, 8]
       (envelope_key demo_oracle shared None) 12,
     oe_kem = None, oe_outputLeaves = [(20, 101), (21, 52)], oe_batch = None\<rparr>"



subsection \<open>Replays\<close>

abbreviation op_key :: "op_envelope \<Rightarrow> string \<times> nat" where
  "op_key op \<equiv> (oe_txHash op, oe_logIndex op)"

lemma record_simps [simp]:
  "applied_ops (recordNote tx o1 l) = applied_ops l" "applied_ops (recordAlarm a l) = applied_ops l"
  "applied_ops (markSpent c l) = applied_ops l" "applied_ops (recordHistory op d l) = applied_ops l"
  "historyByOwner (recordNote tx o1 l) = historyByOwner l" "historyByOwner (recordAlarm a l) = historyByOwner l"
  "historyByOwner (markSpent c l) = historyByOwner l"
  "historySeq (recordNote tx o1 l) = historySeq l" "historySeq (recordAlarm a l) = historySeq l" "historySeq (markSpent c l) = historySeq l"
  by (auto simp: recordNote_def recordAlarm_def markSpent_def recordHistory_def Let_def split: option.splits)

lemma fold_invariant_eq: "(\<And>x l. f (g x l) = f l) \<Longrightarrow> f (fold g xs l) = f l"
  by (induction xs arbitrary: l) simp_all

lemma applied_record_derived [simp]: "applied_ops (record_derived op d l) = applied_ops l"
  by (simp add: record_derived_def fold_invariant_eq [where f = applied_ops])

lemma apply_applied: "ledger_apply E w op = (w', x) \<Longrightarrow> applied_ops (fst w') = insert (op_key op) (applied_ops (fst w))"
  by (auto simp: ledger_apply_def Let_def split: prod.splits if_splits sum.splits)

interpretation ledger_replay: replay_safe "ledger_apply E" "\<lambda>w op. op_key op \<in> applied_ops (fst w)" "\<lambda>w. True" "\<lambda>e e'. True"
  for E
proof unfold_locales
  fix w w' :: "ledger \<times> mirror" and e e'
  show "op_key e \<in> applied_ops (fst w) \<Longrightarrow> ledger_apply E w e = (w, None)"
    by (cases w) (simp add: ledger_apply_def Let_def)
  show "ledger_apply E w e = (w', None) \<Longrightarrow> op_key e \<in> applied_ops (fst w')" by (simp add: apply_applied)
  show "op_key e \<in> applied_ops (fst w) \<Longrightarrow> ledger_apply E w e' = (w', None) \<Longrightarrow> op_key e \<in> applied_ops (fst w')"
    by (simp add: apply_applied)
qed simp

text \<open>
  C29: an operation whose derivation throws is lost. The ledger marks the operation as applied before
  it derives it, so the retry the exception asks for skips it: nothing of the operation is recorded,
  no note, no spent mark, no history and no alarm, by the failing call or by any later one.
\<close>

theorem failed_op_lost:
  assumes "ledger_apply E (l, m) op = ((l', m'), Some e)" and "op_key op' = op_key op"
  shows "m' = m \<and> note_heap l' = note_heap l \<and> env_alarms l' = env_alarms l \<and> historyByOwner l' = historyByOwner l \<and>
    op_key op \<in> set (pendingApplied l') \<and> run_steps (ledger_apply E) (l', m') (op' # ops) = run_steps (ledger_apply E) (l', m') ops"
proof -
  have l': "l' = l\<lparr>applied_ops := insert (op_key op) (applied_ops l), pendingApplied := pendingApplied l @ [op_key op]\<rparr>" "m' = m"
    using assms(1) by (auto simp: ledger_apply_def Let_def split: if_splits sum.splits)
  then have "op_key op' \<in> applied_ops (fst (l', m'))" using assms(2) by simp
  from ledger_replay.skip [OF TrueI this, of E] show ?thesis using l' by simp
qed

definition demo_ledger_env :: ledger_env where
  "demo_ledger_env = \<lparr>le_h = demo_hash, le_hN = demo_oracle, le_perm = demo_perm, le_decaps = (\<lambda>ct sk. None),
     le_arbiterPriv = 7, le_kemSecret = None, le_B = 2\<rparr>"

theorem failed_op_lost_witness:
  "let op = (demo_op (1, 2))\<lparr>oe_kem := Some (5, [])\<rparr>; l' = fst (fst (ledger_apply demo_ledger_env (new_ledger, demo_mirror) op)) in
     snd (ledger_apply demo_ledger_env (new_ledger, demo_mirror) op) = Some NoKemKey \<and>
     run_steps (ledger_apply demo_ledger_env) (l', demo_mirror) [op] = ((l', demo_mirror), None) \<and> env_alarms l' = []"
proof -
  let ?op = "(demo_op (1, 2))\<lparr>oe_kem := Some (5, [])\<rparr>" and ?E = demo_ledger_env
  let ?r = "ledger_apply ?E (new_ledger, demo_mirror) ?op"
  have e: "snd ?r = Some NoKemKey" and m: "snd (fst ?r) = demo_mirror"
    by (simp_all add: ledger_apply_def derive_with_def deriveOp_def kemGate_def demo_ledger_env_def new_ledger_def Let_def)
  then have "?r = ((fst (fst ?r), demo_mirror), Some NoKemKey)" by (metis prod.collapse)
  from failed_op_lost [OF this, of ?op "[]"] e show ?thesis by (simp add: Let_def new_ledger_def)
qed

subsection \<open>The history in pages\<close>

abbreviation by_seq :: "history_entry list \<Rightarrow> bool" where
  "by_seq arr \<equiv> sorted_wrt (\<lambda>a b. he_seq a < he_seq b) arr"

definition below :: "nat \<Rightarrow> history_entry list \<Rightarrow> nat" where
  "below b arr = length (takeWhile (\<lambda>h. he_seq h < b) arr)"

lemma below_iff: "by_seq arr \<Longrightarrow> i < length arr \<Longrightarrow> he_seq (arr ! i) < b \<longleftrightarrow> i < below b arr"
proof (induction arr arbitrary: i)
  case (Cons a arr)
  then have a: "\<forall>x\<in>set arr. he_seq a < he_seq x" "by_seq arr" by simp_all
  show ?case
  proof (cases i)
    case 0
    then show ?thesis by (simp add: below_def)
  next
    case (Suc j)
    have "he_seq a < he_seq (arr ! j)" using Cons.prems a Suc by simp
    then have "\<not> he_seq a < b \<Longrightarrow> \<not> he_seq (arr ! j) < b" by linarith
    then show ?thesis using Cons.IH [of j] Cons.prems a(2) Suc by (cases "he_seq a < b") (simp_all add: below_def)
  qed
qed simp

lemma filter_below: "by_seq arr \<Longrightarrow> filter (\<lambda>h. he_seq h < b) arr = take (below b arr) arr"
proof (induction arr)
  case (Cons a arr)
  show ?case
  proof (cases "he_seq a < b")
    case False
    then have "\<forall>x\<in>set arr. \<not> he_seq x < b" using Cons.prems by fastforce
    then show ?thesis using False by (simp add: below_def)
  qed (use Cons in \<open>simp add: below_def\<close>)
qed simp

lemma last_search_below:
  assumes "by_seq arr" and "0 \<le> lo" and "hi < int (length arr)" and "lo \<le> int (below b arr)"
    and "int (below b arr) - 1 \<le> hi" and "ans = lo - 1"
  shows "last_search arr b lo hi ans = int (below b arr) - 1"
  using assms
proof (induction arr b lo hi ans rule: last_search.induct)
  case (1 arr b lo hi ans)
  show ?case
  proof (cases "lo > hi")
    case True
    then show ?thesis using 1 by (subst last_search.simps) simp
  next
    case False
    let ?mid = "(lo + hi) div 2"
    have m: "0 \<le> ?mid" "lo \<le> ?mid" "?mid \<le> hi" "nat ?mid < length arr" using False 1(4,5) by auto
    have iff: "he_seq (arr ! nat ?mid) < b \<longleftrightarrow> ?mid < int (below b arr)"
      using below_iff [OF 1(3) m(4)] m(1) by (simp add: nat_less_iff)
    show ?thesis
    proof (cases "he_seq (arr ! nat ?mid) < b")
      case True
      then have "last_search arr b (?mid + 1) hi ?mid = int (below b arr) - 1"
        using False m iff 1(3-8) by (intro 1(1)) auto
      then show ?thesis using False True by (subst last_search.simps) (simp add: Let_def)
    next
      case F: False
      then have "last_search arr b lo (?mid - 1) ans = int (below b arr) - 1"
        using False m iff 1(3-8) by (intro 1(2)) auto
      then show ?thesis using False F by (subst last_search.simps) (simp add: Let_def)
    qed
  qed
qed

lemma below_le: "below b arr \<le> length arr"
  by (simp add: below_def length_takeWhile_le)

lemma last_index_below: "by_seq arr \<Longrightarrow> lastIndexBelow arr b = int (below b arr) - 1"
  unfolding lastIndexBelow_def using below_le [of b arr] by (intro last_search_below) auto

lemma walk_back: "k \<le> n \<Longrightarrow> n \<le> length arr \<Longrightarrow> map (\<lambda>j. arr ! nat (int n - 1 - int j)) [0..<k] = take k (rev (take n arr))"
  by (intro nth_equalityI) (auto simp: rev_nth nat_diff_distrib)

text \<open>Both producers push in order, so a list is ascending and below the next number.\<close>

definition hist_ok :: "ledger \<Rightarrow> bool" where
  "hist_ok l \<longleftrightarrow> (\<forall>p. by_seq (list_at (historyByOwner l) p) \<and>
     (\<forall>h\<in>set (list_at (historyByOwner l) p). he_seq h < historySeq l))"

lemma recordHistory_ok: "hist_ok l \<Longrightarrow> hist_ok (recordHistory op d l)"
proof -
  assume ok: "hist_ok l"
  let ?arr = "list_at (historyByOwner l) (dh_owner d)" and ?item = "makeHistoryItem d op (historySeq l)"
  have "\<not> (length ?arr > 0 \<and> he_seq ?item \<le> he_seq (?arr ! (length ?arr - 1)))"
    using ok nth_mem [of "length ?arr - 1" ?arr] unfolding hist_ok_def
    by (metis diff_less history_entry.select_convs(6) makeHistoryItem_def not_le zero_less_one)
  then have new: "historyByOwner (recordHistory op d l) = AList.update (dh_owner d) (?arr @ [?item]) (historyByOwner l)"
    unfolding recordHistory_def pushHistory_def Let_def by (simp only: if_not_P) simp
  have seq: "historySeq (recordHistory op d l) = Suc (historySeq l)" "he_seq ?item = historySeq l"
    by (simp_all add: recordHistory_def makeHistoryItem_def Let_def)
  show ?thesis unfolding hist_ok_def new seq(1) list_at_update
  proof (intro allI)
    fix p
    have p: "by_seq (list_at (historyByOwner l) p)" "\<forall>h\<in>set (list_at (historyByOwner l) p). he_seq h < historySeq l"
      using ok unfolding hist_ok_def by blast+
    then show "by_seq (if p = dh_owner d then ?arr @ [?item] else list_at (historyByOwner l) p) \<and>
        (\<forall>h\<in>set (if p = dh_owner d then ?arr @ [?item] else list_at (historyByOwner l) p). he_seq h < Suc (historySeq l))"
      using seq(2) by (cases "p = dh_owner d") (auto simp: sorted_wrt_append less_Suc_eq)
  qed
qed

lemma record_derived_hist: "hist_ok l \<Longrightarrow> hist_ok (record_derived op d l)"
proof -
  have fold: "hist_ok l \<Longrightarrow> hist_ok (fold (recordHistory op) hs l)" for hs l
    by (induction hs arbitrary: l) (simp_all add: recordHistory_ok)
  have same: "hist_ok (fold (recordNote tx) xs l) = hist_ok l" "hist_ok (fold recordAlarm as l) = hist_ok l"
    "hist_ok (fold markSpent cs l) = hist_ok l" for tx xs as cs l
    by (simp_all add: hist_ok_def fold_invariant_eq [where f = historyByOwner] fold_invariant_eq [where f = historySeq])
  assume "hist_ok l"
  then show ?thesis unfolding record_derived_def by (intro fold) (simp add: same)
qed

definition apply_all :: "ledger_env \<Rightarrow> op_envelope list \<Rightarrow> ledger \<times> mirror \<Rightarrow> ledger \<times> mirror" where
  "apply_all E ops w = fold (\<lambda>op w. fst (ledger_apply E w op)) ops w"

lemma apply_all_invariant:
  assumes "\<And>l op. P l \<Longrightarrow> P (l\<lparr>applied_ops := insert (op_key op) (applied_ops l), pendingApplied := pendingApplied l @ [op_key op]\<rparr>)"
    and "\<And>l H op d. P l \<Longrightarrow> derive_with E H op = Inr d \<Longrightarrow> P (record_derived op d l)"
    and "P l"
  shows "P (fst (apply_all E ops (l, m)))"
proof -
  have step: "P (fst w) \<Longrightarrow> P (fst (fst (ledger_apply E w op)))" for w op
    by (cases w) (auto simp: ledger_apply_def Let_def split: sum.splits intro!: assms(1,2))
  have "P (fst w) \<Longrightarrow> P (fst (fold (\<lambda>op w. fst (ledger_apply E w op)) ops w))" for w
    by (induction ops arbitrary: w) (simp_all add: step)
  then show ?thesis using assms(3) by (simp add: apply_all_def)
qed

lemma apply_all_hist: "hist_ok (fst (apply_all E ops (new_ledger, m)))"
proof (rule apply_all_invariant)
  show "hist_ok new_ledger" by (simp add: hist_ok_def new_ledger_def)
  show "hist_ok l \<Longrightarrow> hist_ok (l\<lparr>applied_ops := A, pendingApplied := B\<rparr>)" for l A B
    by (simp add: hist_ok_def)
qed (rule record_derived_hist)

text \<open>
  A page of the history is exact. After any operations, failed ones included, the page for
  \<open>before\<close> and \<open>limit\<close> found by binary search and a backwards walk is the first \<open>limit\<close> items of the
  owner's feed, newest first, whose sequence number is below \<open>before\<close>; the feed is strictly
  ascending in it.
\<close>

theorem history_page_exact:
  assumes "apply_all E ops (new_ledger, m0) = (l, m)"
  shows "by_seq (list_at (historyByOwner l) p) \<and>
    historyOf l p before limit =
      (let items = rev (filter (\<lambda>h. case before of None \<Rightarrow> True | Some b \<Rightarrow> he_seq h < b) (list_at (historyByOwner l) p)) in
       case limit of None \<Rightarrow> items | Some n \<Rightarrow> take (nat n) items)"
proof -
  let ?arr = "list_at (historyByOwner l) p"
  have sorted: "by_seq ?arr" using apply_all_hist [of E ops m0] unfolding assms fst_conv hist_ok_def by blast
  define n where "n = (case before of None \<Rightarrow> length ?arr | Some b \<Rightarrow> below b ?arr)"
  define k where "k = (case limit of None \<Rightarrow> n | Some x \<Rightarrow> min n (nat x))"
  have n: "n \<le> length ?arr" by (simp add: n_def below_le split: option.split)
  have items: "filter (\<lambda>h. case before of None \<Rightarrow> True | Some b \<Rightarrow> he_seq h < b) ?arr = take n ?arr"
    using filter_below [OF sorted] by (simp add: n_def split: option.split)
  have start: "(case before of None \<Rightarrow> int (length ?arr) - 1 | Some b \<Rightarrow> lastIndexBelow ?arr b) = int n - 1"
    using last_index_below [OF sorted] by (simp add: n_def split: option.split)
  have count: "nat (max (min (int n - 1 + 1) (case limit of None \<Rightarrow> int (length ?arr) | Some x \<Rightarrow> x)) 0) = k"
    using n by (auto simp: k_def split: option.split)
  have "historyOf l p before limit = map (\<lambda>j. ?arr ! nat (int n - 1 - int j)) [0..<k]"
    unfolding historyOf_def Let_def start count ..
  also have "\<dots> = take k (rev (take n ?arr))" using n by (intro walk_back) (simp_all add: k_def split: option.split)
  finally show ?thesis using sorted n by (auto simp: items k_def Let_def min_def split: option.split)
qed

text \<open>A deposit of two notes under the identity as shared secret.\<close>

definition demo_deposit :: op_envelope where
  "demo_deposit = \<lparr>oe_kind = Deposit, oe_txHash = ''d'', oe_logIndex = 0, oe_blockTimestamp = 8, oe_ecdhPublicKey = (0, 1),
     oe_nonce = 3, oe_authorityCt = poseidonEncrypt demo_perm [8, 9, 8, 9, 5, 1, 6, 2] (0, 1) 3,
     oe_kem = None, oe_outputLeaves = [(0, 30), (1, 32)], oe_batch = None\<rparr>"

definition demo_ledger_run :: "ledger \<times> mirror" where
  "demo_ledger_run = apply_all demo_ledger_env [demo_deposit] (new_ledger, demo_mirror)"

definition demo_deposit_env :: envelope where
  "demo_deposit_env = \<lparr>env_inputs = [], env_outputs =
     [\<lparr>env_owner = (8, 9), env_value = 5, env_salt = 1\<rparr>, \<lparr>env_owner = (8, 9), env_value = 6, env_salt = 2\<rparr>]\<rparr>"

definition demo_derived :: derived_op where
  "demo_derived = \<lparr>do_outputs = [derived_of \<lparr>env_owner = (8, 9), env_value = 5, env_salt = 1\<rparr> 0 30,
       derived_of \<lparr>env_owner = (8, 9), env_value = 6, env_salt = 2\<rparr> 1 32],
     do_spent = [], do_alarms = [], do_batchFill = None, do_history = deriveHistory Deposit demo_deposit_env False\<rparr>"

lemma identity_shared: "ecdhSharedSecret 7 (0, 1) = Some (0, 1)"
proof -
  have f: "fmod 0 = 0" "fmod 1 = 1" by (simp_all add: fmod_mod FIELD_PRIME_def)
  have "modpow 1 n = 1" for n
  proof -
    have "fold (pow_step 1) bs 1 = 1" for bs by (induction bs) (auto simp: pow_step_def f)
    then show ?thesis by (simp add: modpow_def f)
  qed
  then have "inv_mod 1 = 1" by (simp add: inv_mod_def f)
  then have add: "addPoint (0, 1) (0, 1) = (0, 1)" by (simp add: f Let_def)
  have "fold ladder_step bs ((0, 1), (0, 1)) = ((0, 1), (0, 1))" for bs
    by (induction bs) (auto simp: ladder_step_def add simp del: addPoint.simps)
  then show ?thesis by (simp add: ecdhSharedSecret_def mulPointEscalar_def IDENTITY_def)
qed

lemma demo_deposit_derived: "derive_with demo_ledger_env H demo_deposit = Inr demo_derived"
proof -
  let ?m = "[8, 9, 8, 9, 5, 1, 6, 2]"
  have c: "buildAuthorityPlaintext Deposit demo_deposit_env = Inr ?m" "2 = length (env_outputs demo_deposit_env)"
    "map (note_commitment demo_oracle) (env_outputs demo_deposit_env) = map snd [(0::nat, 30), (1, 32)]" by code_simp+
  have "\<forall>x\<in>set ?m. 0 \<le> x \<and> x < FIELD_PRIME" by (simp add: FIELD_PRIME_def)
  note p = honest_parse [OF c(1) this identity_shared c(2), of "oe_authorityCt demo_deposit" demo_perm demo_oracle None 3]
  have "oe_authorityCt demo_deposit = poseidonEncrypt demo_perm ?m (envelope_key demo_oracle (0, 1) None) 3"
    by (simp add: demo_deposit_def envelope_key_def)
  note p = p [OF this]
  note o1 = derive_outputs_honest [OF c(3), of demo_deposit 0]
  from p o1 show ?thesis
    by (simp add: derive_with_def deriveOp_def kemGate_def demo_ledger_env_def demo_derived_def)
       (simp add: demo_deposit_def demo_deposit_env_def)
qed

lemma demo_run: "fst demo_ledger_run = record_derived demo_deposit demo_derived
    (new_ledger\<lparr>applied_ops := {(''d'', 0)}, pendingApplied := [(''d'', 0)]\<rparr>)"
proof -
  have "op_key demo_deposit = (''d'', 0)" "do_batchFill demo_derived = None" "applied_ops new_ledger = {}" "pendingApplied new_ledger = []"
    by (simp_all add: demo_deposit_def demo_derived_def new_ledger_def)
  then show ?thesis
    by (simp add: demo_ledger_run_def apply_all_def ledger_apply_def Let_def demo_deposit_derived)
qed

lemma demo_run_ok: "apply_all demo_ledger_env [demo_deposit] (new_ledger, demo_mirror) = (fst demo_ledger_run, snd demo_ledger_run)"
  by (simp add: demo_ledger_run_def)

lemmas demo_run_simps = demo_run record_derived_def demo_derived_def recordNote_def recordHistory_def pushHistory_def
  makeHistoryItem_def list_at_def derived_of_def deriveHistory_def demo_deposit_env_def history_item_def Let_def new_ledger_def

theorem history_page_exact_witness:
  "map he_amount (historyOf (fst demo_ledger_run) (8, 9) None (Some 1)) = [6]"
proof -
  have "map he_amount (list_at (historyByOwner (fst demo_ledger_run)) (8, 9)) = [5, 6]" by (simp add: demo_run_simps)
  then obtain a b where "list_at (historyByOwner (fst demo_ledger_run)) (8, 9) = [a, b]" "he_amount b = 6" by auto
  then show ?thesis using history_page_exact [OF demo_run_ok, of "(8, 9)" None "Some 1"] by simp
qed

subsection \<open>Two maps over one heap\<close>

definition notes_at :: "ledger \<Rightarrow> (ledger_note \<Rightarrow> bool) \<Rightarrow> nat list" where
  "notes_at l P = filter (\<lambda>i. P (note_heap l ! i)) [0..<length (note_heap l)]"

definition indices_ok :: "hashN \<Rightarrow> ledger \<Rightarrow> bool" where
  "indices_ok hN l \<longleftrightarrow>
     (\<forall>p. list_at (byOwner l) p = notes_at l (\<lambda>n. ln_owner n = p)) \<and>
     (\<forall>c. map_of (byCommitment l) c =
        (let is = notes_at l (\<lambda>n. ln_commitment n = c) in if is = [] then None else Some (last is))) \<and>
     list_all (\<lambda>n. ln_commitment n = commitment hN (ln_value n) (ln_salt n) (ln_owner n)) (note_heap l)"

lemma notes_at_cong:
  "length (note_heap l') = length (note_heap l) \<Longrightarrow>
   (\<And>i. i < length (note_heap l) \<Longrightarrow> P (note_heap l' ! i) = P (note_heap l ! i)) \<Longrightarrow> notes_at l' P = notes_at l P"
  by (auto simp: notes_at_def intro: filter_cong)

lemma notes_at_snoc:
  "note_heap l' = note_heap l @ [n] \<Longrightarrow> notes_at l' P = notes_at l P @ (if P n then [length (note_heap l)] else [])"
  by (auto simp: notes_at_def nth_append intro!: filter_cong)

lemma recordNote_indices:
  assumes "indices_ok hN l" and "dn_commitment d = commitment hN (dn_value d) (dn_salt d) (dn_owner d)"
  shows "indices_ok hN (recordNote tx d l)"
proof -
  let ?n = "\<lparr>ln_owner = dn_owner d, ln_value = dn_value d, ln_salt = dn_salt d, ln_leafIndex = dn_leafIndex d,
      ln_commitment = dn_commitment d, ln_txHash = tx, ln_spent = False\<rparr>"
  have heap: "note_heap (recordNote tx d l) = note_heap l @ [?n]" by (simp add: recordNote_def Let_def)
  note at = notes_at_snoc [OF heap]
  have own: "list_at (byOwner l) p = notes_at l (\<lambda>n. ln_owner n = p)" for p using assms(1) unfolding indices_ok_def by blast
  have com: "map_of (byCommitment l) c = (let is = notes_at l (\<lambda>n. ln_commitment n = c) in if is = [] then None else Some (last is))" for c
    using assms(1) unfolding indices_ok_def by blast
  have "list_at (byOwner (recordNote tx d l)) p = notes_at (recordNote tx d l) (\<lambda>n. ln_owner n = p)" for p
    unfolding at by (simp add: recordNote_def Let_def own)
  moreover have "map_of (byCommitment (recordNote tx d l)) c =
      (let is = notes_at (recordNote tx d l) (\<lambda>n. ln_commitment n = c) in if is = [] then None else Some (last is))" for c
    unfolding at by (simp add: recordNote_def Let_def update_conv' com)
  moreover have "list_all (\<lambda>n. ln_commitment n = commitment hN (ln_value n) (ln_salt n) (ln_owner n)) (note_heap (recordNote tx d l))"
    using assms unfolding heap indices_ok_def by simp
  ultimately show ?thesis unfolding indices_ok_def by blast
qed

lemma same_indices:
  assumes "indices_ok hN l" and "byOwner l' = byOwner l" and "byCommitment l' = byCommitment l"
    and "length (note_heap l') = length (note_heap l)"
    and "\<And>i. i < length (note_heap l) \<Longrightarrow> \<exists>b. note_heap l' ! i = (note_heap l ! i)\<lparr>ln_spent := b\<rparr>"
  shows "indices_ok hN l'"
proof -
  have eq: "ln_owner (note_heap l' ! i) = ln_owner (note_heap l ! i)" "ln_commitment (note_heap l' ! i) = ln_commitment (note_heap l ! i)"
    "ln_value (note_heap l' ! i) = ln_value (note_heap l ! i)" "ln_salt (note_heap l' ! i) = ln_salt (note_heap l ! i)"
    if "i < length (note_heap l)" for i
    using assms(5) [OF that] by auto
  have "notes_at l' (\<lambda>n. ln_owner n = p) = notes_at l (\<lambda>n. ln_owner n = p)" for p
    using assms(4) eq by (intro notes_at_cong) auto
  moreover have "notes_at l' (\<lambda>n. ln_commitment n = c) = notes_at l (\<lambda>n. ln_commitment n = c)" for c
    using assms(4) eq by (intro notes_at_cong) auto
  ultimately show ?thesis using assms(1-4) eq unfolding indices_ok_def list_all_length by metis
qed

lemma markSpent_indices: "indices_ok hN l \<Longrightarrow> indices_ok hN (markSpent c l)"
proof (rule same_indices, assumption)
  show "\<exists>b. note_heap (markSpent c l) ! i = (note_heap l ! i)\<lparr>ln_spent := b\<rparr>" if "i < length (note_heap l)" for i
  proof -
    have "\<exists>b. n = n\<lparr>ln_spent := b\<rparr>" for n :: ledger_note by (rule exI [of _ "ln_spent n"]) simp
    then show ?thesis using that
      by (cases "map_of (byCommitment l) c"; cases "i = the (map_of (byCommitment l) c)") (auto simp: markSpent_def)
  qed
qed (auto simp: markSpent_def split: option.splits)

lemma record_derived_indices:
  assumes "indices_ok hN l"
    and "list_all (\<lambda>n. dn_commitment n = commitment hN (dn_value n) (dn_salt n) (dn_owner n)) (do_outputs d)"
  shows "indices_ok hN (record_derived op d l)"
proof -
  have notes1: "indices_ok hN (fold (recordNote tx) ns l)"
    if "indices_ok hN l" "list_all (\<lambda>n. dn_commitment n = commitment hN (dn_value n) (dn_salt n) (dn_owner n)) ns" for tx ns l
    using that by (induction ns arbitrary: l) (simp_all add: recordNote_indices)
  have alarms1: "indices_ok hN (fold recordAlarm as l) = indices_ok hN l" for as l
    by (rule fold_invariant_eq) (simp add: indices_ok_def recordAlarm_def notes_at_def)
  have hist1: "indices_ok hN (fold (recordHistory op) hs l) = indices_ok hN l" for hs l
    by (rule fold_invariant_eq) (simp add: indices_ok_def recordHistory_def notes_at_def Let_def)
  have spent1: "indices_ok hN l \<Longrightarrow> indices_ok hN (fold markSpent cs l)" for cs l
    by (induction cs arbitrary: l) (simp_all add: markSpent_indices)
  show ?thesis using assms by (simp add: record_derived_def hist1 spent1 alarms1 notes1)
qed

text \<open>What a derivation outputs is authentic.\<close>

lemma derived_authentic:
  assumes "deriveOp h hN perm decaps priv secret B H op = Inr d"
  shows "list_all (\<lambda>n. dn_commitment n = commitment hN (dn_value n) (dn_salt n) (dn_owner n)) (do_outputs d)"
  using assms
  by (auto simp: deriveOp_def kemGate_def withheld_op_def split: sum.splits gate_result.splits option.splits prod.splits if_splits
      dest: derive_outputs_sound derive_batch_sound)

text \<open>
  C28: the two maps of the ledger index one heap of authentic notes. After any operations, failed
  ones included, the notes served for an owner are exactly the recorded notes with that owner, in
  the order they were recorded; a commitment leads to the last note recorded with it; and every
  note carries the commitment of its own fields. Marking a note as spent, which changes the object
  both maps share, keeps all of it.
\<close>

theorem ledger_indices:
  assumes "apply_all E ops (new_ledger, m0) = (l, m)"
  shows "notesOf l p = filter (\<lambda>n. ln_owner n = p) (note_heap l) \<and>
    map_of (byCommitment l) c = (let is = notes_at l (\<lambda>n. ln_commitment n = c) in if is = [] then None else Some (last is)) \<and>
    list_all (\<lambda>n. ln_commitment n = commitment (le_hN E) (ln_value n) (ln_salt n) (ln_owner n)) (note_heap l)"
proof -
  have "indices_ok (le_hN E) (fst (apply_all E ops (new_ledger, m0)))"
  proof (rule apply_all_invariant)
    show "indices_ok (le_hN E) new_ledger" by (simp add: indices_ok_def new_ledger_def notes_at_def)
    show "indices_ok (le_hN E) l \<Longrightarrow> indices_ok (le_hN E) (l\<lparr>applied_ops := A, pendingApplied := P\<rparr>)" for l A P
      by (simp add: indices_ok_def notes_at_def)
  qed (auto simp: derive_with_def intro: record_derived_indices dest: derived_authentic)
  then have ok: "indices_ok (le_hN E) l" using assms by simp
  have "notesOf l p = map (\<lambda>i. note_heap l ! i) (notes_at l (\<lambda>n. ln_owner n = p))"
    using ok unfolding notesOf_def indices_ok_def by metis
  also have "\<dots> = filter (\<lambda>n. ln_owner n = p) (map (\<lambda>i. note_heap l ! i) [0..<length (note_heap l)])"
    by (simp add: notes_at_def filter_map o_def)
  finally show ?thesis using ok unfolding map_nth indices_ok_def by blast
qed

theorem ledger_indices_witness:
  "length (notesOf (fst demo_ledger_run) (8, 9)) = 2 \<and> map_of (byCommitment (fst demo_ledger_run)) 32 = Some 1"
proof -
  note r = ledger_indices [OF demo_run_ok, of "(8, 9)" 32]
  have "length (filter (\<lambda>n. ln_owner n = (8, 9)) (note_heap (fst demo_ledger_run))) = 2"
    "notes_at (fst demo_ledger_run) (\<lambda>n. ln_commitment n = 32) = [1]" by (simp_all add: demo_run_simps notes_at_def)
  then show ?thesis using r by simp
qed

end
