(* ===== verification/Portal.thy ===== *)
theory Portal
  imports Kem_Chunks Js_Number
begin

text \<open>
  Portal and receive announcements: \<open>apps/indexer/src/portal.ts\<close> (the class \<open>PortalRegistry\<close> and
  its table), the predicates \<open>isStealthAnnouncement\<close> and \<open>portalSalt\<close> of
  \<open>packages/core/src/notes/stealth.ts\<close>, and the feed reads of \<open>apps/indexer/src/api/routes/portal.ts\<close>.

  A record is one mutable object that the array, the salt index and the write-behind buffers share:
  \<open>records\<close> is the heap and the others hold positions in it. The field \<open>kind\<close>, the constant
  \<open>"portal"\<close>, is left out. \<open>issue\<close> awaits the database between its check and its index write, so it is
  the two steps \<open>issue_begin\<close> and \<open>issue_insert\<close> and \<open>index_record\<close> after them, and other steps may
  come in between; without a database the steps follow each other at once. Amounts are the integers
  their decimal strings print.
\<close>

subsection \<open>Stealth predicates\<close>

definition hex_run :: "nat \<Rightarrow> string \<Rightarrow> bool" where
  "hex_run n s \<longleftrightarrow> take 2 s = ''0x'' \<and> length s = n + 2 \<and> list_all (\<lambda>c. radix_digit c \<noteq> None) (drop 2 s)"

definition isStealthAnnouncement :: "string \<Rightarrow> bool" where
  "isStealthAnnouncement eph \<longleftrightarrow> hex_run 64 eph \<and> eph \<noteq> ''0x'' @ replicate 64 (CHR ''0'')"

definition portalSalt :: "string \<Rightarrow> string option" where
  "portalSalt addr =
     (if hex_run 40 addr then Some (''0x'' @ replicate 24 (CHR ''0'') @ toLowerCase (drop 2 addr)) else None)"

subsection \<open>Records\<close>

record portal_public =
  pr_seq :: nat
  pr_rail :: string
  pr_factory :: string
  pr_ephemeralPub :: string
  pr_viewTag :: nat
  pr_stealthAddr :: string
  pr_destination :: string
  pr_createdAt :: nat
  pr_swept :: bool
  pr_sweptTxHash :: "string option"
  pr_sweptAmount :: "int option"

record portal_record = portal_public +
  pr_name :: string
  pr_owner :: string

record issuance_fields =
  if_name :: string
  if_owner :: string
  if_ephemeralPub :: string
  if_viewTag :: nat
  if_stealthAddr :: string
  if_destination :: string
  if_factory :: string
  if_rail :: string

definition toPublic :: "portal_record \<Rightarrow> portal_public" where
  "toPublic r = \<lparr>pr_seq = pr_seq r, pr_rail = pr_rail r, pr_factory = pr_factory r, pr_ephemeralPub = pr_ephemeralPub r,
     pr_viewTag = pr_viewTag r, pr_stealthAddr = pr_stealthAddr r, pr_destination = pr_destination r,
     pr_createdAt = pr_createdAt r, pr_swept = pr_swept r, pr_sweptTxHash = pr_sweptTxHash r, pr_sweptAmount = pr_sweptAmount r\<rparr>"

datatype portal_error = DuplicateStealth | MalformedAddress | SeqConflict

record portal_registry =
  records :: "portal_record list"
  bySalt :: "(string \<times> nat) list"
  pendingSwept :: "nat list"
  pendingInserts :: "nat list"
  pseq :: nat

definition new_portal :: portal_registry where
  "new_portal = \<lparr>records = [], bySalt = [], pendingSwept = [], pendingInserts = [], pseq = 0\<rparr>"

subsection \<open>Operations\<close>

text \<open>\<open>index\<close>: push, then the salt, whose computation throws on a malformed address.\<close>

definition index_record :: "portal_registry \<Rightarrow> portal_record \<Rightarrow> portal_registry \<times> portal_error option" where
  "index_record p r =
     (let p1 = p\<lparr>records := records p @ [r]\<rparr> in
      case portalSalt (pr_stealthAddr r) of
        None \<Rightarrow> (p1, Some MalformedAddress)
      | Some salt \<Rightarrow> (p1\<lparr>bySalt := AList.update salt (length (records p)) (bySalt p)\<rparr>, None))"

definition hasStealth :: "portal_registry \<Rightarrow> string \<Rightarrow> portal_error + bool" where
  "hasStealth p addr =
     (case portalSalt addr of None \<Rightarrow> Inl MalformedAddress | Some salt \<Rightarrow> Inr (map_of (bySalt p) salt \<noteq> None))"

definition issued_record :: "issuance_fields \<Rightarrow> nat \<Rightarrow> nat \<Rightarrow> portal_record" where
  "issued_record f n nowSeconds =
     \<lparr>pr_seq = n, pr_rail = if_rail f, pr_factory = if_factory f, pr_ephemeralPub = if_ephemeralPub f,
      pr_viewTag = if_viewTag f, pr_stealthAddr = toLowerCase (if_stealthAddr f), pr_destination = if_destination f,
      pr_createdAt = nowSeconds, pr_swept = False, pr_sweptTxHash = None, pr_sweptAmount = None,
      pr_name = if_name f, pr_owner = if_owner f\<rparr>"

text \<open>The part of \<open>issue\<close> before its await: the sequence number is taken first.\<close>

definition issue_begin ::
  "portal_registry \<Rightarrow> issuance_fields \<Rightarrow> nat \<Rightarrow> portal_registry \<times> (portal_error + portal_record)" where
  "issue_begin p f nowSeconds =
     (let r = issued_record f (pseq p) nowSeconds; p1 = p\<lparr>pseq := pseq p + 1\<rparr> in
      case hasStealth p1 (pr_stealthAddr r) of
        Inl e \<Rightarrow> (p1, Inl e)
      | Inr True \<Rightarrow> (p1, Inl DuplicateStealth)
      | Inr False \<Rightarrow> (p1, Inr r))"

text \<open>The insert of \<open>issue\<close>: the primary key and the unique index on the address.\<close>

definition issue_insert :: "portal_record list \<Rightarrow> portal_record \<Rightarrow> portal_record list \<times> portal_error option" where
  "issue_insert db r =
     (if list_ex (\<lambda>x. pr_seq x = pr_seq r) db then (db, Some SeqConflict)
      else if list_ex (\<lambda>x. pr_stealthAddr x = pr_stealthAddr r) db then (db, Some DuplicateStealth)
      else (db @ [r], None))"

definition issue ::
  "portal_registry \<times> portal_record list \<Rightarrow> issuance_fields \<Rightarrow> nat \<Rightarrow>
     (portal_registry \<times> portal_record list) \<times> (portal_error + portal_record)" where
  "issue w f nowSeconds =
     (case issue_begin (fst w) f nowSeconds of
        (p1, Inl e) \<Rightarrow> ((p1, snd w), Inl e)
      | (p1, Inr r) \<Rightarrow>
          (case issue_insert (snd w) r of
             (db1, Some e) \<Rightarrow> ((p1, db1), Inl e)
           | (db1, None) \<Rightarrow>
               (case index_record p1 r of
                  (p2, Some e) \<Rightarrow> ((p2, db1), Inl e)
                | (p2, None) \<Rightarrow> ((p2, db1), Inr r))))"

text \<open>A limit of \<open>None\<close> is the default \<open>Infinity\<close>.\<close>

definition take_limit :: "nat option \<Rightarrow> 'a list \<Rightarrow> 'a list" where
  "take_limit limit xs = (case limit of None \<Rightarrow> xs | Some n \<Rightarrow> take n xs)"

definition list_records :: "portal_registry \<Rightarrow> int \<Rightarrow> nat option \<Rightarrow> portal_record list" where
  "list_records p cursor limit = take_limit limit (filter (\<lambda>r. int (pr_seq r) > cursor) (records p))"

definition listPublic :: "portal_registry \<Rightarrow> int \<Rightarrow> nat option \<Rightarrow> portal_public list" where
  "listPublic p cursor limit = map toPublic (list_records p cursor limit)"

definition unswept :: "portal_registry \<Rightarrow> int \<Rightarrow> nat option \<Rightarrow> portal_record list" where
  "unswept p cursor limit =
     take_limit limit (filter (\<lambda>r. \<not> pr_swept r \<and> int (pr_seq r) > cursor) (records p))"

definition sweep_record :: "string \<Rightarrow> int \<Rightarrow> portal_record \<Rightarrow> portal_record" where
  "sweep_record txHash amount r = r\<lparr>pr_swept := True, pr_sweptTxHash := Some txHash, pr_sweptAmount := Some amount\<rparr>"

definition markSwept :: "portal_registry \<Rightarrow> string \<Rightarrow> string \<Rightarrow> int \<Rightarrow> portal_registry" where
  "markSwept p salt txHash amount =
     (case map_of (bySalt p) (toLowerCase salt) of
        None \<Rightarrow> p
      | Some k \<Rightarrow>
          if pr_swept (records p ! k) then p
          else p\<lparr>records := (records p)[k := sweep_record txHash amount (records p ! k)],
                 pendingSwept := pendingSwept p @ [k]\<rparr>)"

record chain_announcement =
  cn_salt :: string
  cn_ephemeralPub :: string
  cn_viewTag :: nat
  cn_destination :: string
  cn_factory :: string
  cn_txHash :: string
  cn_amount :: int
  cn_blockTimestamp :: nat

definition last_chars :: "nat \<Rightarrow> string \<Rightarrow> string" where
  "last_chars n s = drop (length s - n) s"

definition backfill_record :: "chain_announcement \<Rightarrow> nat \<Rightarrow> portal_record" where
  "backfill_record a n =
     \<lparr>pr_seq = n, pr_rail = ''evm'', pr_factory = cn_factory a, pr_ephemeralPub = cn_ephemeralPub a,
      pr_viewTag = cn_viewTag a, pr_stealthAddr = ''0x'' @ last_chars 40 (toLowerCase (cn_salt a)),
      pr_destination = cn_destination a, pr_createdAt = cn_blockTimestamp a, pr_swept = True,
      pr_sweptTxHash = Some (cn_txHash a), pr_sweptAmount = Some (cn_amount a), pr_name = '''', pr_owner = ''''\<rparr>"

definition recordChainAnnouncement :: "portal_registry \<Rightarrow> chain_announcement \<Rightarrow> portal_registry" where
  "recordChainAnnouncement p a =
     (let salt = toLowerCase (cn_salt a) in
      if map_of (bySalt p) salt \<noteq> None then p
      else p\<lparr>pseq := pseq p + 1, records := records p @ [backfill_record a (pseq p)],
             bySalt := AList.update salt (length (records p)) (bySalt p),
             pendingInserts := pendingInserts p @ [length (records p)]\<rparr>)"

subsection \<open>The table\<close>

text \<open>\<open>INSERT ... ON CONFLICT DO NOTHING\<close>, with no target\<close>

definition backfill_insert :: "portal_record list \<Rightarrow> portal_record \<Rightarrow> portal_record list" where
  "backfill_insert db r =
     (if list_ex (\<lambda>x. pr_seq x = pr_seq r \<or> pr_stealthAddr x = pr_stealthAddr r) db then db else db @ [r])"

definition swept_update :: "portal_record list \<Rightarrow> portal_record \<Rightarrow> portal_record list" where
  "swept_update db r =
     map (\<lambda>x. if pr_seq x = pr_seq r
              then x\<lparr>pr_swept := True, pr_sweptTxHash := pr_sweptTxHash r, pr_sweptAmount := pr_sweptAmount r\<rparr> else x) db"

definition portal_flushInto :: "portal_registry \<Rightarrow> portal_record list \<Rightarrow> portal_record list" where
  "portal_flushInto p db =
     fold (\<lambda>k db. swept_update db (records p ! k)) (pendingSwept p)
       (fold (\<lambda>k db. backfill_insert db (records p ! k)) (pendingInserts p) db)"

definition portal_commitFlush :: "portal_registry \<Rightarrow> portal_registry" where
  "portal_commitFlush p = p\<lparr>pendingSwept := [], pendingInserts := []\<rparr>"

text \<open>\<open>boot\<close>: the rows by ascending sequence number; the factory and rail defaults for old rows concern
  columns that every row written by the code has.\<close>

fun boot_rows :: "portal_registry \<Rightarrow> portal_record list \<Rightarrow> portal_registry \<times> portal_error option" where
  "boot_rows p [] = (p, None)"
| "boot_rows p (r # rs) =
     (case index_record p r of (p1, None) \<Rightarrow> boot_rows p1 rs | (p1, Some e) \<Rightarrow> (p1, Some e))"

definition portal_boot :: "portal_record list \<Rightarrow> portal_registry \<times> portal_error option" where
  "portal_boot db =
     (case boot_rows new_portal (sort_key pr_seq db) of
        (p, Some e) \<Rightarrow> (p, Some e)
      | (p, None) \<Rightarrow> (p\<lparr>pseq := (if length (records p) > 0 then pr_seq (last (records p)) + 1 else 0)\<rparr>, None))"

subsection \<open>The feed routes\<close>

datatype 'a route_reply = Reply200 'a | Reply400 | Reply401 | Reply404

text \<open>Parameters after \<open>Number\<close>: \<open>None\<close> is a value that is no integer.\<close>

definition serveFeed :: "bool \<Rightarrow> int option \<Rightarrow> int option \<Rightarrow> (int \<Rightarrow> nat option \<Rightarrow> 'a) \<Rightarrow> 'a route_reply" where
  "serveFeed configured cursor limit read =
     (if \<not> configured then Reply404
      else case (cursor, limit) of
        (Some c, Some n) \<Rightarrow> if n \<le> 0 then Reply400 else Reply200 (read c (Some (nat n)))
      | _ \<Rightarrow> Reply400)"

definition portalAnnouncements :: "bool \<Rightarrow> portal_registry \<Rightarrow> int option \<Rightarrow> int option \<Rightarrow> portal_public list route_reply" where
  "portalAnnouncements configured p cursor limit = serveFeed configured cursor limit (listPublic p)"

text \<open>The token comparison hashes both sides; SHA-256 is taken to be injective on the two tokens.\<close>

definition portalUnswept ::
  "bool \<Rightarrow> string option \<Rightarrow> string option \<Rightarrow> portal_registry \<Rightarrow> int option \<Rightarrow> int option \<Rightarrow> portal_record list route_reply" where
  "portalUnswept configured want got p cursor limit =
     (if want \<noteq> None \<and> got \<noteq> want then Reply401 else serveFeed configured cursor limit (unswept p))"

end
