(* ===== verification/Portal_Correct.thy ===== *)
theory Portal_Correct
  imports Portal "HOL-Library.Multiset"
begin

text \<open>
  What the announcement registry promises: the interleavings of concurrent issues, sweeps, backfills
  and flushes as a step relation, first write wins over all of them, the public projection, and the
  order of the cursor-paged feed.
\<close>

subsection \<open>Interleavings\<close>

record portal_world =
  pw_reg :: portal_registry
  pw_db :: "portal_record list"
  pw_begun :: "portal_record list"
  pw_inserted :: "portal_record list"

definition initial_world :: portal_world where
  "initial_world = \<lparr>pw_reg = new_portal, pw_db = [], pw_begun = [], pw_inserted = []\<rparr>"

text \<open>
  The awaits of \<open>issue\<close> split it into \<open>begin\<close>, \<open>insert\<close> and \<open>index\<close>; the routes pass normalised names,
  which are not empty. A failed insert drops the call. The chain events and the persist of the poll
  loop run between the awaits.
\<close>

inductive portal_step :: "portal_world \<Rightarrow> portal_world \<Rightarrow> bool" where
  begin_ok: "if_name f \<noteq> '''' \<Longrightarrow> issue_begin (pw_reg w) f now = (p, Inr r) \<Longrightarrow>
    portal_step w (w\<lparr>pw_reg := p, pw_begun := pw_begun w @ [r]\<rparr>)"
| begin_fail: "issue_begin (pw_reg w) f now = (p, Inl e) \<Longrightarrow> portal_step w (w\<lparr>pw_reg := p\<rparr>)"
| insert_ok: "r \<in> set (pw_begun w) \<Longrightarrow> issue_insert (pw_db w) r = (db, None) \<Longrightarrow>
    portal_step w (w\<lparr>pw_db := db, pw_begun := remove1 r (pw_begun w), pw_inserted := pw_inserted w @ [r]\<rparr>)"
| insert_fail: "r \<in> set (pw_begun w) \<Longrightarrow> issue_insert (pw_db w) r = (db, Some e) \<Longrightarrow>
    portal_step w (w\<lparr>pw_begun := remove1 r (pw_begun w)\<rparr>)"
| index_step: "r \<in> set (pw_inserted w) \<Longrightarrow> index_record (pw_reg w) r = (p, e) \<Longrightarrow>
    portal_step w (w\<lparr>pw_reg := p, pw_inserted := remove1 r (pw_inserted w)\<rparr>)"
| sweep_step: "portal_step w (w\<lparr>pw_reg := markSwept (pw_reg w) salt tx amount\<rparr>)"
| chain_step: "portal_step w (w\<lparr>pw_reg := recordChainAnnouncement (pw_reg w) a\<rparr>)"
| persist_step: "portal_step w (w\<lparr>pw_reg := portal_commitFlush (pw_reg w), pw_db := portal_flushInto (pw_reg w) (pw_db w)\<rparr>)"

inductive portal_reach :: "portal_world \<Rightarrow> bool" where
  reach_init: "portal_reach initial_world"
| reach_step: "portal_reach w \<Longrightarrow> portal_step w w' \<Longrightarrow> portal_reach w'"

subsection \<open>What the operations keep\<close>

text \<open>The part of a record that no operation changes.\<close>

definition ident :: "portal_record \<Rightarrow> nat \<times> string \<times> string \<times> string" where
  "ident r = (pr_seq r, pr_stealthAddr r, pr_name r, pr_owner r)"

abbreviation issued :: "portal_record \<Rightarrow> bool" where
  "issued r \<equiv> pr_name r \<noteq> ''''"

lemma index_record_fields:
  "index_record p r = (p', e) \<Longrightarrow> records p' = records p @ [r] \<and> pseq p' = pseq p"
  by (auto simp: index_record_def Let_def split: option.splits)

lemma issued_record_simps [simp]:
  "pr_seq (issued_record f n t) = n" "pr_name (issued_record f n t) = if_name f"
  by (simp_all add: issued_record_def)

lemma issue_begin_ok:
  "issue_begin p f now = (p', Inr r) \<Longrightarrow>
     p' = p\<lparr>pseq := Suc (pseq p)\<rparr> \<and> r = issued_record f (pseq p) now \<and> pr_seq r = pseq p \<and> pr_name r = if_name f"
  by (auto simp: issue_begin_def Let_def issued_record_def split: sum.splits bool.splits)

lemma issue_begin_fail: "issue_begin p f now = (p', Inl e) \<Longrightarrow> p' = p\<lparr>pseq := Suc (pseq p)\<rparr>"
  by (auto simp: issue_begin_def Let_def split: sum.splits bool.splits)

lemma ident_sweep [simp]: "ident (sweep_record tx amount r) = ident r"
  by (simp add: ident_def sweep_record_def)

lemma map_ident_update: "map ident (xs[k := sweep_record tx amount (xs ! k)]) = map ident xs"
  by (simp add: map_update list_update_same_conv) (metis list_update_id map_update nth_map linorder_not_less list_update_beyond length_map)

lemma markSwept_ident: "map ident (records (markSwept p salt tx amount)) = map ident (records p)"
  by (simp add: markSwept_def map_ident_update split: option.splits)

lemma markSwept_pseq [simp]: "pseq (markSwept p salt tx amount) = pseq p"
  by (simp add: markSwept_def split: option.splits)

lemma chain_records:
  "recordChainAnnouncement p a = p \<or>
   records (recordChainAnnouncement p a) = records p @ [backfill_record a (pseq p)] \<and>
   pseq (recordChainAnnouncement p a) = Suc (pseq p)"
  by (simp add: recordChainAnnouncement_def Let_def)

lemma backfill_not_issued [simp]: "pr_name (backfill_record a n) = ''''" "pr_seq (backfill_record a n) = n"
  by (simp_all add: backfill_record_def)

lemma swept_update_ident: "map ident (swept_update db r) = map ident db"
  by (simp add: swept_update_def ident_def)

text \<open>The table only grows, up to the swept columns, and keeps its two unique columns.\<close>

definition unique_rows :: "portal_record list \<Rightarrow> bool" where
  "unique_rows db \<longleftrightarrow> distinct (map pr_seq db) \<and> distinct (map pr_stealthAddr db)"

lemma unique_rows_ident:
  "unique_rows db \<longleftrightarrow> distinct (map fst (map ident db)) \<and> distinct (map (fst \<circ> snd) (map ident db))"
  by (simp add: unique_rows_def ident_def comp_def)

lemma backfill_insert_grows:
  "set (map ident db) \<subseteq> set (map ident (backfill_insert db r)) \<and> (unique_rows db \<longrightarrow> unique_rows (backfill_insert db r))"
  by (auto simp: backfill_insert_def unique_rows_def list_ex_iff)

lemma swept_update_grows:
  "set (map ident db) \<subseteq> set (map ident (swept_update db r)) \<and> (unique_rows db \<longrightarrow> unique_rows (swept_update db r))"
  by (simp only: unique_rows_ident swept_update_ident) simp

lemma fold_grows:
  assumes "\<And>k db. set (map ident db) \<subseteq> set (map ident (g k db)) \<and> (unique_rows db \<longrightarrow> unique_rows (g k db))"
  shows "set (map ident db) \<subseteq> set (map ident (fold g ks db)) \<and> (unique_rows db \<longrightarrow> unique_rows (fold g ks db))"
proof (induction ks arbitrary: db)
  case (Cons k ks)
  then show ?case using assms [of db k] Cons.IH [of "g k db"] by (auto simp only: fold.simps comp_apply)
qed simp

lemma flush_grows:
  "set (map ident db) \<subseteq> set (map ident (portal_flushInto p db)) \<and> (unique_rows db \<longrightarrow> unique_rows (portal_flushInto p db))"
  unfolding portal_flushInto_def
  using fold_grows [of "\<lambda>k db. backfill_insert db (records p ! k)" db "pendingInserts p"]
    fold_grows [of "\<lambda>k db. swept_update db (records p ! k)" "fold (\<lambda>k db. backfill_insert db (records p ! k)) (pendingInserts p) db" "pendingSwept p"]
    backfill_insert_grows swept_update_grows by blast

lemma issue_insert_ok:
  "issue_insert db r = (db', None) \<Longrightarrow> db' = db @ [r] \<and> (unique_rows db \<longrightarrow> unique_rows db')"
  by (auto simp: issue_insert_def unique_rows_def list_ex_iff split: if_splits) metis+

subsection \<open>The invariant of the interleavings\<close>

type_synonym pident = "nat \<times> string \<times> string \<times> string"

definition live_idents :: "portal_world \<Rightarrow> pident list" where
  "live_idents w = map ident (records (pw_reg w)) @ map ident (pw_begun w) @ map ident (pw_inserted w)"

definition live_ok :: "pident list \<Rightarrow> nat \<Rightarrow> bool" where
  "live_ok xs n \<longleftrightarrow> distinct (map fst xs) \<and> (\<forall>x\<in>set xs. fst x < n)"

text \<open>Every attributed record that is served, or about to be, has its row.\<close>

definition backed :: "pident list \<Rightarrow> portal_record list \<Rightarrow> bool" where
  "backed xs db \<longleftrightarrow> (\<forall>x\<in>set xs. fst (snd (snd x)) \<noteq> '''' \<longrightarrow> x \<in> set (map ident db))"

definition portal_inv :: "portal_world \<Rightarrow> bool" where
  "portal_inv w \<longleftrightarrow> live_ok (live_idents w) (pseq (pw_reg w)) \<and> unique_rows (pw_db w) \<and>
     backed (map ident (records (pw_reg w))) (pw_db w) \<and> backed (map ident (pw_inserted w)) (pw_db w)"

lemma mset_remove1_map: "x \<in> set xs \<Longrightarrow> mset (map f xs) = add_mset (f x) (mset (map f (remove1 x xs)))"
  by (induction xs) auto

lemma live_ok_mset:
  assumes "live_ok xs n" and "mset xs = mset ys + Z"
  shows "live_ok ys n"
proof -
  obtain zs where zs: "mset zs = Z" using ex_mset by blast
  then have eq: "mset xs = mset (ys @ zs)" using assms(2) by simp
  then have "mset (map fst xs) = mset (map fst (ys @ zs))" by simp
  then have "distinct (map fst (ys @ zs))"
    using assms(1) mset_eq_imp_distinct_iff unfolding live_ok_def by blast
  moreover have "set xs = set (ys @ zs)" using eq by (rule mset_eq_setD)
  ultimately show ?thesis using assms(1) unfolding live_ok_def by auto
qed

lemma live_ok_add:
  assumes "live_ok xs n" and "mset ys = add_mset (n, z) (mset xs)"
  shows "live_ok ys (Suc n)"
proof -
  have eq: "mset ys = mset ((n, z) # xs)" using assms(2) by simp
  then have "mset (map fst ys) = mset (map fst ((n, z) # xs))" by (metis mset_map)
  then have "distinct (map fst ys) \<longleftrightarrow> distinct (map fst ((n, z) # xs))" by (rule mset_eq_imp_distinct_iff)
  moreover have "set ys = set ((n, z) # xs)" using eq by (rule mset_eq_setD)
  ultimately show ?thesis using assms(1) unfolding live_ok_def by (auto simp: less_Suc_eq)
qed

lemma live_ok_Suc: "live_ok xs n \<Longrightarrow> live_ok xs (Suc n)"
  by (auto simp: live_ok_def)

lemma backed_mono: "backed xs db \<Longrightarrow> set ys \<subseteq> set xs \<Longrightarrow> set (map ident db) \<subseteq> set (map ident db') \<Longrightarrow> backed ys db'"
  unfolding backed_def by blast

lemma backed_append [simp]: "backed (xs @ ys) db \<longleftrightarrow> backed xs db \<and> backed ys db"
  by (auto simp: backed_def)

lemma set_remove1_map: "set (map f (remove1 x xs)) \<subseteq> set (map f xs)"
  using set_remove1_subset [of x xs] by auto

lemma inv_live: "portal_inv w \<Longrightarrow> live_ok (live_idents w) (pseq (pw_reg w))"
  by (simp add: portal_inv_def)

lemma inv_begin:
  assumes "portal_inv w" and "issue_begin (pw_reg w) f now = (p, Inr r)"
  shows "portal_inv (w\<lparr>pw_reg := p, pw_begun := pw_begun w @ [r]\<rparr>)"
proof -
  note r = issue_begin_ok [OF assms(2)]
  have "ident r = (pseq (pw_reg w), snd (ident r))" using r by (metis ident_def fst_conv prod.collapse)
  then have "live_ok (live_idents (w\<lparr>pw_reg := p, pw_begun := pw_begun w @ [r]\<rparr>)) (Suc (pseq (pw_reg w)))"
    using r by - (rule live_ok_add [OF inv_live [OF assms(1)], of _ "snd (ident r)"], simp add: live_idents_def)
  then show ?thesis using assms(1) r unfolding portal_inv_def by simp
qed

lemma inv_begin_fail:
  assumes "portal_inv w" and "issue_begin (pw_reg w) f now = (p, Inl e)"
  shows "portal_inv (w\<lparr>pw_reg := p\<rparr>)"
  using assms(1) issue_begin_fail [OF assms(2)] by (simp add: portal_inv_def live_idents_def live_ok_Suc)

lemma inv_insert:
  assumes "portal_inv w" and "r \<in> set (pw_begun w)" and "issue_insert (pw_db w) r = (db, None)"
  shows "portal_inv (w\<lparr>pw_db := db, pw_begun := remove1 r (pw_begun w), pw_inserted := pw_inserted w @ [r]\<rparr>)"
proof -
  let ?w = "w\<lparr>pw_db := db, pw_begun := remove1 r (pw_begun w), pw_inserted := pw_inserted w @ [r]\<rparr>"
  note db = issue_insert_ok [OF assms(3)]
  have "live_ok (live_idents ?w) (pseq (pw_reg w))"
    by (rule live_ok_mset [OF inv_live [OF assms(1)], of _ "{#}"]) (simp add: live_idents_def mset_remove1_map [OF assms(2), of ident] del: mset_map)
  moreover have "backed [ident r] db" using db by (simp add: backed_def)
  moreover have "backed xs (pw_db w) \<Longrightarrow> backed xs db" for xs using db by (auto simp: backed_def)
  ultimately show ?thesis using assms(1) db unfolding portal_inv_def by auto
qed

lemma inv_insert_fail:
  assumes "portal_inv w" and "r \<in> set (pw_begun w)"
  shows "portal_inv (w\<lparr>pw_begun := remove1 r (pw_begun w)\<rparr>)"
proof -
  have "live_ok (live_idents (w\<lparr>pw_begun := remove1 r (pw_begun w)\<rparr>)) (pseq (pw_reg w))"
    by (rule live_ok_mset [OF inv_live [OF assms(1)], of _ "{#ident r#}"]) (simp add: live_idents_def mset_remove1_map [OF assms(2), of ident] del: mset_map)
  then show ?thesis using assms(1) unfolding portal_inv_def by simp
qed

lemma inv_index:
  assumes "portal_inv w" and "r \<in> set (pw_inserted w)" and "index_record (pw_reg w) r = (p, e)"
  shows "portal_inv (w\<lparr>pw_reg := p, pw_inserted := remove1 r (pw_inserted w)\<rparr>)"
proof -
  let ?w = "w\<lparr>pw_reg := p, pw_inserted := remove1 r (pw_inserted w)\<rparr>"
  note p = index_record_fields [OF assms(3)]
  have "live_ok (live_idents ?w) (pseq (pw_reg w))"
    by (rule live_ok_mset [OF inv_live [OF assms(1)], of _ "{#}"]) (simp add: live_idents_def p mset_remove1_map [OF assms(2), of ident] del: mset_map)
  moreover have "backed [ident r] (pw_db w)"
    by (rule backed_mono [of "map ident (pw_inserted w)" "pw_db w"]) (use assms in \<open>simp_all add: portal_inv_def\<close>)
  moreover have "backed (map ident (remove1 r (pw_inserted w))) (pw_db w)"
    by (rule backed_mono [of "map ident (pw_inserted w)" "pw_db w", OF _ set_remove1_map]) (use assms(1) in \<open>simp_all add: portal_inv_def\<close>)
  ultimately show ?thesis using assms(1) p unfolding portal_inv_def by simp
qed

lemma inv_chain:
  assumes "portal_inv w"
  shows "portal_inv (w\<lparr>pw_reg := recordChainAnnouncement (pw_reg w) a\<rparr>)"
proof (cases "recordChainAnnouncement (pw_reg w) a = pw_reg w")
  case True
  then show ?thesis using assms by simp
next
  case False
  let ?w = "w\<lparr>pw_reg := recordChainAnnouncement (pw_reg w) a\<rparr>" and ?r = "backfill_record a (pseq (pw_reg w))"
  have r: "records (pw_reg ?w) = records (pw_reg w) @ [?r]" "pseq (pw_reg ?w) = Suc (pseq (pw_reg w))"
    using False chain_records [of "pw_reg w" a] by auto
  have id: "ident ?r = (pseq (pw_reg w), snd (ident ?r))" "fst (snd (snd (ident ?r))) = ''''" by (simp_all add: ident_def)
  then have "live_ok (live_idents ?w) (Suc (pseq (pw_reg w)))"
    using r by - (rule live_ok_add [OF inv_live [OF assms], of _ "snd (ident ?r)"], simp add: live_idents_def)
  moreover have "backed [ident ?r] (pw_db w)" using id by (simp add: backed_def)
  ultimately show ?thesis using assms r unfolding portal_inv_def by simp
qed

lemma inv_persist:
  assumes "portal_inv w"
  shows "portal_inv (w\<lparr>pw_reg := portal_commitFlush (pw_reg w), pw_db := portal_flushInto (pw_reg w) (pw_db w)\<rparr>)"
  using assms flush_grows [of "pw_db w" "pw_reg w"] backed_mono [OF _ subset_refl]
  unfolding portal_inv_def live_idents_def portal_commitFlush_def by simp blast

lemma inv_step: "portal_step w w' \<Longrightarrow> portal_inv w \<Longrightarrow> portal_inv w'"
  by (induction rule: portal_step.induct)
    (simp_all add: inv_begin inv_begin_fail inv_insert inv_insert_fail inv_index inv_chain inv_persist,
     simp add: portal_inv_def live_idents_def markSwept_ident)

lemma inv_reach: "portal_reach w \<Longrightarrow> portal_inv w"
proof (induction rule: portal_reach.induct)
  case reach_init
  show ?case by (simp add: portal_inv_def initial_world_def live_idents_def live_ok_def backed_def new_portal_def unique_rows_def)
qed (rule inv_step)

lemma live_distinct_seq: "portal_inv w \<Longrightarrow> distinct (map pr_seq (records (pw_reg w)))"
  by (simp add: portal_inv_def live_ok_def live_idents_def ident_def comp_def)

text \<open>In a list whose attributed elements all have their rows in a table with unique columns, the addresses are unique too.\<close>

lemma distinct_addresses:
  assumes "unique_rows db" and "distinct (map pr_seq rs)" and "backed (map ident rs) db"
  shows "distinct (map pr_stealthAddr (filter issued rs))"
  using assms(2,3)
proof (induction rs)
  case (Cons r rs)
  have "pr_stealthAddr r \<notin> pr_stealthAddr ` set (filter issued rs)" if "issued r"
  proof
    assume "pr_stealthAddr r \<in> pr_stealthAddr ` set (filter issued rs)"
    then obtain x where x: "x \<in> set rs" "issued x" "pr_stealthAddr x = pr_stealthAddr r" by auto
    have "ident r \<in> set (map ident db)" "ident x \<in> set (map ident db)"
      using Cons.prems(2) x(1,2) that by (auto simp: backed_def ident_def)
    then obtain a b where ab: "a \<in> set db" "b \<in> set db" "ident a = ident r" "ident b = ident x" by auto
    then have "pr_stealthAddr a = pr_stealthAddr b" using x(3) by (simp add: ident_def)
    then have "a = b" using assms(1) ab(1,2) by (metis unique_rows_def distinct_map inj_onD)
    then have "pr_seq r = pr_seq x" using ab(3,4) by (simp add: ident_def)
    then show False using Cons.prems(1) x(1) by auto
  qed
  then show ?case using Cons by (auto simp: backed_def)
qed simp

text \<open>
  C14: First write wins. In every interleaving of concurrent announcements, sweeps, backfills and
  persists, no two attributed records that the registry serves have the same stealth address, nor do
  two rows of the table; the sequence numbers are distinct and below the counter, and every
  attributed record served is in the table with its number, its address and its attribution.
\<close>
theorem first_write_wins:
  assumes "portal_reach w"
  shows "distinct (map pr_stealthAddr (filter issued (records (pw_reg w)))) \<and>
    distinct (map pr_stealthAddr (pw_db w)) \<and> distinct (map pr_seq (records (pw_reg w))) \<and>
    list_all (\<lambda>r. pr_seq r < pseq (pw_reg w)) (records (pw_reg w)) \<and>
    ident ` set (filter issued (records (pw_reg w))) \<subseteq> ident ` set (pw_db w)"
proof -
  have inv: "portal_inv w" by (rule inv_reach [OF assms])
  have u: "unique_rows (pw_db w)" and b: "backed (map ident (records (pw_reg w))) (pw_db w)"
    using inv by (simp_all add: portal_inv_def)
  note d = live_distinct_seq [OF inv]
  have "ident ` set (filter issued (records (pw_reg w))) \<subseteq> ident ` set (pw_db w)"
    using b by (auto simp: backed_def ident_def)
  moreover have "list_all (\<lambda>r. pr_seq r < pseq (pw_reg w)) (records (pw_reg w))"
    using inv_live [OF inv] by (simp add: live_ok_def live_idents_def list_all_iff ident_def ball_Un)
  moreover have "distinct (map pr_stealthAddr (pw_db w))" using u by (simp add: unique_rows_def)
  ultimately show ?thesis using distinct_addresses [OF u d b] d by (intro conjI)
qed

definition demo_addr :: string where
  "demo_addr = ''0x'' @ replicate 40 (CHR ''a'')"

definition demo_fields :: "string \<Rightarrow> string \<Rightarrow> issuance_fields" where
  "demo_fields name addr =
     \<lparr>if_name = name, if_owner = ''o'', if_ephemeralPub = ''e'', if_viewTag = 7, if_stealthAddr = addr,
      if_destination = ''d'', if_factory = ''f'', if_rail = ''evm''\<rparr>"

definition demo_record :: portal_record where
  "demo_record = issued_record (demo_fields ''bob'' demo_addr) 0 5"

lemma demo_begin: "issue_begin new_portal (demo_fields ''bob'' demo_addr) 5 = (new_portal\<lparr>pseq := 1\<rparr>, Inr demo_record)"
  by code_simp

lemma first_write_wins_witness:
  "Let \<lparr>pw_reg = new_portal\<lparr>pseq := 1\<rparr>, pw_db = [], pw_begun = [demo_record], pw_inserted = []\<rparr> (\<lambda>w.
     distinct (map pr_stealthAddr (filter issued (records (pw_reg w)))) \<and>
     distinct (map pr_stealthAddr (pw_db w)) \<and> distinct (map pr_seq (records (pw_reg w))) \<and>
     list_all (\<lambda>r. pr_seq r < pseq (pw_reg w)) (records (pw_reg w)) \<and>
     ident ` set (filter issued (records (pw_reg w))) \<subseteq> ident ` set (pw_db w))"
proof -
  let ?w = "\<lparr>pw_reg = new_portal\<lparr>pseq := 1\<rparr>, pw_db = [], pw_begun = [demo_record], pw_inserted = []\<rparr>"
  have "portal_step initial_world (initial_world\<lparr>pw_reg := new_portal\<lparr>pseq := 1\<rparr>, pw_begun := pw_begun initial_world @ [demo_record]\<rparr>)"
    by (rule begin_ok [of "demo_fields ''bob'' demo_addr" initial_world 5]) (simp_all add: initial_world_def demo_begin, simp add: demo_fields_def)
  then have "portal_reach ?w" using reach_step [OF reach_init] by (simp add: initial_world_def)
  from first_write_wins [OF this] show ?thesis unfolding Let_def .
qed

subsection \<open>The order of the feed\<close>

lemma index_ok: "portalSalt (pr_stealthAddr r) \<noteq> None \<Longrightarrow> snd (index_record p r) = None"
  by (auto simp: index_record_def Let_def)

text \<open>
  C32: Two overlapping announcements can leave the feed out of order, and then a client that follows
  the cursor never sees one of them. When a second call takes its number while the first waits for
  the database, and reaches the registry first, a page that ends with the second record hides the
  first for ever: it is in the registry, and no page after that cursor, of any length, contains it.
\<close>
theorem overtaken_record_hidden:
  assumes "issue_begin p f now = (p1, Inr a)" and "issue_begin p1 g now' = (p2, Inr b)"
    and "index_record p2 b = (p3, None)" and "index_record p3 a = (p4, None)"
    and "list_all (\<lambda>r. pr_seq r < pseq p) (records p)"
  shows "last (list_records p3 (-1) None) = b \<and> a \<in> set (records p4) \<and>
    (\<forall>limit. toPublic a \<notin> set (listPublic p4 (int (pr_seq b)) limit))"
proof -
  note a = issue_begin_ok [OF assms(1)] and b = issue_begin_ok [OF assms(2)]
  have r: "records p3 = records p @ [b]" "records p4 = records p @ [b, a]"
    using a b index_record_fields [OF assms(3)] index_record_fields [OF assms(4)] by simp_all
  have s: "pr_seq a = pseq p" "pr_seq b = Suc (pseq p)" using a b by simp_all
  have "filter (\<lambda>r. int (pr_seq r) > int (pr_seq b)) (records p4) = []"
    using assms(5) s r by (auto simp: filter_empty_conv list_all_iff)
  then have "listPublic p4 (int (pr_seq b)) limit = []" for limit
    by (simp add: listPublic_def list_records_def take_limit_def split: option.splits)
  then show ?thesis using r by (simp add: list_records_def take_limit_def)
qed

definition demo_addr2 :: string where
  "demo_addr2 = ''0x'' @ replicate 40 (CHR ''b'')"

lemma overtaken_record_hidden_witness:
  "Let (issued_record (demo_fields ''bob'' demo_addr) 0 5, issued_record (demo_fields ''eve'' demo_addr2) 1 6) (\<lambda>(a, b).
     Let (fst (index_record (new_portal\<lparr>pseq := 2\<rparr>) b)) (\<lambda>p3. Let (fst (index_record p3 a)) (\<lambda>p4.
       last (list_records p3 (-1) None) = b \<and> a \<in> set (records p4) \<and>
       (\<forall>limit. toPublic a \<notin> set (listPublic p4 (int (pr_seq b)) limit)))))"
proof -
  let ?a = "issued_record (demo_fields ''bob'' demo_addr) 0 5" and ?b = "issued_record (demo_fields ''eve'' demo_addr2) 1 6"
  let ?p2 = "new_portal\<lparr>pseq := 2\<rparr>"
  let ?p3 = "fst (index_record ?p2 ?b)"
  let ?p4 = "fst (index_record ?p3 ?a)"
  have s: "portalSalt (pr_stealthAddr ?a) \<noteq> None" "portalSalt (pr_stealthAddr ?b) \<noteq> None" by code_simp+
  have "issue_begin new_portal (demo_fields ''bob'' demo_addr) 5 = (new_portal\<lparr>pseq := 1\<rparr>, Inr ?a)"
    and "issue_begin (new_portal\<lparr>pseq := 1\<rparr>) (demo_fields ''eve'' demo_addr2) 6 = (?p2, Inr ?b)" by code_simp+
  moreover have "index_record ?p2 ?b = (?p3, None)" using index_ok [OF s(2), of ?p2] by (metis prod.collapse)
  moreover have "index_record ?p3 ?a = (?p4, None)" using index_ok [OF s(1), of ?p3] by (metis prod.collapse)
  moreover have "list_all (\<lambda>r. pr_seq r < pseq new_portal) (records new_portal)" by (simp add: new_portal_def)
  ultimately show ?thesis unfolding Let_def case_prod_conv by (rule overtaken_record_hidden)
qed

end
