(* ===== verification/Pg_Store.thy ===== *)
theory Pg_Store
  imports Feed_Store Ledger Portal
begin

text \<open>
  Durability: the classes \<open>PostgresStore\<close> and \<open>PostgresLedger\<close> of \<open>apps/indexer/src/postgres.ts\<close>
  (write-behind buffers, staging and boot) and \<open>apps/indexer/src/persist.ts\<close>, the one transaction
  that persists the participants of the poll loop.

  A table is the list of its rows and the statements are written out on it, with the conflict
  targets of \<open>apps/indexer/src/schema.sql\<close>: a violated constraint that the statement does not name
  as its conflict target is an error, which aborts the transaction. A feed entry is one mutable
  object that the read model and the buffer share, so the buffer holds positions in the feed; the
  payload column is the entry.
\<close>

subsection \<open>The store\<close>

record pg_store =
  ps_mem :: feed_store
  pendingEvents :: "nat list"
  pendingNullifiers :: "int list"

definition new_pg_store :: pg_store where
  "new_pg_store = \<lparr>ps_mem = new_store, pendingEvents = [], pendingNullifiers = []\<rparr>"

text \<open>The result is the position of the new entry.\<close>

definition pg_addEvent :: "pg_store \<Rightarrow> feed_draft \<Rightarrow> pg_store \<times> nat option" where
  "pg_addEvent s e =
     (case addEvent (ps_mem s) e of
        (m, None) \<Rightarrow> (s\<lparr>ps_mem := m\<rparr>, None)
      | (m, Some entry) \<Rightarrow>
          (let k = length (feed (ps_mem s)) in (s\<lparr>ps_mem := m, pendingEvents := pendingEvents s @ [k]\<rparr>, Some k)))"

definition pg_addNullifiers :: "pg_store \<Rightarrow> int list \<Rightarrow> pg_store" where
  "pg_addNullifiers s nfs =
     (let before = nullifiers (ps_mem s); m = addNullifiers (ps_mem s) nfs in
      s\<lparr>ps_mem := m, pendingNullifiers := pendingNullifiers s @ filter (\<lambda>nf. nf \<notin> set before) (nullifiers m)\<rparr>)"

record store_db =
  sd_events :: "feed_entry list"
  sd_nullifiers :: "int list"
  sd_leaves :: "leaf_row list"
  sd_cursor :: "int option"

datatype db_error = UniqueViolation | CursorWithoutTarget | CommitFailed

definition insert_event :: "feed_entry \<Rightarrow> store_db \<Rightarrow> db_error + store_db" where
  "insert_event e db =
     (if list_ex (\<lambda>x. draft_key x = draft_key e) (sd_events db) then Inr db
      else if list_ex (\<lambda>x. fe_seq x = fe_seq e) (sd_events db) then Inl UniqueViolation
      else Inr (db\<lparr>sd_events := sd_events db @ [e]\<rparr>))"

fun insert_events :: "feed_entry list \<Rightarrow> store_db \<Rightarrow> db_error + store_db" where
  "insert_events [] db = Inr db"
| "insert_events (e # es) db =
     (case insert_event e db of Inl x \<Rightarrow> Inl x | Inr db' \<Rightarrow> insert_events es db')"

definition insert_nullifier :: "int \<Rightarrow> store_db \<Rightarrow> store_db" where
  "insert_nullifier nf db =
     (if nf \<in> set (sd_nullifiers db) then db else db\<lparr>sd_nullifiers := sd_nullifiers db @ [nf]\<rparr>)"

definition insert_leaf :: "leaf_row \<Rightarrow> store_db \<Rightarrow> store_db" where
  "insert_leaf r db =
     (if list_ex (\<lambda>x. row_leafIndex x = row_leafIndex r) (sd_leaves db) then db
      else db\<lparr>sd_leaves := sd_leaves db @ [r]\<rparr>)"

definition store_flushInto :: "pg_store \<Rightarrow> mirror \<Rightarrow> store_db \<Rightarrow> db_error + store_db" where
  "store_flushInto s m db =
     (case insert_events (map (\<lambda>k. feed (ps_mem s) ! k) (pendingEvents s)) db of
        Inl x \<Rightarrow> Inl x
      | Inr db1 \<Rightarrow> Inr (fold insert_leaf (pendingLeaves m) (fold insert_nullifier (pendingNullifiers s) db1)))"

definition persistCursorInto :: "int \<Rightarrow> store_db \<Rightarrow> store_db" where
  "persistCursorInto block db = db\<lparr>sd_cursor := Some block\<rparr>"

definition store_commitFlush :: "pg_store \<times> mirror \<Rightarrow> pg_store \<times> mirror" where
  "store_commitFlush w = ((fst w)\<lparr>pendingEvents := [], pendingNullifiers := []\<rparr>, clearPendingLeaves (snd w))"

text \<open>The row without its sequence number: the read model assigns it again.\<close>

definition draft_of :: "feed_entry \<Rightarrow> feed_draft" where
  "draft_of e = feed_draft.truncate e"

definition store_boot :: "hash2 \<Rightarrow> mirror \<Rightarrow> store_db \<Rightarrow> pg_store \<times> mirror \<times> mirror_error option" where
  "store_boot h m db =
     (case rebuildFromLeaves h m (sort_key row_leafIndex (sd_leaves db)) of
        (m', Some e) \<Rightarrow> (new_pg_store, m', Some e)
      | (m', None) \<Rightarrow>
          (let mem1 = fold (\<lambda>e s. fst (addEvent s (draft_of e))) (sort_key fe_seq (sd_events db)) new_store;
               mem2 = addNullifiers mem1 (sd_nullifiers db);
               mem3 = mem2\<lparr>lastBlock := (case sd_cursor db of None \<Rightarrow> -1 | Some b \<Rightarrow> b)\<rparr>
           in (new_pg_store\<lparr>ps_mem := mem3\<rparr>, m', None)))"

subsection \<open>The ledger\<close>

record ledger_db =
  ld_notes :: "ledger_note list"
  ld_history :: "(point \<times> history_entry) list"
  ld_alarms :: "envelope_alarm list"
  ld_applied :: "(string \<times> nat) list"

definition insert_note :: "ledger_note \<Rightarrow> ledger_db \<Rightarrow> ledger_db" where
  "insert_note n db =
     (if list_ex (\<lambda>x. ln_leafIndex x = ln_leafIndex n) (ld_notes db) then db
      else db\<lparr>ld_notes := ld_notes db @ [n]\<rparr>)"

definition update_spent :: "int \<Rightarrow> ledger_db \<Rightarrow> ledger_db" where
  "update_spent c db =
     db\<lparr>ld_notes := map (\<lambda>n. if ln_commitment n = c then n\<lparr>ln_spent := True\<rparr> else n) (ld_notes db)\<rparr>"

definition insert_history :: "point \<times> history_entry \<Rightarrow> ledger_db \<Rightarrow> ledger_db" where
  "insert_history r db =
     (if list_ex (\<lambda>x. he_seq (snd x) = he_seq (snd r)) (ld_history db) then db
      else db\<lparr>ld_history := ld_history db @ [r]\<rparr>)"

definition insert_alarm :: "envelope_alarm \<Rightarrow> ledger_db \<Rightarrow> ledger_db" where
  "insert_alarm a db =
     (if list_ex (\<lambda>x. ea_txHash x = ea_txHash a \<and> ea_detail x = ea_detail a) (ld_alarms db) then db
      else db\<lparr>ld_alarms := ld_alarms db @ [a]\<rparr>)"

definition insert_applied :: "string \<times> nat \<Rightarrow> ledger_db \<Rightarrow> ledger_db" where
  "insert_applied k db = (if k \<in> set (ld_applied db) then db else db\<lparr>ld_applied := ld_applied db @ [k]\<rparr>)"

definition ledger_flushInto :: "ledger \<Rightarrow> ledger_db \<Rightarrow> ledger_db" where
  "ledger_flushInto l db =
     fold insert_applied (pendingApplied l)
       (fold insert_alarm (pendingAlarms l)
         (fold insert_history (pendingHistory l)
           (fold update_spent (pendingSpent l)
             (fold insert_note (map (\<lambda>p. note_heap l ! p) (pendingNotes l)) db))))"

definition boot_note :: "ledger_note \<Rightarrow> ledger \<Rightarrow> ledger" where
  "boot_note n l =
     (let p = length (note_heap l) in
      l\<lparr>note_heap := note_heap l @ [n], byOwner := AList.update (ln_owner n) (list_at (byOwner l) (ln_owner n) @ [p]) (byOwner l),
        byCommitment := AList.update (ln_commitment n) p (byCommitment l)\<rparr>)"

text \<open>The notes of the disburse blocks, by block; a full block is filled again.\<close>

definition batch_groups :: "mirror \<Rightarrow> nat \<Rightarrow> ledger_note list \<Rightarrow> (nat \<times> ledger_note list) list" where
  "batch_groups m B rows =
     fold (\<lambda>n g. let block = ln_leafIndex n div B in
             if isBatch m block then AList.update block (list_at g block @ [n]) g else g) rows []"

definition refill_batches :: "nat \<Rightarrow> (nat \<times> ledger_note list) list \<Rightarrow> mirror \<Rightarrow> mirror" where
  "refill_batches B groups m =
     fold (\<lambda>(block, g) m. if length g = B
             then fillBatch m (block * B) (map ln_commitment (sort_key ln_leafIndex g)) Arbiter else m) groups m"

definition boot_history :: "point \<times> history_entry \<Rightarrow> ledger \<Rightarrow> ledger" where
  "boot_history r l = l\<lparr>historyByOwner := pushHistory (historyByOwner l) (fst r) (snd r)\<rparr>"

definition ledger_boot :: "nat \<Rightarrow> mirror \<Rightarrow> ledger_db \<Rightarrow> ledger \<times> mirror" where
  "ledger_boot B m db =
     (let rows = sort_key ln_leafIndex (ld_notes db); hist = sort_key (he_seq \<circ> snd) (ld_history db);
          l1 = fold boot_note rows new_ledger; l2 = fold boot_history hist l1;
          l3 = l2\<lparr>historySeq := nat (fold (\<lambda>r acc. max acc (int (he_seq (snd r)))) hist (-1) + 1),
                  env_alarms := ld_alarms db, applied_ops := set (ld_applied db)\<rparr>
      in (l3, refill_batches B (batch_groups m B rows) m))"

subsection \<open>The transaction\<close>

text \<open>
  A participant is its \<open>flushInto\<close>, which stages rows in the open transaction or throws, and its
  \<open>commitFlush\<close>. \<open>commits\<close> tells whether \<open>COMMIT\<close> succeeds (a crash before it and the fault hook
  count as failures). A participant reads the object state \<open>'w\<close> and cannot change it before the
  commit.
\<close>

type_synonym ('w, 'd) participant = "('w \<Rightarrow> 'd \<Rightarrow> db_error + 'd) \<times> ('w \<Rightarrow> 'w)"

fun flush_all :: "('w, 'd) participant list \<Rightarrow> 'w \<Rightarrow> 'd \<Rightarrow> db_error + 'd" where
  "flush_all [] w db = Inr db"
| "flush_all (p # ps) w db = (case fst p w db of Inl e \<Rightarrow> Inl e | Inr db' \<Rightarrow> flush_all ps w db')"

definition persistAtomically ::
  "('w, 'd) participant list \<Rightarrow> bool \<Rightarrow> 'w \<times> 'd \<Rightarrow> ('w \<times> 'd) \<times> db_error option" where
  "persistAtomically ps commits wd =
     (case flush_all ps (fst wd) (snd wd) of
        Inl e \<Rightarrow> (wd, Some e)
      | Inr db' \<Rightarrow> if \<not> commits then (wd, Some CommitFailed) else ((fold snd ps (fst wd), db'), None))"

text \<open>\<open>BlockCursor\<close>: its target and the store whose cursor it advances.\<close>

definition cursor_flushInto :: "int \<Rightarrow> store_db \<Rightarrow> db_error + store_db" where
  "cursor_flushInto target db = (if target < 0 then Inl CursorWithoutTarget else Inr (persistCursorInto target db))"

definition cursor_commitFlush :: "int \<Rightarrow> pg_store \<Rightarrow> pg_store" where
  "cursor_commitFlush target s = s\<lparr>ps_mem := (ps_mem s)\<lparr>lastBlock := target\<rparr>\<rparr>"

end
