(* ===== verification/Ingest.thy ===== *)
theory Ingest
  imports Pg_Store
begin

text \<open>
  \<open>apps/indexer/src/ingest.ts\<close>, the method \<open>applyLogs\<close>: the address gate, the pass that drives the
  mirror, the queues that correlate an operation's events inside its transaction, one handler per
  event and the drain of the audit anchors.

  A decoded log is a constructor of \<open>log_event\<close> with the arguments its handler reads; \<open>event_name\<close> is the
  name the code dispatches on. Byte strings are the bytes their hex text encodes. The queues of one
  call (JavaScript maps from a transaction to an array) are association lists in insertion order. A
  handler returns the state it leaves and the error it threw; the state that outlives the call is the
  record \<open>indexer\<close>, whose \<open>console\<close> lists the alarm lines printed.
\<close>

subsection \<open>Logs\<close>

record op_args =
  oa_key :: point
  oa_nonce :: int
  oa_authorityCt :: "int list"
  oa_kemBinding :: "int option"
  oa_kemCiphertext :: "bytes option"

record priv_args =
  pa_key :: point
  pa_nonce :: int
  pa_viewTags :: "int list"
  pa_kemCiphertexts :: "string list"

record op_anchor =
  an_module :: string
  an_startLeafIndex :: nat
  an_nullifierCount :: nat
  an_leafCount :: nat
  an_subtreeRoot :: int
  an_root :: int

datatype log_event =
    EvAppended nat int int
  | EvSubtreeAppended nat int int
  | EvOpApplied op_anchor
  | EvDeposited int int op_args
  | EvTransferred "int \<times> int" "int \<times> int" nat "int list" "int list" op_args
  | EvTransferred10 "int list" "int list" nat "int list" op_args
  | EvTransferred10x2 "int list" "int list" nat "int list" op_args
  | EvWithdrawn int "int \<times> int" op_args
  | EvWithdrawAnnouncement int string nat
  | EvDisbursed int int nat int op_args
  | EvDisburseCiphertexts nat "int list"
  | EvModuleRegistered string
  | EvModuleRemoved string
  | EvSwept string string int
  | EvAnnounced string string nat
  | EvDepositedPriv int int "int list" "int list" priv_args
  | EvTransferredPriv "int \<times> int" "int list" "int list" "int list" priv_args
  | EvTransferred10x2Priv "int \<times> int" "int list" "int list" priv_args
  | EvWithdrawnPriv int "int list" "int list" priv_args
  | EvDisbursedPriv int int int "string list" point int
  | EvDisbursePrivDisclosure nat "int list"
  | EvDisburseKemChunkAccepted nat int "string option"

fun event_name :: "log_event \<Rightarrow> string" where
  "event_name (EvAppended _ _ _) = ''Appended''"
| "event_name (EvSubtreeAppended _ _ _) = ''SubtreeAppended''"
| "event_name (EvOpApplied _) = ''OpApplied''"
| "event_name (EvDeposited _ _ _) = ''Deposited''"
| "event_name (EvTransferred _ _ _ _ _ _) = ''Transferred''"
| "event_name (EvTransferred10 _ _ _ _ _) = ''Transferred10''"
| "event_name (EvTransferred10x2 _ _ _ _ _) = ''Transferred10x2''"
| "event_name (EvWithdrawn _ _ _) = ''Withdrawn''"
| "event_name (EvWithdrawAnnouncement _ _ _) = ''WithdrawAnnouncement''"
| "event_name (EvDisbursed _ _ _ _ _) = ''Disbursed''"
| "event_name (EvDisburseCiphertexts _ _) = ''DisburseCiphertexts''"
| "event_name (EvModuleRegistered _) = ''ModuleRegistered''"
| "event_name (EvModuleRemoved _) = ''ModuleRemoved''"
| "event_name (EvSwept _ _ _) = ''Swept''"
| "event_name (EvAnnounced _ _ _) = ''Announced''"
| "event_name (EvDepositedPriv _ _ _ _ _) = ''DepositedPriv''"
| "event_name (EvTransferredPriv _ _ _ _ _) = ''TransferredPriv''"
| "event_name (EvTransferred10x2Priv _ _ _ _) = ''Transferred10x2Priv''"
| "event_name (EvWithdrawnPriv _ _ _ _) = ''WithdrawnPriv''"
| "event_name (EvDisbursedPriv _ _ _ _ _ _) = ''DisbursedPriv''"
| "event_name (EvDisbursePrivDisclosure _ _) = ''DisbursePrivDisclosure''"
| "event_name (EvDisburseKemChunkAccepted _ _ _) = ''DisburseKemChunkAccepted''"

definition POOL_EVENT_NAMES :: "string set" where
  "POOL_EVENT_NAMES = {''Appended'', ''SubtreeAppended'', ''OpApplied'', ''Deposited'', ''Transferred'', ''Transferred10'',
     ''Transferred10x2'', ''Withdrawn'', ''WithdrawAnnouncement'', ''Disbursed'', ''DisburseCiphertexts'',
     ''ModuleRegistered'', ''ModuleRemoved''}"

definition MODULE_EVENT_NAMES :: "string set" where
  "MODULE_EVENT_NAMES = {''DepositedPriv'', ''TransferredPriv'', ''Transferred10x2Priv'', ''WithdrawnPriv'',
     ''DisbursedPriv'', ''DisbursePrivDisclosure'', ''DisburseKemChunkAccepted'', ''WithdrawAnnouncement''}"

record parsed_log =
  pl_event :: log_event
  pl_blockNumber :: nat
  pl_logIndex :: nat
  pl_txHash :: string
  pl_address :: "string option"
  pl_blockTimestamp :: nat

definition kemOf :: "op_args \<Rightarrow> (int \<times> bytes) option" where
  "kemOf a = (case (oa_kemBinding a, oa_kemCiphertext a) of (Some b, Some c) \<Rightarrow> Some (b, c) | _ \<Rightarrow> None)"

subsection \<open>State\<close>

datatype console_line =
    DisclosureLine bool disclosure_result
  | AttributionGap string op_anchor
  | BackfillSkipped string

record indexer =
  ix_mirror :: mirror
  ix_store :: pg_store
  ix_ledger :: "ledger option"
  ix_modules :: module_registry
  ix_kem :: kem_store
  ix_portal :: portal_registry
  console :: "console_line list"

type_synonym 'a tx_queue = "(string \<times> 'a list) list"

record ingest = indexer +
  q_appended :: "(nat \<times> int \<times> int) tx_queue"
  q_subtrees :: "(nat \<times> int \<times> int) tx_queue"
  q_anchors :: "op_anchor tx_queue"
  q_disclosures :: "((string \<times> nat) \<times> int list) list"
  q_ciphertexts :: "((string \<times> nat) \<times> int list) list"
  q_withdraws :: "nat tx_queue"
  q_swept :: "(string \<times> string \<times> int \<times> string) list"

definition start_ingest :: "indexer \<Rightarrow> ingest" where
  "start_ingest w = indexer.extend w
     \<lparr>q_appended = [], q_subtrees = [], q_anchors = [], q_disclosures = [], q_ciphertexts = [], q_withdraws = [], q_swept = []\<rparr>"

record ingest_env = ledger_env +
  ie_pool :: string
  ie_portalFactory :: "string option"
  ie_portalPrivFactory :: "string option"
  ie_keccak :: "string \<Rightarrow> string"

datatype ingest_error =
    NoAppended | CommitmentMismatch nat
  | NoOpApplied | OpAppliedEmitter | OpAppliedUnknownModule | OpAppliedDisagrees
  | NoSubtreeAppended | SubtreeMismatch nat
  | MirrorThrew mirror_error | LedgerThrew derive_error | RegistryThrew registry_error | KemThrew kem_error

definition push_queue :: "'a tx_queue \<Rightarrow> string \<Rightarrow> 'a \<Rightarrow> 'a tx_queue" where
  "push_queue q tx x = AList.update tx (list_at q tx @ [x]) q"

definition shift_queue :: "'a tx_queue \<Rightarrow> string \<Rightarrow> 'a option \<times> 'a tx_queue" where
  "shift_queue q tx = (case list_at q tx of [] \<Rightarrow> (None, q) | x # xs \<Rightarrow> (Some x, AList.update tx xs q))"

subsection \<open>Pass 0: the address gate\<close>

fun gate :: "ingest_env \<Rightarrow> string set \<Rightarrow> parsed_log list \<Rightarrow> parsed_log list" where
  "gate E watched [] = []"
| "gate E watched (l # ls) =
     (let src = map_option toLowerCase (pl_address l); name = event_name (pl_event l) in
      if src = None \<or> src = Some (toLowerCase (ie_pool E))
      then (let watched' = (case pl_event l of EvModuleRegistered m \<Rightarrow> insert (toLowerCase m) watched | _ \<Rightarrow> watched)
            in if name \<in> POOL_EVENT_NAMES then l # gate E watched' ls else gate E watched' ls)
      else if ie_portalFactory E \<noteq> None \<and> src = map_option toLowerCase (ie_portalFactory E)
      then (if name = ''Swept'' then l # gate E watched ls else gate E watched ls)
      else if ie_portalPrivFactory E \<noteq> None \<and> src = map_option toLowerCase (ie_portalPrivFactory E)
      then (if name = ''Swept'' \<or> name = ''Announced'' then l # gate E watched ls else gate E watched ls)
      else if the src \<in> watched \<and> name \<in> MODULE_EVENT_NAMES then l # gate E watched ls
      else gate E watched ls)"

definition watched_at_start :: "indexer \<Rightarrow> string set" where
  "watched_at_start w = set (watchAddresses (ix_modules w) (pendingModules (ix_kem w)))"

subsection \<open>Pass 1: the tree events\<close>

definition drive_tree :: "hash2 \<Rightarrow> ingest \<Rightarrow> parsed_log \<Rightarrow> ingest \<times> ingest_error option" where
  "drive_tree h s l =
     (case pl_event l of
        EvAppended leafIndex leaf root \<Rightarrow>
          (case applyAppend h (ix_mirror s) leafIndex leaf root of
             (m, Some e) \<Rightarrow> (s\<lparr>ix_mirror := m\<rparr>, Some (MirrorThrew e))
           | (m, None) \<Rightarrow>
               (s\<lparr>ix_mirror := m, q_appended := push_queue (q_appended s) (pl_txHash l) (leafIndex, leaf, root)\<rparr>, None))
      | EvSubtreeAppended start subtreeRoot root \<Rightarrow>
          (case applyAttach h (ix_mirror s) start subtreeRoot root of
             (m, Some e) \<Rightarrow> (s\<lparr>ix_mirror := m\<rparr>, Some (MirrorThrew e))
           | (m, None) \<Rightarrow>
               (s\<lparr>ix_mirror := m, q_subtrees := push_queue (q_subtrees s) (pl_txHash l) (start, subtreeRoot, root)\<rparr>, None))
      | _ \<Rightarrow> (s, None))"

text \<open>The anchors, with lowercase modules, and the two pre-indexed halves of a disburse.\<close>

definition collect_anchor :: "parsed_log \<Rightarrow> ingest \<Rightarrow> ingest" where
  "collect_anchor l s =
     (case pl_event l of
        EvOpApplied a \<Rightarrow>
          s\<lparr>q_anchors := push_queue (q_anchors s) (pl_txHash l) (a\<lparr>an_module := toLowerCase (an_module a)\<rparr>)\<rparr>
      | _ \<Rightarrow> s)"

definition collect_disclosure :: "parsed_log \<Rightarrow> ingest \<Rightarrow> ingest" where
  "collect_disclosure l s =
     (case pl_event l of
        EvDisbursePrivDisclosure start d \<Rightarrow> s\<lparr>q_disclosures := AList.update (pl_txHash l, start) d (q_disclosures s)\<rparr>
      | _ \<Rightarrow> s)"

definition collect_ciphertexts :: "parsed_log \<Rightarrow> ingest \<Rightarrow> ingest" where
  "collect_ciphertexts l s =
     (case pl_event l of
        EvDisburseCiphertexts start cts \<Rightarrow> s\<lparr>q_ciphertexts := AList.update (pl_txHash l, start) cts (q_ciphertexts s)\<rparr>
      | _ \<Rightarrow> s)"

subsection \<open>Correlation\<close>

definition takeAppend :: "ingest \<Rightarrow> string \<Rightarrow> int \<Rightarrow> ingest_error + (nat \<times> int \<times> int) \<times> ingest" where
  "takeAppend s tx expected =
     (case shift_queue (q_appended s) tx of
        (None, _) \<Rightarrow> Inl NoAppended
      | (Some (leafIndex, leaf, root), q) \<Rightarrow>
          if leaf \<noteq> expected then Inl (CommitmentMismatch leafIndex)
          else Inr ((leafIndex, leaf, root), s\<lparr>q_appended := q\<rparr>))"

text \<open>One \<open>takeAppend\<close> per output commitment, in order.\<close>

fun takeAppends :: "ingest \<Rightarrow> string \<Rightarrow> int list \<Rightarrow> ingest_error + (nat \<times> int \<times> int) list \<times> ingest" where
  "takeAppends s tx [] = Inr ([], s)"
| "takeAppends s tx (c # cs) =
     (case takeAppend s tx c of
        Inl e \<Rightarrow> Inl e
      | Inr (p, s1) \<Rightarrow> (case takeAppends s1 tx cs of Inl e \<Rightarrow> Inl e | Inr (ps, s2) \<Rightarrow> Inr (p # ps, s2)))"

definition takeOpApplied ::
  "ingest \<Rightarrow> parsed_log \<Rightarrow> nat \<Rightarrow> nat \<Rightarrow> nat \<Rightarrow> int \<Rightarrow> int \<Rightarrow> ingest_error + ingest" where
  "takeOpApplied s l startLeafIndex nullifierCount leafCount subtreeRoot root =
     (case shift_queue (q_anchors s) (pl_txHash l) of
        (None, _) \<Rightarrow> Inl NoOpApplied
      | (Some op, q) \<Rightarrow>
          if pl_address l \<noteq> None \<and> an_module op \<noteq> toLowerCase (the (pl_address l)) then Inl OpAppliedEmitter
          else if \<not> isKnown (ix_modules s) (an_module op) then Inl OpAppliedUnknownModule
          else if an_startLeafIndex op \<noteq> startLeafIndex \<or> an_nullifierCount op \<noteq> nullifierCount \<or>
                  an_leafCount op \<noteq> leafCount \<or> an_subtreeRoot op \<noteq> subtreeRoot \<or> an_root op \<noteq> root
          then Inl OpAppliedDisagrees
          else Inr (s\<lparr>q_anchors := q\<rparr>))"

definition nonzero_count :: "int list \<Rightarrow> nat" where
  "nonzero_count nfs = length (filter (\<lambda>x. x \<noteq> 0) nfs)"

subsection \<open>Pass 2: shared steps of the handlers\<close>

definition position_of :: "parsed_log \<Rightarrow> feed_position" where
  "position_of l = \<lparr>at_txHash = pl_txHash l, at_blockNumber = pl_blockNumber l, at_logIndex = pl_logIndex l\<rparr>"

definition record_leaves :: "ingest \<Rightarrow> (nat \<times> int) list \<Rightarrow> ingest" where
  "record_leaves s ls = s\<lparr>ix_mirror := fold (\<lambda>(i, c) m. recordLeaf m i c) ls (ix_mirror s)\<rparr>"

definition add_feed :: "ingest \<Rightarrow> feed_draft \<Rightarrow> ingest \<times> nat option" where
  "add_feed s e = (case pg_addEvent (ix_store s) e of (st, r) \<Rightarrow> (s\<lparr>ix_store := st\<rparr>, r))"

definition spend :: "ingest \<Rightarrow> int list \<Rightarrow> ingest" where
  "spend s nfs = s\<lparr>ix_store := pg_addNullifiers (ix_store s) nfs\<rparr>"

definition ledger_op :: "parsed_log \<Rightarrow> op_kind \<Rightarrow> op_args \<Rightarrow> int list \<Rightarrow> (nat \<times> int) list \<Rightarrow> (nat \<times> int) option \<Rightarrow> op_envelope" where
  "ledger_op l kind a ct outs batch =
     \<lparr>oe_kind = kind, oe_txHash = pl_txHash l, oe_logIndex = pl_logIndex l, oe_blockTimestamp = pl_blockTimestamp l,
      oe_ecdhPublicKey = oa_key a, oe_nonce = oa_nonce a, oe_authorityCt = ct, oe_kem = kemOf a,
      oe_outputLeaves = outs, oe_batch = batch\<rparr>"

definition apply_ledger :: "ingest_env \<Rightarrow> ingest \<Rightarrow> op_envelope \<Rightarrow> ingest \<times> ingest_error option" where
  "apply_ledger E s op =
     (case ix_ledger s of
        None \<Rightarrow> (s, None)
      | Some ld \<Rightarrow>
          (case ledger_apply (ledger_env.truncate E) (ld, ix_mirror s) op of
             ((ld', m), e) \<Rightarrow> (s\<lparr>ix_ledger := Some ld', ix_mirror := m\<rparr>, map_option LedgerThrew e)))"

text \<open>
  The common course of the enterprise operations: take the outputs' pairs, record the leaves, build
  the feed entry and, on first sight, spend the nullifiers (a deposit has none) and hand the envelope
  to the ledger.
\<close>

definition enterprise_op ::
  "ingest_env \<Rightarrow> ingest \<Rightarrow> parsed_log \<Rightarrow> int list \<Rightarrow> (nat list \<Rightarrow> op_projection) \<Rightarrow> int list \<Rightarrow> op_kind \<Rightarrow> op_args \<Rightarrow>
     ingest \<times> ingest_error option" where
  "enterprise_op E s l ocs projection nfs kind a =
     (case takeAppends s (pl_txHash l) ocs of
        Inl e \<Rightarrow> (s, Some e)
      | Inr (ps, s1) \<Rightarrow>
          (let outs = zip (map fst ps) ocs; s2 = record_leaves s1 outs in
           case add_feed s2 (projectFeedEntry (position_of l) (projection (map fst ps))) of
             (s3, None) \<Rightarrow> (s3, None)
           | (s3, Some k) \<Rightarrow>
               (let s4 = (if kind = WithdrawOp then s3\<lparr>q_withdraws := push_queue (q_withdraws s3) (pl_txHash l) k\<rparr> else s3);
                    s5 = spend s4 nfs
                in apply_ledger E s5 (ledger_op l kind a (oa_authorityCt a) outs None))))"

definition on_deposited :: "ingest_env \<Rightarrow> ingest \<Rightarrow> parsed_log \<Rightarrow> int \<Rightarrow> int \<Rightarrow> op_args \<Rightarrow> ingest \<times> ingest_error option" where
  "on_deposited E s l oc0 oc1 a = enterprise_op E s l [oc0, oc1] (\<lambda>_. DepositRow) [] Deposit a"

definition on_transferred ::
  "ingest_env \<Rightarrow> ingest \<Rightarrow> parsed_log \<Rightarrow> int \<times> int \<Rightarrow> int \<times> int \<Rightarrow> nat \<Rightarrow> int list \<Rightarrow> int list \<Rightarrow> op_args \<Rightarrow> ingest \<times> ingest_error option" where
  "on_transferred E s l ocs nfs epoch ct0 ct1 a =
     enterprise_op E s l [fst ocs, snd ocs]
       (\<lambda>outs. TransferRow PTransfer epoch (oa_key a) (oa_nonce a) outs (ct0 @ ct1) (oa_authorityCt a))
       [fst nfs, snd nfs] TransferOp a"

definition on_transferred10 ::
  "ingest_env \<Rightarrow> ingest \<Rightarrow> parsed_log \<Rightarrow> transfer_kind \<Rightarrow> op_kind \<Rightarrow> int list \<Rightarrow> int list \<Rightarrow> nat \<Rightarrow> int list \<Rightarrow> op_args \<Rightarrow>
     ingest \<times> ingest_error option" where
  "on_transferred10 E s l row kind ocs nfs epoch cts a =
     enterprise_op E s l ocs
       (\<lambda>outs. TransferRow row epoch (oa_key a) (oa_nonce a) outs cts (oa_authorityCt a)) nfs kind a"

definition on_withdrawn ::
  "ingest_env \<Rightarrow> ingest \<Rightarrow> parsed_log \<Rightarrow> int \<Rightarrow> int \<times> int \<Rightarrow> op_args \<Rightarrow> ingest \<times> ingest_error option" where
  "on_withdrawn E s l chg nfs a =
     enterprise_op E s l [chg] (\<lambda>_. WithdrawRow None) [fst nfs, snd nfs] WithdrawOp a"

text \<open>\<open>toString(16)\<close> and \<open>padStart\<close>\<close>

fun hex_digits :: "nat \<Rightarrow> string" where
  "hex_digits n = (let d = [''0123456789abcdef'' ! (n mod 16)] in if n < 16 then d else hex_digits (n div 16) @ d)"

declare hex_digits.simps [simp del]

definition padStart :: "nat \<Rightarrow> char \<Rightarrow> string \<Rightarrow> string" where
  "padStart n c s = replicate (n - length s) c @ s"

definition attach_announcement :: "nat \<Rightarrow> announcement \<Rightarrow> pg_store \<Rightarrow> pg_store" where
  "attach_announcement k a st =
     (let m = ps_mem st in
      st\<lparr>ps_mem := m\<lparr>feed := (feed m)[k := (feed m ! k)\<lparr>fe_announcement := Some a\<rparr>]\<rparr>\<rparr>)"

definition on_withdraw_announcement :: "ingest \<Rightarrow> parsed_log \<Rightarrow> int \<Rightarrow> string \<Rightarrow> nat \<Rightarrow> ingest" where
  "on_withdraw_announcement s l recipient eph viewTag =
     (case shift_queue (q_withdraws s) (pl_txHash l) of
        (None, q) \<Rightarrow> s\<lparr>q_withdraws := q\<rparr>
      | (Some k, q) \<Rightarrow>
          (let s1 = s\<lparr>q_withdraws := q\<rparr> in
           if isStealthAnnouncement eph
           then s1\<lparr>ix_store := attach_announcement k
                    \<lparr>an_recipient = ''0x'' @ padStart 40 (CHR ''0'') (hex_digits (nat recipient)), an_ephemeralPub = eph, an_viewTag = viewTag\<rparr>
                    (ix_store s1)\<rparr>
           else s1))"

definition on_swept :: "ingest \<Rightarrow> parsed_log \<Rightarrow> string \<Rightarrow> string \<Rightarrow> int \<Rightarrow> ingest" where
  "on_swept s l salt sweeper amount =
     s\<lparr>ix_portal := markSwept (ix_portal s) salt (pl_txHash l) amount,
       q_swept := AList.update (toLowerCase salt) (sweeper, amount, pl_txHash l) (q_swept s)\<rparr>"

definition on_announced :: "ingest_env \<Rightarrow> ingest \<Rightarrow> parsed_log \<Rightarrow> string \<Rightarrow> string \<Rightarrow> nat \<Rightarrow> ingest" where
  "on_announced E s l salt0 eph viewTag =
     (let salt = toLowerCase salt0 in
      case map_of (q_swept s) salt of
        Some (sweeper, amount, tx) \<Rightarrow>
          s\<lparr>ix_portal := recordChainAnnouncement (ix_portal s)
             \<lparr>cn_salt = salt, cn_ephemeralPub = eph, cn_viewTag = viewTag, cn_destination = sweeper,
              cn_factory = (case ie_portalPrivFactory E of None \<Rightarrow> '''' | Some f \<Rightarrow> f), cn_txHash = tx, cn_amount = amount,
              cn_blockTimestamp = pl_blockTimestamp l\<rparr>\<rparr>
      | None \<Rightarrow> s\<lparr>console := console s @ [BackfillSkipped salt]\<rparr>)"

definition takeSubtree :: "ingest \<Rightarrow> string \<Rightarrow> int \<Rightarrow> ingest_error + (nat \<times> int \<times> int) \<times> ingest" where
  "takeSubtree s tx expected =
     (case shift_queue (q_subtrees s) tx of
        (None, _) \<Rightarrow> Inl NoSubtreeAppended
      | (Some (start, subtreeRoot, root), q) \<Rightarrow>
          if subtreeRoot \<noteq> expected then Inl (SubtreeMismatch start)
          else Inr ((start, subtreeRoot, root), s\<lparr>q_subtrees := q\<rparr>))"

definition disclosure_line :: "bool \<Rightarrow> disclosure_result \<Rightarrow> ingest \<Rightarrow> ingest" where
  "disclosure_line consumer d s =
     (if dr_status d \<noteq> Verified then s\<lparr>console := console s @ [DisclosureLine consumer d]\<rparr> else s)"

definition disburse_slices :: "nat \<Rightarrow> nat \<Rightarrow> int list \<Rightarrow> slice list" where
  "disburse_slices B start ct =
     (if length ct > 0
      then map (\<lambda>i. receiver_slice i (start + i)) [0..<B] @
           (if length ct > B * 4 then [\<lparr>sl_offset = B * 4, sl_elts = length ct - B * 4, sl_leafIndex = None\<rparr>] else [])
      else [])"

definition disburse_draft :: "parsed_log \<Rightarrow> nat \<Rightarrow> op_args \<Rightarrow> slice list \<Rightarrow> int list \<Rightarrow> disclosure_result \<Rightarrow> feed_draft" where
  "disburse_draft l epoch a slices ct d =
     (bare_entry (position_of l) KDisburse)
       \<lparr>fe_epoch := Some epoch, fe_ecdhPublicKey := Some (oa_key a), fe_encryptionNonce := Some (oa_nonce a),
        fe_slices := slices, fe_ciphertext := ct, fe_disclosure := Some d\<rparr>"

definition on_disbursed ::
  "ingest_env \<Rightarrow> ingest \<Rightarrow> parsed_log \<Rightarrow> int \<Rightarrow> int \<Rightarrow> nat \<Rightarrow> int \<Rightarrow> op_args \<Rightarrow> ingest \<times> ingest_error option" where
  "on_disbursed E s l subtreeRoot disclosureHash epoch nf a =
     (case takeSubtree s (pl_txHash l) subtreeRoot of
        Inl e \<Rightarrow> (s, Some e)
      | Inr ((start, sub, root), s1) \<Rightarrow>
          (let B = le_B E;
               ct = (case map_of (q_ciphertexts s1) (pl_txHash l, start) of None \<Rightarrow> [] | Some c \<Rightarrow> c);
               d = verifyDisclosure (le_h E) ct disclosureHash B (pl_txHash l) start;
               s2 = disclosure_line False d s1 in
           case add_feed s2 (disburse_draft l epoch a (disburse_slices B start ct) ct d) of
             (s3, None) \<Rightarrow> (s3, None)
           | (s3, Some k) \<Rightarrow>
               (let s4 = spend s3 [nf] in
                if length ct > B * 4
                then apply_ledger E s4 (ledger_op l Disburse a (drop (B * 4) ct) [] (Some (start, sub)))
                else (s4, None))))"

subsection \<open>Pass 2: the consumer family\<close>

text \<open>
  The common course of the consumer operations: the pairs, then the audit anchor, whose start is the
  first pair's leaf and whose root is the last pair's.
\<close>

definition consumer_op ::
  "ingest \<Rightarrow> parsed_log \<Rightarrow> int list \<Rightarrow> int list \<Rightarrow> (nat list \<Rightarrow> op_projection) \<Rightarrow> (ingest \<Rightarrow> nat \<Rightarrow> ingest) \<Rightarrow>
     ingest \<times> ingest_error option" where
  "consumer_op s l ocs nfs projection first_sight =
     (case takeAppends s (pl_txHash l) ocs of
        Inl e \<Rightarrow> (s, Some e)
      | Inr (ps, s1) \<Rightarrow>
          (case takeOpApplied s1 l (fst (ps ! 0)) (nonzero_count nfs) (length ocs) 0 (snd (snd (last ps))) of
             Inl e \<Rightarrow> (s1, Some e)
           | Inr s2 \<Rightarrow>
               (let s3 = record_leaves s2 (zip (map fst ps) ocs) in
                case add_feed s3 (projectFeedEntry (position_of l) (projection (map fst ps))) of
                  (s4, None) \<Rightarrow> (s4, None)
                | (s4, Some k) \<Rightarrow> (first_sight s4 k, None))))"

definition on_deposited_priv ::
  "ingest \<Rightarrow> parsed_log \<Rightarrow> int \<Rightarrow> int \<Rightarrow> int list \<Rightarrow> int list \<Rightarrow> priv_args \<Rightarrow> ingest \<times> ingest_error option" where
  "on_deposited_priv s l oc0 oc1 ct0 ct1 a =
     consumer_op s l [oc0, oc1] []
       (\<lambda>outs. ConsumerRow PDepositPriv (pa_key a) (pa_nonce a) (outs ! 0) (outs ! 1) (ct0 @ ct1) (pa_viewTags a) (pa_kemCiphertexts a))
       (\<lambda>s k. s)"

definition on_transferred_priv ::
  "ingest \<Rightarrow> parsed_log \<Rightarrow> consumer_kind \<Rightarrow> int \<times> int \<Rightarrow> int list \<Rightarrow> int list \<Rightarrow> priv_args \<Rightarrow> ingest \<times> ingest_error option" where
  "on_transferred_priv s l row ocs nfs cts a =
     consumer_op s l [fst ocs, snd ocs] nfs
       (\<lambda>outs. ConsumerRow row (pa_key a) (pa_nonce a) (outs ! 0) (outs ! 1) cts (pa_viewTags a) (pa_kemCiphertexts a))
       (\<lambda>s k. spend s nfs)"

definition on_withdrawn_priv ::
  "ingest \<Rightarrow> parsed_log \<Rightarrow> int \<Rightarrow> int list \<Rightarrow> int list \<Rightarrow> priv_args \<Rightarrow> ingest \<times> ingest_error option" where
  "on_withdrawn_priv s l chg nfs cts a =
     consumer_op s l [chg] nfs
       (\<lambda>outs. WithdrawPrivRow (pa_key a) (pa_nonce a) (outs ! 0) cts (pa_viewTags a) (pa_kemCiphertexts a) None)
       (\<lambda>s k. spend (s\<lparr>q_withdraws := push_queue (q_withdraws s) (pl_txHash l) k\<rparr>) nfs)"

definition on_disbursed_priv ::
  "ingest_env \<Rightarrow> ingest \<Rightarrow> parsed_log \<Rightarrow> int \<Rightarrow> int \<Rightarrow> int \<Rightarrow> string list \<Rightarrow> point \<Rightarrow> int \<Rightarrow> ingest \<times> ingest_error option" where
  "on_disbursed_priv E s l subtreeRoot disclosureHash nf chunkHashes key nonce =
     (case takeSubtree s (pl_txHash l) subtreeRoot of
        Inl e \<Rightarrow> (s, Some e)
      | Inr ((start, sub, root), s1) \<Rightarrow>
          (case takeOpApplied s1 l start 1 0 sub root of
             Inl e \<Rightarrow> (s1, Some e)
           | Inr s2 \<Rightarrow>
               (let B = le_B E;
                    d = (case map_of (q_disclosures s2) (pl_txHash l, start) of None \<Rightarrow> [] | Some x \<Rightarrow> x);
                    verdict = verifyConsumerDisclosure (le_h E) d disclosureHash sub B (pl_txHash l) start;
                    s3 = disclosure_line True (cv_result verdict) s2 in
                case add_feed s3 (projectFeedEntry (position_of l) (DisbursePrivRow key nonce start B d (cv_result verdict))) of
                  (s4, None) \<Rightarrow> (s4, None)
                | (s4, Some k) \<Rightarrow>
                    (let s5 = spend s4 [nf];
                         s6 = s5\<lparr>ix_kem := recordBatch (ix_kem s5)
                                \<lparr>ba_batchId = start,
                                 ba_module = toLowerCase (case pl_address l of None \<Rightarrow> '''' | Some x \<Rightarrow> x),
                                 ba_txHash = pl_txHash l, ba_logIndex = pl_logIndex l, ba_chunkHashes = chunkHashes,
                                 ba_batchTimestamp = int (pl_blockTimestamp l), ba_outputs = B\<rparr>\<rparr>
                     in (case cv_leaves verdict of
                           None \<Rightarrow> s6
                         | Some ls \<Rightarrow> s6\<lparr>ix_mirror := fillBatch (ix_mirror s6) start ls Public\<rparr>, None)))))"

definition on_chunk_accepted ::
  "ingest_env \<Rightarrow> ingest \<Rightarrow> parsed_log \<Rightarrow> nat \<Rightarrow> int \<Rightarrow> string option \<Rightarrow> ingest \<times> ingest_error option" where
  "on_chunk_accepted E s l batchId chunkIndex data =
     (case acceptChunk (ie_keccak E) (ix_kem s)
             \<lparr>ca_batchId = batchId, ca_chunkIndex = chunkIndex, ca_dataHex = data, ca_txHash = pl_txHash l, ca_logIndex = pl_logIndex l\<rparr> of
        (k, e) \<Rightarrow> (s\<lparr>ix_kem := k\<rparr>, map_option KemThrew e))"

definition on_registry :: "ingest \<Rightarrow> module_registry \<times> registry_error option \<Rightarrow> ingest \<times> ingest_error option" where
  "on_registry s r = (s\<lparr>ix_modules := fst r\<rparr>, map_option RegistryThrew (snd r))"

subsection \<open>Pass 2: dispatch\<close>

definition handle :: "ingest_env \<Rightarrow> ingest \<Rightarrow> parsed_log \<Rightarrow> ingest \<times> ingest_error option" where
  "handle E s l =
     (case pl_event l of
        EvDeposited oc0 oc1 a \<Rightarrow> on_deposited E s l oc0 oc1 a
      | EvTransferred ocs nfs epoch ct0 ct1 a \<Rightarrow> on_transferred E s l ocs nfs epoch ct0 ct1 a
      | EvTransferred10 ocs nfs epoch cts a \<Rightarrow> on_transferred10 E s l PTransfer10 Transfer10 ocs nfs epoch cts a
      | EvTransferred10x2 ocs nfs epoch cts a \<Rightarrow> on_transferred10 E s l PTransfer10x2 Transfer10x2 ocs nfs epoch cts a
      | EvWithdrawn chg nfs a \<Rightarrow> on_withdrawn E s l chg nfs a
      | EvWithdrawAnnouncement recipient eph tag \<Rightarrow> (on_withdraw_announcement s l recipient eph tag, None)
      | EvSwept salt sweeper amount \<Rightarrow> (on_swept s l salt sweeper amount, None)
      | EvAnnounced salt eph tag \<Rightarrow> (on_announced E s l salt eph tag, None)
      | EvDisbursed sub dh epoch nf a \<Rightarrow> on_disbursed E s l sub dh epoch nf a
      | EvModuleRegistered m \<Rightarrow> on_registry s (applyRegistered (ix_modules s) (pl_txHash l) (pl_logIndex l) m)
      | EvModuleRemoved m \<Rightarrow> on_registry s (applyRemoved (ix_modules s) (pl_txHash l) (pl_logIndex l) m)
      | EvDepositedPriv oc0 oc1 ct0 ct1 a \<Rightarrow> on_deposited_priv s l oc0 oc1 ct0 ct1 a
      | EvTransferredPriv ocs nfs ct0 ct1 a \<Rightarrow> on_transferred_priv s l PTransferPriv ocs nfs (ct0 @ ct1) a
      | EvTransferred10x2Priv ocs nfs cts a \<Rightarrow> on_transferred_priv s l PTransfer10x2Priv ocs nfs cts a
      | EvWithdrawnPriv chg nfs cts a \<Rightarrow> on_withdrawn_priv s l chg nfs cts a
      | EvDisbursedPriv sub dh nf hashes key nonce \<Rightarrow> on_disbursed_priv E s l sub dh nf hashes key nonce
      | EvDisburseKemChunkAccepted batchId i data \<Rightarrow> on_chunk_accepted E s l batchId i data
      | _ \<Rightarrow> (s, None))"

definition drain_anchors :: "ingest \<Rightarrow> ingest" where
  "drain_anchors s =
     s\<lparr>console := console s @ concat (map (\<lambda>(tx, ops). map (AttributionGap tx) ops) (q_anchors s))\<rparr>"

definition collect :: "ingest \<Rightarrow> parsed_log list \<Rightarrow> ingest" where
  "collect s ls = fold collect_ciphertexts ls (fold collect_disclosure ls (fold collect_anchor ls s))"

definition apply_gated :: "ingest_env \<Rightarrow> indexer \<Rightarrow> parsed_log list \<Rightarrow> ingest \<times> ingest_error option" where
  "apply_gated E w ls =
     (case run_steps (drive_tree (le_h E)) (start_ingest w) ls of
        (s1, Some e) \<Rightarrow> (s1, Some e)
      | (s1, None) \<Rightarrow>
          (case run_steps (handle E) (collect s1 ls) ls of
             (s2, Some e) \<Rightarrow> (s2, Some e)
           | (s2, None) \<Rightarrow> (drain_anchors s2, None)))"

definition applyLogs :: "ingest_env \<Rightarrow> indexer \<Rightarrow> parsed_log list \<Rightarrow> indexer \<times> ingest_error option" where
  "applyLogs E w rawLogs =
     (case apply_gated E w (gate E (watched_at_start w) rawLogs) of (s, e) \<Rightarrow> (indexer.truncate s, e))"

end
