(* ===== verification/Ingest_Correct.thy ===== *)
theory Ingest_Correct
  imports Ingest Feed_Correct Kem_Correct
begin

text \<open>
  What a pass over a log range promises: the gate, who may move the tree and the registry, the exact
  correlation of an operation with the tree events and the audit anchors of its transaction, and
  what a pass, finished or thrown, never changes.
\<close>

named_theorems ingest_frame \<open>what a step of a handler leaves alone\<close>

subsection \<open>Queues\<close>

lemma list_at_push: "list_at (push_queue q tx x) t = (if t = tx then list_at q tx @ [x] else list_at q t)"
  by (simp add: push_queue_def)

lemma shift_queue_None: "shift_queue q tx = (None, q') \<Longrightarrow> q' = q \<and> list_at q tx = []"
  by (auto simp: shift_queue_def split: list.splits)

lemma shift_queue_Some:
  "shift_queue q tx = (Some x, q') \<Longrightarrow> list_at q tx = x # list_at q' tx \<and> (\<forall>t. t \<noteq> tx \<longrightarrow> list_at q' t = list_at q t) \<and>
     (distinct (map fst q) \<longrightarrow> distinct (map fst q'))"
  by (auto simp: shift_queue_def distinct_update split: list.splits)

subsection \<open>Building blocks\<close>

text \<open>A queue from which the run \<open>xs\<close> of one transaction was taken.\<close>

definition taken :: "'a tx_queue \<Rightarrow> string \<Rightarrow> 'a list \<Rightarrow> 'a tx_queue \<Rightarrow> bool" where
  "taken q tx xs q' \<longleftrightarrow> list_at q tx = xs @ list_at q' tx \<and> (\<forall>t. t \<noteq> tx \<longrightarrow> list_at q' t = list_at q t) \<and>
     (distinct (map fst q) \<longrightarrow> distinct (map fst q'))"

lemma taken_refl [simp]: "taken q tx [] q"
  by (simp add: taken_def)

lemma taken_trans: "taken q tx xs q1 \<Longrightarrow> taken q1 tx ys q2 \<Longrightarrow> taken q tx (xs @ ys) q2"
  by (simp add: taken_def)

lemma takeAppend_ok:
  "takeAppend s tx c = Inr (p, s') \<Longrightarrow>
     \<exists>q. s' = s\<lparr>q_appended := q\<rparr> \<and> fst (snd p) = c \<and> taken (q_appended s) tx [p] q"
  by (auto simp: takeAppend_def taken_def split: prod.splits option.splits if_splits dest!: shift_queue_Some)

lemma takeAppends_ok:
  "takeAppends s tx cs = Inr (ps, s') \<Longrightarrow>
     \<exists>q. s' = s\<lparr>q_appended := q\<rparr> \<and> map (fst \<circ> snd) ps = cs \<and> taken (q_appended s) tx ps q"
proof (induction cs arbitrary: s ps s')
  case Nil
  then show ?case by (intro exI [of _ "q_appended s"]) simp
next
  case (Cons c cs)
  then obtain p s1 ps' where *: "takeAppend s tx c = Inr (p, s1)" "takeAppends s1 tx cs = Inr (ps', s')" "ps = p # ps'"
    by (auto split: sum.splits)
  from takeAppend_ok [OF *(1)] Cons.IH [OF *(2)] obtain q q' where
    "s1 = s\<lparr>q_appended := q\<rparr>" "fst (snd p) = c" "taken (q_appended s) tx [p] q"
    "s' = s1\<lparr>q_appended := q'\<rparr>" "map (fst \<circ> snd) ps' = cs" "taken q tx ps' q'" by auto
  then show ?case using *(3) taken_trans [of "q_appended s" tx "[p]" q ps' q'] by auto
qed

lemma takeOpApplied_ok:
  "takeOpApplied s l i n k r r' = Inr s' \<Longrightarrow>
     \<exists>op q. s' = s\<lparr>q_anchors := q\<rparr> \<and> taken (q_anchors s) (pl_txHash l) [op] q \<and>
       (pl_address l \<noteq> None \<longrightarrow> an_module op = toLowerCase (the (pl_address l))) \<and> isKnown (ix_modules s) (an_module op) \<and>
       op = \<lparr>an_module = an_module op, an_startLeafIndex = i, an_nullifierCount = n, an_leafCount = k, an_subtreeRoot = r, an_root = r'\<rparr>"
  by (auto simp: takeOpApplied_def taken_def split: prod.splits option.splits if_splits dest!: shift_queue_Some)

lemma takeSubtree_ok:
  "takeSubtree s tx r = Inr (p, s') \<Longrightarrow>
     \<exists>q. s' = s\<lparr>q_subtrees := q\<rparr> \<and> fst (snd p) = r \<and> taken (q_subtrees s) tx [p] q"
  by (auto simp: takeSubtree_def taken_def split: prod.splits option.splits if_splits dest!: shift_queue_Some)

lemma record_leaves_frame:
  "\<exists>m. record_leaves s ls = s\<lparr>ix_mirror := m\<rparr> \<and> tree m = tree (ix_mirror s)"
proof -
  have "tree (fold (\<lambda>(i, c) m. recordLeaf m i c) ls m) = tree m" for m
    by (induction ls arbitrary: m) auto
  then show ?thesis by (auto simp: record_leaves_def)
qed

lemma tree_fillBatch [simp]: "tree (fillBatch m start ls src) = tree m"
  by (simp add: fillBatch_def Let_def)

lemma tree_ledger_apply: "ledger_apply E (l, m) op = ((l', m'), e) \<Longrightarrow> tree m' = tree m"
  by (auto simp: ledger_apply_def Let_def split: if_splits sum.splits option.splits)

lemma apply_ledger_frame:
  "apply_ledger E s op = (s', e) \<Longrightarrow>
     \<exists>ld m. s' = s\<lparr>ix_ledger := ld, ix_mirror := m\<rparr> \<and> tree m = tree (ix_mirror s)"
proof (cases "ix_ledger s")
  case None
  then show "apply_ledger E s op = (s', e) \<Longrightarrow> ?thesis"
    by (intro exI [of _ "ix_ledger s"] exI [of _ "ix_mirror s"]) (simp add: apply_ledger_def)
next
  case (Some ld)
  then show "apply_ledger E s op = (s', e) \<Longrightarrow> ?thesis"
    by (auto simp: apply_ledger_def split: prod.splits dest!: tree_ledger_apply)
qed

definition feed_of :: "ingest \<Rightarrow> feed_entry list" where
  "feed_of s = feed (ps_mem (ix_store s))"

definition cursor_of :: "ingest \<Rightarrow> int" where
  "cursor_of s = lastBlock (ps_mem (ix_store s))"

lemma add_feed_frame:
  "add_feed s e = (s', r) \<Longrightarrow>
     \<exists>st. s' = s\<lparr>ix_store := st\<rparr> \<and> lastBlock (ps_mem st) = cursor_of s \<and>
       (case r of None \<Rightarrow> st = ix_store s \<and> draft_key e \<in> seen (ps_mem (ix_store s))
        | Some k \<Rightarrow> draft_key e \<notin> seen (ps_mem (ix_store s)) \<and> k = length (feed_of s) \<and>
            feed (ps_mem st) = feed_of s @ [feed_draft.extend e \<lparr>fe_seq = seq (ps_mem (ix_store s))\<rparr>])"
  by (auto simp: add_feed_def pg_addEvent_def addEvent_def feed_of_def cursor_of_def Let_def split: if_splits option.splits)

lemma addNullifiers_frame [simp]: "feed (addNullifiers m nfs) = feed m" "lastBlock (addNullifiers m nfs) = lastBlock m"
proof -
  let ?f = "fold (\<lambda>nf s. if nf \<noteq> 0 \<and> nf \<notin> set (nullifierSet s) then s\<lparr>nullifierSet := nullifierSet s @ [nf]\<rparr> else s) nfs"
  have "feed (?f m) = feed m \<and> lastBlock (?f m) = lastBlock m"
    by (induction nfs arbitrary: m) auto
  then show "feed (addNullifiers m nfs) = feed m" "lastBlock (addNullifiers m nfs) = lastBlock m"
    by (simp_all add: addNullifiers_def)
qed

lemma spend_frame: "\<exists>st. spend s nfs = s\<lparr>ix_store := st\<rparr> \<and> feed (ps_mem st) = feed_of s \<and> lastBlock (ps_mem st) = cursor_of s"
  by (auto simp: spend_def pg_addNullifiers_def Let_def feed_of_def cursor_of_def)

subsection \<open>What one handler does\<close>

text \<open>The commitments, subtree roots and anchors an event consumes from its transaction.\<close>

fun outputs_of :: "log_event \<Rightarrow> int list" where
  "outputs_of (EvDeposited oc0 oc1 a) = [oc0, oc1]"
| "outputs_of (EvTransferred ocs nfs epoch ct0 ct1 a) = [fst ocs, snd ocs]"
| "outputs_of (EvTransferred10 ocs nfs epoch cts a) = ocs"
| "outputs_of (EvTransferred10x2 ocs nfs epoch cts a) = ocs"
| "outputs_of (EvWithdrawn chg nfs a) = [chg]"
| "outputs_of (EvDepositedPriv oc0 oc1 ct0 ct1 a) = [oc0, oc1]"
| "outputs_of (EvTransferredPriv ocs nfs ct0 ct1 a) = [fst ocs, snd ocs]"
| "outputs_of (EvTransferred10x2Priv ocs nfs cts a) = [fst ocs, snd ocs]"
| "outputs_of (EvWithdrawnPriv chg nfs cts a) = [chg]"
| "outputs_of _ = []"

fun subtrees_of :: "log_event \<Rightarrow> int list" where
  "subtrees_of (EvDisbursed sub dh epoch nf a) = [sub]"
| "subtrees_of (EvDisbursedPriv sub dh nf hashes key nonce) = [sub]"
| "subtrees_of _ = []"

fun audited :: "log_event \<Rightarrow> bool" where
  "audited (EvDepositedPriv oc0 oc1 ct0 ct1 a) = True"
| "audited (EvTransferredPriv ocs nfs ct0 ct1 a) = True"
| "audited (EvTransferred10x2Priv ocs nfs cts a) = True"
| "audited (EvWithdrawnPriv chg nfs cts a) = True"
| "audited (EvDisbursedPriv sub dh nf hashes key nonce) = True"
| "audited _ = False"

definition emitter_of :: "parsed_log \<Rightarrow> string option" where
  "emitter_of l = map_option toLowerCase (pl_address l)"

text \<open>The emitters of the audited events of a log: a list of length one or zero.\<close>

definition audits :: "parsed_log \<Rightarrow> string option list" where
  "audits l = (if audited (pl_event l) then [emitter_of l] else [])"

definition anchor_for :: "op_anchor \<Rightarrow> string option \<Rightarrow> bool" where
  "anchor_for op m \<longleftrightarrow> m = None \<or> m = Some (an_module op)"

definition correlated :: "ingest \<Rightarrow> parsed_log \<Rightarrow> ingest \<Rightarrow> bool" where
  "correlated s l s' \<longleftrightarrow>
     (\<exists>ps. taken (q_appended s) (pl_txHash l) ps (q_appended s') \<and> map (fst \<circ> snd) ps = outputs_of (pl_event l)) \<and>
     (\<exists>ps. taken (q_subtrees s) (pl_txHash l) ps (q_subtrees s') \<and> map (fst \<circ> snd) ps = subtrees_of (pl_event l)) \<and>
     (\<exists>ops. taken (q_anchors s) (pl_txHash l) ops (q_anchors s') \<and> list_all2 anchor_for ops (audits l))"

text \<open>The entries below position \<open>n\<close> are out of reach: no queued withdrawal points at one.\<close>

definition out_of_reach :: "nat \<Rightarrow> ingest \<Rightarrow> bool" where
  "out_of_reach n s \<longleftrightarrow> n \<le> length (feed_of s) \<and> (\<forall>tx. \<forall>k\<in>set (list_at (q_withdraws s) tx). n \<le> k)"

definition freezes :: "ingest \<Rightarrow> ingest \<Rightarrow> bool" where
  "freezes s s' \<longleftrightarrow> (\<forall>n. out_of_reach n s \<longrightarrow> out_of_reach n s' \<and> take n (feed_of s') = take n (feed_of s))"

lemma freezes_refl [simp]: "freezes s s"
  by (simp add: freezes_def)

lemma freezes_trans: "freezes s s1 \<Longrightarrow> freezes s1 s2 \<Longrightarrow> freezes s s2"
  by (auto simp: freezes_def)

lemma freezes_same: "feed_of s' = feed_of s \<Longrightarrow> q_withdraws s' = q_withdraws s \<Longrightarrow> freezes s s'"
  by (simp add: freezes_def out_of_reach_def)

lemma freezes_grow:
  "feed_of s' = feed_of s @ es \<Longrightarrow> q_withdraws s' = q_withdraws s \<or> (\<exists>tx. q_withdraws s' = push_queue (q_withdraws s) tx (length (feed_of s))) \<Longrightarrow>
     freezes s s'"
  by (auto simp: freezes_def out_of_reach_def list_at_push split: if_splits)

fun is_gap :: "console_line \<Rightarrow> bool" where
  "is_gap (AttributionGap tx op) = True"
| "is_gap _ = False"

definition gaps :: "ingest \<Rightarrow> console_line list" where
  "gaps s = filter is_gap (console s)"

definition quiet :: "ingest \<Rightarrow> ingest \<Rightarrow> bool" where
  "quiet s s' \<longleftrightarrow> tree (ix_mirror s') = tree (ix_mirror s) \<and> freezes s s' \<and> gaps s' = gaps s \<and> cursor_of s' = cursor_of s"

lemma disclosure_line_frame: "\<exists>c. disclosure_line b d s = s\<lparr>console := c\<rparr> \<and> filter is_gap c = gaps s"
  by (cases "dr_status d = Verified") (auto simp: disclosure_line_def gaps_def intro: exI [of _ "console s"])

text \<open>The common result: quiet, the registry untouched, and on success the queues correlated.\<close>

definition well_behaved :: "ingest \<Rightarrow> parsed_log \<Rightarrow> ingest \<times> ingest_error option \<Rightarrow> bool" where
  "well_behaved s l r \<longleftrightarrow> quiet s (fst r) \<and> ix_modules (fst r) = ix_modules s \<and> (snd r = None \<longrightarrow> correlated s l (fst r))"

lemma feed_of_simps [simp]:
  "feed_of (s\<lparr>ix_mirror := m\<rparr>) = feed_of s" "feed_of (s\<lparr>q_appended := a\<rparr>) = feed_of s"
  "feed_of (s\<lparr>q_anchors := b\<rparr>) = feed_of s" "feed_of (s\<lparr>q_subtrees := c\<rparr>) = feed_of s"
  "feed_of (s\<lparr>ix_store := st\<rparr>) = feed (ps_mem st)" "feed_of (s\<lparr>q_withdraws := w\<rparr>) = feed_of s"
  "feed_of (s\<lparr>ix_ledger := ld\<rparr>) = feed_of s" "feed_of (s\<lparr>console := co\<rparr>) = feed_of s"
  "feed_of (s\<lparr>ix_kem := k\<rparr>) = feed_of s" "feed_of (s\<lparr>ix_portal := p\<rparr>) = feed_of s"
  "feed_of (s\<lparr>q_swept := sw\<rparr>) = feed_of s" "feed_of (s\<lparr>ix_modules := md\<rparr>) = feed_of s"
  by (simp_all add: feed_of_def)

lemma gaps_simps [simp]:
  "gaps (s\<lparr>ix_mirror := m\<rparr>) = gaps s" "gaps (s\<lparr>q_appended := a\<rparr>) = gaps s"
  "gaps (s\<lparr>q_anchors := b\<rparr>) = gaps s" "gaps (s\<lparr>q_subtrees := c\<rparr>) = gaps s"
  "gaps (s\<lparr>ix_store := st\<rparr>) = gaps s" "gaps (s\<lparr>q_withdraws := w\<rparr>) = gaps s"
  "gaps (s\<lparr>ix_ledger := ld\<rparr>) = gaps s" "gaps (s\<lparr>console := co\<rparr>) = filter is_gap co"
  "gaps (s\<lparr>ix_kem := k\<rparr>) = gaps s" "gaps (s\<lparr>ix_portal := p\<rparr>) = gaps s"
  "gaps (s\<lparr>q_swept := sw\<rparr>) = gaps s" "gaps (s\<lparr>ix_modules := md\<rparr>) = gaps s"
  by (simp_all add: gaps_def)

lemma cursor_simps [simp]:
  "cursor_of (s\<lparr>ix_mirror := m\<rparr>) = cursor_of s" "cursor_of (s\<lparr>q_appended := a\<rparr>) = cursor_of s"
  "cursor_of (s\<lparr>q_anchors := b\<rparr>) = cursor_of s" "cursor_of (s\<lparr>q_subtrees := c\<rparr>) = cursor_of s"
  "cursor_of (s\<lparr>ix_store := st\<rparr>) = lastBlock (ps_mem st)" "cursor_of (s\<lparr>q_withdraws := w\<rparr>) = cursor_of s"
  "cursor_of (s\<lparr>ix_ledger := ld\<rparr>) = cursor_of s" "cursor_of (s\<lparr>console := co\<rparr>) = cursor_of s"
  "cursor_of (s\<lparr>ix_kem := k\<rparr>) = cursor_of s" "cursor_of (s\<lparr>ix_portal := p\<rparr>) = cursor_of s"
  "cursor_of (s\<lparr>q_swept := sw\<rparr>) = cursor_of s" "cursor_of (s\<lparr>ix_modules := md\<rparr>) = cursor_of s"
  by (simp_all add: cursor_of_def)

text \<open>A state that differs from \<open>s\<close> in the mirror's records, the store, the ledger and the queues.\<close>

lemma enterprise_well_behaved:
  assumes "outputs_of (pl_event l) = ocs" and "subtrees_of (pl_event l) = []" and "audits l = []"
  shows "well_behaved s l (enterprise_op E s l ocs projection nfs kind a)"
proof (cases "takeAppends s (pl_txHash l) ocs")
  case (Inl e)
  then show ?thesis by (simp add: enterprise_op_def well_behaved_def quiet_def)
next
  case (Inr r)
  obtain ps s1 where r: "takeAppends s (pl_txHash l) ocs = Inr (ps, s1)" using Inr by (cases r) simp
  obtain q where q: "s1 = s\<lparr>q_appended := q\<rparr>" "map (fst \<circ> snd) ps = ocs" "taken (q_appended s) (pl_txHash l) ps q"
    using takeAppends_ok [OF r] by auto
  let ?outs = "zip (map fst ps) ocs"
  obtain m where m: "record_leaves s1 ?outs = s1\<lparr>ix_mirror := m\<rparr>" "tree m = tree (ix_mirror s1)"
    using record_leaves_frame by blast
  let ?s2 = "record_leaves s1 ?outs" and ?d = "projectFeedEntry (position_of l) (projection (map fst ps))"
  obtain s3 k where k: "add_feed ?s2 ?d = (s3, k)" by (cases "add_feed ?s2 ?d") simp
  obtain st where st: "s3 = ?s2\<lparr>ix_store := st\<rparr>" and grow: "case k of None \<Rightarrow> st = ix_store ?s2
        | Some n \<Rightarrow> n = length (feed_of ?s2) \<and> (\<exists>x. feed (ps_mem st) = feed_of ?s2 @ [x])"
    and mark: "lastBlock (ps_mem st) = cursor_of ?s2"
    using add_feed_frame [OF k] by (auto split: option.splits)
  have corr: "correlated s l s'" if "q_appended s' = q" "q_subtrees s' = q_subtrees s" "q_anchors s' = q_anchors s" for s'
    unfolding correlated_def using that q(2,3) assms by auto
  show ?thesis
  proof (cases k)
    case None
    then show ?thesis using r k st grow mark m q corr
      by (simp add: enterprise_op_def well_behaved_def Let_def quiet_def freezes_same feed_of_def cursor_of_def)
  next
    case (Some n)
    let ?s4 = "if kind = WithdrawOp then s3\<lparr>q_withdraws := push_queue (q_withdraws s3) (pl_txHash l) n\<rparr> else s3"
    let ?op = "ledger_op l kind a (oa_authorityCt a) ?outs None"
    obtain st' where st': "spend ?s4 nfs = ?s4\<lparr>ix_store := st'\<rparr>" "feed (ps_mem st') = feed_of ?s4" "lastBlock (ps_mem st') = cursor_of ?s4"
      using spend_frame by blast
    obtain s6 e where e: "apply_ledger E (spend ?s4 nfs) ?op = (s6, e)" by (cases "apply_ledger E (spend ?s4 nfs) ?op") simp
    obtain ld m' where s6: "s6 = (spend ?s4 nfs)\<lparr>ix_ledger := ld, ix_mirror := m'\<rparr>" "tree m' = tree (ix_mirror (spend ?s4 nfs))"
      using apply_ledger_frame [OF e] by blast
    obtain x where x: "feed (ps_mem st) = feed_of s @ [x]" "n = length (feed_of s)" using grow Some m q by auto
    have "enterprise_op E s l ocs projection nfs kind a = (s6, e)"
      using r k Some e by (simp add: enterprise_op_def Let_def)
    moreover have "freezes s s6"
      using s6 st' st mark m q x by (intro freezes_grow [of _ _ "[x]"]) (auto split: if_splits)
    ultimately show ?thesis using s6 st' st mark m q corr by (simp add: well_behaved_def quiet_def)
  qed
qed

text \<open>What the continuation of a consumer operation may do.\<close>

definition first_sight_ok :: "parsed_log \<Rightarrow> (ingest \<Rightarrow> nat \<Rightarrow> ingest) \<Rightarrow> bool" where
  "first_sight_ok l f \<longleftrightarrow> (\<forall>s k. \<exists>st w. f s k = s\<lparr>ix_store := st, q_withdraws := w\<rparr> \<and> feed (ps_mem st) = feed_of s \<and>
     lastBlock (ps_mem st) = cursor_of s \<and> (w = q_withdraws s \<or> w = push_queue (q_withdraws s) (pl_txHash l) k))"

lemma first_sight_simps:
  "first_sight_ok l (\<lambda>s k. s)"
  "first_sight_ok l (\<lambda>s k. spend s nfs)"
  "first_sight_ok l (\<lambda>s k. spend (s\<lparr>q_withdraws := push_queue (q_withdraws s) (pl_txHash l) k\<rparr>) nfs)"
proof -
  show "first_sight_ok l (\<lambda>s k. s)"
    unfolding first_sight_ok_def
  proof (intro allI)
    fix s :: ingest and k :: nat
    show "\<exists>st w. s = s\<lparr>ix_store := st, q_withdraws := w\<rparr> \<and> feed (ps_mem st) = feed_of s \<and>
      lastBlock (ps_mem st) = cursor_of s \<and> (w = q_withdraws s \<or> w = push_queue (q_withdraws s) (pl_txHash l) k)"
      by (rule exI [of _ "ix_store s"], rule exI [of _ "q_withdraws s"]) (simp add: feed_of_def cursor_of_def)
  qed
next
  show "first_sight_ok l (\<lambda>s k. spend s nfs)"
    unfolding first_sight_ok_def
  proof (intro allI)
    fix s :: ingest and k :: nat
    obtain st where st: "spend s nfs = s\<lparr>ix_store := st\<rparr>" "feed (ps_mem st) = feed_of s" "lastBlock (ps_mem st) = cursor_of s" using spend_frame by blast
    then show "\<exists>st w. spend s nfs = s\<lparr>ix_store := st, q_withdraws := w\<rparr> \<and> feed (ps_mem st) = feed_of s \<and>
      lastBlock (ps_mem st) = cursor_of s \<and> (w = q_withdraws s \<or> w = push_queue (q_withdraws s) (pl_txHash l) k)"
      by (intro exI [of _ st] exI [of _ "q_withdraws s"]) simp
  qed
next
  show "first_sight_ok l (\<lambda>s k. spend (s\<lparr>q_withdraws := push_queue (q_withdraws s) (pl_txHash l) k\<rparr>) nfs)"
    unfolding first_sight_ok_def
  proof (intro allI)
    fix s :: ingest and k :: nat
    let ?w = "push_queue (q_withdraws s) (pl_txHash l) k"
    obtain st where "spend (s\<lparr>q_withdraws := ?w\<rparr>) nfs = s\<lparr>q_withdraws := ?w\<rparr>\<lparr>ix_store := st\<rparr>" "feed (ps_mem st) = feed_of s" "lastBlock (ps_mem st) = cursor_of s"
      using spend_frame [of "s\<lparr>q_withdraws := ?w\<rparr>" nfs] by auto
    then show "\<exists>st w. spend (s\<lparr>q_withdraws := ?w\<rparr>) nfs = s\<lparr>ix_store := st, q_withdraws := w\<rparr> \<and>
      feed (ps_mem st) = feed_of s \<and> lastBlock (ps_mem st) = cursor_of s \<and> (w = q_withdraws s \<or> w = ?w)"
      by (intro exI [of _ st] exI [of _ ?w]) simp
  qed
qed

lemma consumer_well_behaved:
  assumes "outputs_of (pl_event l) = ocs" and "subtrees_of (pl_event l) = []" and "audited (pl_event l)"
    and f: "first_sight_ok l cont"
  shows "well_behaved s l (consumer_op s l ocs nfs projection cont)"
proof (cases "takeAppends s (pl_txHash l) ocs")
  case (Inl e)
  then show ?thesis by (simp add: consumer_op_def well_behaved_def quiet_def)
next
  case (Inr r)
  obtain ps s1 where r: "takeAppends s (pl_txHash l) ocs = Inr (ps, s1)" using Inr by (cases r) simp
  obtain q where q: "s1 = s\<lparr>q_appended := q\<rparr>" "map (fst \<circ> snd) ps = ocs" "taken (q_appended s) (pl_txHash l) ps q"
    using takeAppends_ok [OF r] by auto
  let ?take = "takeOpApplied s1 l (fst (ps ! 0)) (nonzero_count nfs) (length ocs) 0 (snd (snd (last ps)))"
  show ?thesis
  proof (cases ?take)
    case (Inl e)
    then show ?thesis using r q by (simp add: consumer_op_def well_behaved_def quiet_def freezes_same)
  next
    case (Inr s2)
    obtain op b where b: "s2 = s1\<lparr>q_anchors := b\<rparr>" "taken (q_anchors s1) (pl_txHash l) [op] b"
      "pl_address l \<noteq> None \<longrightarrow> an_module op = toLowerCase (the (pl_address l))"
      using takeOpApplied_ok [OF Inr] by auto
    have audit: "list_all2 anchor_for [op] (audits l)"
      using b(3) assms(3) by (auto simp: audits_def anchor_for_def emitter_of_def)
    let ?s3 = "record_leaves s2 (zip (map fst ps) ocs)" and ?d = "projectFeedEntry (position_of l) (projection (map fst ps))"
    obtain m where m: "?s3 = s2\<lparr>ix_mirror := m\<rparr>" "tree m = tree (ix_mirror s2)" using record_leaves_frame by blast
    obtain s4 k where k: "add_feed ?s3 ?d = (s4, k)" by (cases "add_feed ?s3 ?d") simp
    obtain st where st: "s4 = ?s3\<lparr>ix_store := st\<rparr>" and grow: "case k of None \<Rightarrow> st = ix_store ?s3
        | Some n \<Rightarrow> n = length (feed_of ?s3) \<and> (\<exists>x. feed (ps_mem st) = feed_of ?s3 @ [x])"
      and mark: "lastBlock (ps_mem st) = cursor_of ?s3"
    using add_feed_frame [OF k] by (auto split: option.splits)
    have corr: "correlated s l s'" if "q_appended s' = q" "q_subtrees s' = q_subtrees s" "q_anchors s' = b" for s'
      unfolding correlated_def using that q b(2) audit assms by (intro conjI exI) auto
    show ?thesis
    proof (cases k)
      case None
      then show ?thesis using r k st grow mark m q b(1) corr Inr
        by (simp add: consumer_op_def well_behaved_def Let_def quiet_def freezes_same feed_of_def cursor_of_def)
    next
      case (Some n)
      obtain st' w where w: "cont s4 n = s4\<lparr>ix_store := st', q_withdraws := w\<rparr>" "feed (ps_mem st') = feed_of s4" "lastBlock (ps_mem st') = cursor_of s4"
        "w = q_withdraws s4 \<or> w = push_queue (q_withdraws s4) (pl_txHash l) n"
        using f unfolding first_sight_ok_def by metis
      obtain x where x: "feed (ps_mem st) = feed_of s @ [x]" "n = length (feed_of s)" using grow Some m q b(1) by auto
      have "consumer_op s l ocs nfs projection cont = (cont s4 n, None)"
        using r k Some Inr by (simp add: consumer_op_def Let_def)
      moreover have "freezes s (cont s4 n)"
        using w st m q x b(1) by (intro freezes_grow [of _ _ "[x]"]) auto
      ultimately show ?thesis using w st mark m q b(1) corr by (simp add: well_behaved_def quiet_def)
    qed
  qed
qed

lemma disbursed_well_behaved:
  assumes "pl_event l = EvDisbursed r dh epoch nf a"
  shows "well_behaved s l (on_disbursed E s l r dh epoch nf a)"
proof (cases "takeSubtree s (pl_txHash l) r")
  case (Inl e)
  then show ?thesis by (simp add: on_disbursed_def well_behaved_def quiet_def)
next
  case (Inr t)
  obtain start sub root s1 where t: "takeSubtree s (pl_txHash l) r = Inr ((start, sub, root), s1)" using Inr by (cases t) auto
  obtain q where q: "s1 = s\<lparr>q_subtrees := q\<rparr>" "sub = r" "taken (q_subtrees s) (pl_txHash l) [(start, sub, root)] q"
    using takeSubtree_ok [OF t] by auto
  define ct where "ct = (case map_of (q_ciphertexts s1) (pl_txHash l, start) of None \<Rightarrow> [] | Some c \<Rightarrow> c)"
  define d where "d = verifyDisclosure (le_h E) ct dh (le_B E) (pl_txHash l) start"
  obtain c where c: "disclosure_line False d s1 = s1\<lparr>console := c\<rparr>" "filter is_gap c = gaps s1"
    using disclosure_line_frame by blast
  define draft where "draft = disburse_draft l epoch a (disburse_slices (le_B E) start ct) ct d"
  obtain s3 k where k: "add_feed (s1\<lparr>console := c\<rparr>) draft = (s3, k)" by (cases "add_feed (s1\<lparr>console := c\<rparr>) draft") simp
  obtain st where st: "s3 = s1\<lparr>console := c, ix_store := st\<rparr>" and grow: "case k of None \<Rightarrow> st = ix_store s1
      | Some n \<Rightarrow> (\<exists>x. feed (ps_mem st) = feed_of s1 @ [x])"
    and mark: "lastBlock (ps_mem st) = cursor_of s1"
    using add_feed_frame [OF k] by (auto split: option.splits)
  have corr: "correlated s l s'" if "q_appended s' = q_appended s" "q_subtrees s' = q" "q_anchors s' = q_anchors s" for s'
    unfolding correlated_def using that q(2,3) assms by (auto simp: audits_def)
  have eq: "on_disbursed E s l r dh epoch nf a = (case k of None \<Rightarrow> (s3, None) | Some n \<Rightarrow>
      if length ct > le_B E * 4
      then apply_ledger E (spend s3 [nf]) (ledger_op l Disburse a (drop (le_B E * 4) ct) [] (Some (start, sub)))
      else (spend s3 [nf], None))"
    using t k c(1) unfolding on_disbursed_def ct_def d_def draft_def Let_def by (simp split: option.splits)
  show ?thesis
  proof (cases k)
    case None
    then show ?thesis using st grow mark q c corr
      by (simp add: eq well_behaved_def quiet_def freezes_same feed_of_def cursor_of_def)
  next
    case (Some n)
    obtain x where x: "feed (ps_mem st) = feed_of s @ [x]" using grow Some q by auto
    define s5 where "s5 = spend s3 [nf]"
    obtain st' where st': "s5 = s3\<lparr>ix_store := st'\<rparr>" "feed (ps_mem st') = feed_of s3" "lastBlock (ps_mem st') = cursor_of s3"
      unfolding s5_def using spend_frame by blast
    define op where "op = ledger_op l Disburse a (drop (le_B E * 4) ct) [] (Some (start, sub))"
    obtain s6 e where e: "apply_ledger E s5 op = (s6, e)" by (cases "apply_ledger E s5 op") simp
    obtain ld m' where s6: "s6 = s5\<lparr>ix_ledger := ld, ix_mirror := m'\<rparr>" "tree m' = tree (ix_mirror s5)"
      using apply_ledger_frame [OF e] by blast
    have f: "freezes s s5" "freezes s s6"
      using s6 st' st mark q x by (auto intro!: freezes_grow [of _ _ "[x]"])
    have w: "well_behaved s l (s5, None)" "well_behaved s l (s6, e)"
      using f s6 st' st mark q c corr by (simp_all add: well_behaved_def quiet_def)
    have "on_disbursed E s l r dh epoch nf a = (if length ct > le_B E * 4 then (s6, e) else (s5, None))"
      unfolding eq Some s5_def [symmetric] op_def [symmetric] e by simp
    then show ?thesis using w by presburger
  qed
qed

lemma disbursed_priv_well_behaved:
  assumes "pl_event l = EvDisbursedPriv r dh nf hashes key nonce"
  shows "well_behaved s l (on_disbursed_priv E s l r dh nf hashes key nonce)"
proof (cases "takeSubtree s (pl_txHash l) r")
  case (Inl e)
  then show ?thesis by (simp add: on_disbursed_priv_def well_behaved_def quiet_def)
next
  case (Inr t)
  obtain start sub root s1 where t: "takeSubtree s (pl_txHash l) r = Inr ((start, sub, root), s1)" using Inr by (cases t) auto
  obtain q where q: "s1 = s\<lparr>q_subtrees := q\<rparr>" "sub = r" "taken (q_subtrees s) (pl_txHash l) [(start, sub, root)] q"
    using takeSubtree_ok [OF t] by auto
  show ?thesis
  proof (cases "takeOpApplied s1 l start 1 0 sub root")
    case (Inl e)
    then show ?thesis using t q by (simp add: on_disbursed_priv_def well_behaved_def quiet_def freezes_same)
  next
    case (Inr s2)
    obtain op b where b: "s2 = s1\<lparr>q_anchors := b\<rparr>" "taken (q_anchors s1) (pl_txHash l) [op] b"
      "pl_address l \<noteq> None \<longrightarrow> an_module op = toLowerCase (the (pl_address l))"
      using takeOpApplied_ok [OF Inr] by auto
    have audit: "list_all2 anchor_for [op] (audits l)"
      using b(3) assms by (auto simp: audits_def anchor_for_def emitter_of_def)
    define d where "d = (case map_of (q_disclosures s2) (pl_txHash l, start) of None \<Rightarrow> [] | Some x \<Rightarrow> x)"
    define v where "v = verifyConsumerDisclosure (le_h E) d dh sub (le_B E) (pl_txHash l) start"
    obtain c where c: "disclosure_line True (cv_result v) s2 = s2\<lparr>console := c\<rparr>" "filter is_gap c = gaps s2"
      using disclosure_line_frame by blast
    define draft where "draft = projectFeedEntry (position_of l) (DisbursePrivRow key nonce start (le_B E) d (cv_result v))"
    obtain s4 k where k: "add_feed (s2\<lparr>console := c\<rparr>) draft = (s4, k)" by (cases "add_feed (s2\<lparr>console := c\<rparr>) draft") simp
    obtain st where st: "s4 = s2\<lparr>console := c, ix_store := st\<rparr>" and grow: "case k of None \<Rightarrow> st = ix_store s2
        | Some n \<Rightarrow> (\<exists>x. feed (ps_mem st) = feed_of s2 @ [x])"
      and mark: "lastBlock (ps_mem st) = cursor_of s2"
    using add_feed_frame [OF k] by (auto split: option.splits)
    have corr: "correlated s l s'" if "q_appended s' = q_appended s" "q_subtrees s' = q" "q_anchors s' = b" for s'
      unfolding correlated_def using that q b(2) audit assms by (intro conjI exI) auto
    have eq: "\<exists>kem m. tree m = tree (ix_mirror s) \<and> on_disbursed_priv E s l r dh nf hashes key nonce =
       ((case k of None \<Rightarrow> s4 | Some n \<Rightarrow> (spend s4 [nf])\<lparr>ix_kem := kem, ix_mirror := m\<rparr>), None)"
    proof (cases k)
      case None
      then show ?thesis using t k Inr c(1)
        unfolding on_disbursed_priv_def d_def v_def draft_def Let_def by (auto intro: exI [of _ "ix_mirror s"])
    next
      case (Some n)
      define S where "S = spend s4 [nf]"
      obtain st' where "S = s4\<lparr>ix_store := st'\<rparr>" unfolding S_def using spend_frame by blast
      then have S: "ix_mirror S = ix_mirror s" using st q b(1) by simp
      obtain K where K: "on_disbursed_priv E s l r dh nf hashes key nonce =
          (case cv_leaves v of None \<Rightarrow> S\<lparr>ix_kem := K\<rparr> | Some ls \<Rightarrow> S\<lparr>ix_kem := K, ix_mirror := fillBatch (ix_mirror S) start ls Public\<rparr>, None)"
        unfolding on_disbursed_priv_def t Inr Let_def sum.case prod.case d_def [symmetric] v_def [symmetric] c(1)
          draft_def [symmetric] k Some option.case S_def [symmetric] by (cases "cv_leaves v") auto
      show ?thesis
      proof (cases "cv_leaves v")
        case None
        then show ?thesis using K \<open>k = Some n\<close> S unfolding S_def [symmetric]
          by (intro exI [of _ K] exI [of _ "ix_mirror S"]) simp
      next
        case (Some ls)
        then show ?thesis using K \<open>k = Some n\<close> S unfolding S_def [symmetric]
          by (intro exI [of _ K] exI [of _ "fillBatch (ix_mirror S) start ls Public"]) simp
      qed
    qed
    then obtain kem m where eq: "tree m = tree (ix_mirror s)" "on_disbursed_priv E s l r dh nf hashes key nonce =
       ((case k of None \<Rightarrow> s4 | Some n \<Rightarrow> (spend s4 [nf])\<lparr>ix_kem := kem, ix_mirror := m\<rparr>), None)" by blast
    show ?thesis
    proof (cases k)
      case None
      then show ?thesis using st grow mark q b(1) c corr
        by (simp add: eq well_behaved_def quiet_def freezes_same feed_of_def cursor_of_def)
    next
      case (Some n)
      obtain x where x: "feed (ps_mem st) = feed_of s @ [x]" using grow Some q b(1) by auto
      obtain st' where st': "spend s4 [nf] = s4\<lparr>ix_store := st'\<rparr>" "feed (ps_mem st') = feed_of s4" "lastBlock (ps_mem st') = cursor_of s4" using spend_frame by blast
      have "freezes s ((spend s4 [nf])\<lparr>ix_kem := kem, ix_mirror := m\<rparr>)"
        using st' st mark q b(1) x by (auto intro!: freezes_grow [of _ _ "[x]"])
      then show ?thesis using st' st mark q b(1) c corr eq Some by (simp add: well_behaved_def quiet_def)
    qed
  qed
qed

lemma announcement_well_behaved:
  assumes "pl_event l = EvWithdrawAnnouncement rec eph tag"
  shows "well_behaved s l (on_withdraw_announcement s l rec eph tag, None)"
proof -
  have corr: "correlated s l s'" if "q_appended s' = q_appended s" "q_subtrees s' = q_subtrees s" "q_anchors s' = q_anchors s" for s'
    unfolding correlated_def using that assms by (auto simp: audits_def)
  show ?thesis
  proof (cases "shift_queue (q_withdraws s) (pl_txHash l)")
    case (Pair x q)
    show ?thesis
    proof (cases x)
      case None
      then have "q = q_withdraws s" using Pair shift_queue_None [of "q_withdraws s"] by blast
      then show ?thesis using Pair None
        by (simp add: on_withdraw_announcement_def well_behaved_def quiet_def corr)
    next
      case (Some k)
      have q: "list_at (q_withdraws s) (pl_txHash l) = k # list_at q (pl_txHash l)"
        "\<And>t. t \<noteq> pl_txHash l \<Longrightarrow> list_at q t = list_at (q_withdraws s) t"
        using shift_queue_Some [of "q_withdraws s" "pl_txHash l" k q] Pair Some by auto
      let ?s' = "on_withdraw_announcement s l rec eph tag"
      have s': "q_withdraws ?s' = q \<and> (\<exists>y. feed_of ?s' = (feed_of s)[k := y])"
      proof (cases "isStealthAnnouncement eph")
        case True
        then show ?thesis using Pair Some
          by (auto simp: on_withdraw_announcement_def Let_def attach_announcement_def feed_of_def)
      next
        case False
        then have "q_withdraws ?s' = q" "feed_of ?s' = (feed_of s)[k := feed_of s ! k]"
          using Pair Some by (simp_all add: on_withdraw_announcement_def)
        then show ?thesis by blast
      qed
      have k: "out_of_reach n s \<Longrightarrow> n \<le> k" for n
        using q(1) unfolding out_of_reach_def by (metis list.set_intros(1))
      have "out_of_reach n s \<Longrightarrow> j \<in> set (list_at q tx) \<Longrightarrow> n \<le> j" for n j tx
        using q unfolding out_of_reach_def by (metis list.set_intros(2))
      then have "freezes s ?s'" using s' k unfolding freezes_def out_of_reach_def by (metis length_list_update take_update_cancel)
      then show ?thesis using Pair Some
        by (auto simp: on_withdraw_announcement_def attach_announcement_def cursor_of_def Let_def well_behaved_def quiet_def corr)
    qed
  qed
qed

text \<open>The state of the registry after an event.\<close>

definition registry_step :: "module_registry \<Rightarrow> parsed_log \<Rightarrow> module_registry" where
  "registry_step r l =
     (case pl_event l of
        EvModuleRegistered m \<Rightarrow> fst (applyRegistered r (pl_txHash l) (pl_logIndex l) m)
      | EvModuleRemoved m \<Rightarrow> fst (applyRemoved r (pl_txHash l) (pl_logIndex l) m)
      | _ \<Rightarrow> r)"

definition handled :: "ingest \<Rightarrow> parsed_log \<Rightarrow> ingest \<times> ingest_error option \<Rightarrow> bool" where
  "handled s l r \<longleftrightarrow> quiet s (fst r) \<and> ix_modules (fst r) = registry_step (ix_modules s) l \<and>
     (snd r = None \<longrightarrow> correlated s l (fst r))"

lemma well_behaved_handled:
  "well_behaved s l r \<Longrightarrow> registry_step (ix_modules s) l = ix_modules s \<Longrightarrow> handled s l r"
  by (simp add: well_behaved_def handled_def)

lemma correlated_same:
  "outputs_of (pl_event l) = [] \<Longrightarrow> subtrees_of (pl_event l) = [] \<Longrightarrow> \<not> audited (pl_event l) \<Longrightarrow>
     q_appended s' = q_appended s \<Longrightarrow> q_subtrees s' = q_subtrees s \<Longrightarrow> q_anchors s' = q_anchors s \<Longrightarrow> correlated s l s'"
  unfolding correlated_def audits_def by (intro conjI exI [of _ "[]"]) simp_all

lemma other_handled:
  assumes "outputs_of (pl_event l) = []" and "subtrees_of (pl_event l) = []" and "\<not> audited (pl_event l)"
    and "ix_modules (fst r) = registry_step (ix_modules s) l" and "ix_mirror (fst r) = ix_mirror s"
    and "feed_of (fst r) = feed_of s" and "cursor_of (fst r) = cursor_of s" and "gaps (fst r) = gaps s" and "q_withdraws (fst r) = q_withdraws s"
    and "q_appended (fst r) = q_appended s" and "q_subtrees (fst r) = q_subtrees s" and "q_anchors (fst r) = q_anchors s"
  shows "handled s l r"
  using assms correlated_same [of l "fst r" s] by (simp add: handled_def quiet_def freezes_same)

lemma handle_handled: "handled s l (handle E s l)"
proof (cases "pl_event l")
  case (EvDeposited oc0 oc1 a)
  then show ?thesis
    by (intro well_behaved_handled) (simp_all add: handle_def on_deposited_def registry_step_def enterprise_well_behaved audits_def)
next
  case (EvTransferred ocs nfs epoch ct0 ct1 a)
  then show ?thesis
    by (intro well_behaved_handled) (simp_all add: handle_def on_transferred_def registry_step_def enterprise_well_behaved audits_def)
next
  case (EvTransferred10 ocs nfs epoch cts a)
  then show ?thesis
    by (intro well_behaved_handled) (simp_all add: handle_def on_transferred10_def registry_step_def enterprise_well_behaved audits_def)
next
  case (EvTransferred10x2 ocs nfs epoch cts a)
  then show ?thesis
    by (intro well_behaved_handled) (simp_all add: handle_def on_transferred10_def registry_step_def enterprise_well_behaved audits_def)
next
  case (EvWithdrawn chg nfs a)
  then show ?thesis
    by (intro well_behaved_handled) (simp_all add: handle_def on_withdrawn_def registry_step_def enterprise_well_behaved audits_def)
next
  case (EvWithdrawAnnouncement rec eph tag)
  then show ?thesis by (intro well_behaved_handled) (simp_all add: handle_def registry_step_def announcement_well_behaved)
next
  case (EvDisbursed r dh epoch nf a)
  then show ?thesis by (intro well_behaved_handled) (simp_all add: handle_def registry_step_def disbursed_well_behaved)
next
  case (EvDisbursedPriv r dh nf hashes key nonce)
  then show ?thesis by (intro well_behaved_handled) (simp_all add: handle_def registry_step_def disbursed_priv_well_behaved)
next
  case (EvDepositedPriv oc0 oc1 ct0 ct1 a)
  then show ?thesis
    by (intro well_behaved_handled) (simp_all add: handle_def on_deposited_priv_def registry_step_def consumer_well_behaved first_sight_simps)
next
  case (EvTransferredPriv ocs nfs ct0 ct1 a)
  then show ?thesis
    by (intro well_behaved_handled) (simp_all add: handle_def on_transferred_priv_def registry_step_def consumer_well_behaved first_sight_simps)
next
  case (EvTransferred10x2Priv ocs nfs cts a)
  then show ?thesis
    by (intro well_behaved_handled) (simp_all add: handle_def on_transferred_priv_def registry_step_def consumer_well_behaved first_sight_simps)
next
  case (EvWithdrawnPriv chg nfs cts a)
  then show ?thesis
    by (intro well_behaved_handled) (simp_all add: handle_def on_withdrawn_priv_def registry_step_def consumer_well_behaved first_sight_simps)
next
  case (EvAnnounced salt eph tag)
  then show ?thesis
    by (intro other_handled) (auto simp: handle_def on_announced_def Let_def registry_step_def gaps_def split: option.splits)
next
  case (EvDisburseKemChunkAccepted b i d)
  then show ?thesis
    by (intro other_handled) (auto simp: handle_def on_chunk_accepted_def registry_step_def split: prod.splits)
qed (intro other_handled; simp add: handle_def on_registry_def on_swept_def registry_step_def)+

end
