(* ===== verification/Ingest_Safety.thy ===== *)
theory Ingest_Safety
  imports Ingest_Correct
begin

text \<open>
  The properties of a whole pass of \<open>applyLogs\<close>, from the effect of its handlers: what foreign
  contracts can influence, which events an operation is matched with, and what earlier passes fixed.
\<close>

subsection \<open>Runs\<close>

definition at_tx :: "(parsed_log \<Rightarrow> 'a list) \<Rightarrow> parsed_log list \<Rightarrow> string \<Rightarrow> 'a list" where
  "at_tx f ls tx = concat (map f (filter (\<lambda>l. pl_txHash l = tx) ls))"

lemma at_tx_simps [simp]:
  "at_tx f [] tx = []"
  "at_tx f (l # ls) tx = (if pl_txHash l = tx then f l else []) @ at_tx f ls tx"
  by (simp_all add: at_tx_def)

abbreviation leaf_of :: "nat \<times> int \<times> int \<Rightarrow> int" where
  "leaf_of p \<equiv> fst (snd p)"

lemma quiet_trans: "quiet s s1 \<Longrightarrow> quiet s1 s2 \<Longrightarrow> quiet s s2"
  by (auto simp: quiet_def intro: freezes_trans)

lemma handle_run_quiet: "quiet s (fst (run_steps (handle E) s ls))"
proof (induction ls arbitrary: s)
  case Nil
  show ?case by (simp add: quiet_def)
next
  case (Cons l ls)
  have "quiet s (fst (handle E s l))" using handle_handled [of s l E] by (simp add: handled_def)
  then show ?case using Cons by (auto split: prod.splits option.splits intro: quiet_trans)
qed

text \<open>On success, each queue has given each event what it consumes, in order.\<close>

definition consumed :: "ingest \<Rightarrow> parsed_log list \<Rightarrow> ingest \<Rightarrow> string \<Rightarrow> bool" where
  "consumed s ls s' tx \<longleftrightarrow>
     map leaf_of (list_at (q_appended s) tx) = at_tx (outputs_of \<circ> pl_event) ls tx @ map leaf_of (list_at (q_appended s') tx) \<and>
     map leaf_of (list_at (q_subtrees s) tx) = at_tx (subtrees_of \<circ> pl_event) ls tx @ map leaf_of (list_at (q_subtrees s') tx) \<and>
     (\<exists>ops. list_at (q_anchors s) tx = ops @ list_at (q_anchors s') tx \<and> list_all2 anchor_for ops (at_tx audits ls tx))"

lemma taken_at: "taken q tx xs q' \<Longrightarrow> list_at q t = (if t = tx then xs else []) @ list_at q' t"
  by (simp add: taken_def)

lemma correlated_consumed:
  assumes "correlated s l s'"
  shows "consumed s [l] s' tx"
proof -
  obtain ps ps' ops where t: "taken (q_appended s) (pl_txHash l) ps (q_appended s')" "map (fst \<circ> snd) ps = outputs_of (pl_event l)"
    "taken (q_subtrees s) (pl_txHash l) ps' (q_subtrees s')" "map (fst \<circ> snd) ps' = subtrees_of (pl_event l)"
    "taken (q_anchors s) (pl_txHash l) ops (q_anchors s')" "list_all2 anchor_for ops (audits l)"
    using assms unfolding correlated_def by blast
  show ?thesis
  proof (cases "pl_txHash l = tx")
    case True
    then show ?thesis using t(2,4,6) taken_at [OF t(1), of tx] taken_at [OF t(3), of tx] taken_at [OF t(5), of tx]
      by (auto simp: consumed_def comp_def)
  next
    case False
    then show ?thesis using taken_at [OF t(1), of tx] taken_at [OF t(3), of tx] taken_at [OF t(5), of tx]
      by (simp add: consumed_def)
  qed
qed

lemma consumed_trans: "consumed s xs s1 tx \<Longrightarrow> consumed s1 ys s2 tx \<Longrightarrow> consumed s (xs @ ys) s2 tx"
  unfolding consumed_def at_tx_def by (auto intro: list_all2_appendI)

lemma handle_run_ok:
  assumes "run_steps (handle E) s ls = (s', None)"
  shows "consumed s ls s' tx \<and> (distinct (map fst (q_anchors s)) \<longrightarrow> distinct (map fst (q_anchors s'))) \<and>
    ix_modules s' = fold (\<lambda>l r. registry_step r l) ls (ix_modules s)"
  using assms
proof (induction ls arbitrary: s)
  case Nil
  then show ?case by (auto simp: consumed_def)
next
  case (Cons l ls)
  obtain s1 where s1: "handle E s l = (s1, None)" "run_steps (handle E) s1 ls = (s', None)"
    using Cons.prems unfolding run_steps_Cons_None by blast
  have h: "correlated s l s1" "ix_modules s1 = registry_step (ix_modules s) l"
    using handle_handled [of s l E] s1(1) by (simp_all add: handled_def)
  have "consumed s ([l] @ ls) s' tx"
    by (rule consumed_trans [OF correlated_consumed [OF h(1)]]) (use Cons.IH [OF s1(2)] in simp)
  moreover have "distinct (map fst (q_anchors s)) \<longrightarrow> distinct (map fst (q_anchors s1))"
    using h(1) unfolding correlated_def taken_def by blast
  ultimately show ?case using Cons.IH [OF s1(2)] h(2) by simp
qed

text \<open>Pass 1.\<close>

fun appended_of :: "log_event \<Rightarrow> (nat \<times> int \<times> int) list" where
  "appended_of (EvAppended i v r) = [(i, v, r)]"
| "appended_of _ = []"

fun attached_of :: "log_event \<Rightarrow> (nat \<times> int \<times> int) list" where
  "attached_of (EvSubtreeAppended i v r) = [(i, v, r)]"
| "attached_of _ = []"

fun anchors_of :: "log_event \<Rightarrow> op_anchor list" where
  "anchors_of (EvOpApplied a) = [a\<lparr>an_module := toLowerCase (an_module a)\<rparr>]"
| "anchors_of _ = []"

fun tree_event :: "log_event \<Rightarrow> mirror_event list" where
  "tree_event (EvAppended i v r) = [EvAppend i v r]"
| "tree_event (EvSubtreeAppended i v r) = [EvAttach i v r]"
| "tree_event _ = []"

definition tree_events :: "parsed_log list \<Rightarrow> mirror_event list" where
  "tree_events ls = concat (map (tree_event \<circ> pl_event) ls)"

text \<open>What pass 1 leaves alone.\<close>

definition rest :: "ingest \<Rightarrow> (pg_store \<times> ledger option \<times> module_registry \<times> kem_store \<times> portal_registry \<times> console_line list) \<times>
    (op_anchor tx_queue \<times> nat tx_queue \<times> (string \<times> string \<times> int \<times> string) list)" where
  "rest s = ((ix_store s, ix_ledger s, ix_modules s, ix_kem s, ix_portal s, console s), (q_anchors s, q_withdraws s, q_swept s))"

lemma drive_rest: "rest (fst (drive_tree h s l)) = rest s"
  by (auto simp: drive_tree_def rest_def split: log_event.splits prod.splits option.splits)

lemma drive_run_rest: "rest (fst (run_steps (drive_tree h) s ls)) = rest s"
proof (induction ls arbitrary: s)
  case (Cons l ls)
  then show ?case using drive_rest [of h s l] by (auto split: prod.splits option.splits)
qed simp

lemma drive_ok:
  assumes "drive_tree h s l = (s', None)"
  shows "run_steps (mirror_step h) (ix_mirror s) (tree_event (pl_event l)) = (ix_mirror s', None) \<and>
    list_at (q_appended s') tx = list_at (q_appended s) tx @ (if pl_txHash l = tx then appended_of (pl_event l) else []) \<and>
    list_at (q_subtrees s') tx = list_at (q_subtrees s) tx @ (if pl_txHash l = tx then attached_of (pl_event l) else [])"
  using assms by (cases "pl_event l") (auto simp: drive_tree_def list_at_push split: prod.splits option.splits)

lemma drive_run_ok:
  assumes "run_steps (drive_tree h) s ls = (s', None)"
  shows "run_steps (mirror_step h) (ix_mirror s) (tree_events ls) = (ix_mirror s', None) \<and>
    list_at (q_appended s') tx = list_at (q_appended s) tx @ at_tx (appended_of \<circ> pl_event) ls tx \<and>
    list_at (q_subtrees s') tx = list_at (q_subtrees s) tx @ at_tx (attached_of \<circ> pl_event) ls tx"
  using assms
proof (induction ls arbitrary: s)
  case Nil
  then show ?case by (simp add: tree_events_def)
next
  case (Cons l ls)
  obtain s1 where s1: "drive_tree h s l = (s1, None)" "run_steps (drive_tree h) s1 ls = (s', None)"
    using Cons.prems unfolding run_steps_Cons_None by blast
  have "tree_events (l # ls) = tree_event (pl_event l) @ tree_events ls" by (simp add: tree_events_def)
  then show ?case using drive_ok [OF s1(1), of tx] Cons.IH [OF s1(2)] by (simp add: run_steps_append)
qed

text \<open>The collecting passes.\<close>

lemma collect_anchors_at:
  "\<exists>q. fold collect_anchor ls s = s\<lparr>q_anchors := q\<rparr> \<and> (distinct (map fst (q_anchors s)) \<longrightarrow> distinct (map fst q)) \<and>
     (\<forall>tx. list_at q tx = list_at (q_anchors s) tx @ at_tx (anchors_of \<circ> pl_event) ls tx)"
proof (induction ls arbitrary: s)
  case Nil
  show ?case by (intro exI [of _ "q_anchors s"]) simp
next
  case (Cons l ls)
  obtain q1 where q1: "collect_anchor l s = s\<lparr>q_anchors := q1\<rparr>" "distinct (map fst (q_anchors s)) \<longrightarrow> distinct (map fst q1)"
    "\<forall>tx. list_at q1 tx = list_at (q_anchors s) tx @ (if pl_txHash l = tx then anchors_of (pl_event l) else [])"
  proof (cases "\<exists>a. pl_event l = EvOpApplied a")
    case True
    then show ?thesis by (auto simp: collect_anchor_def push_queue_def distinct_update intro: that)
  next
    case False
    then have "collect_anchor l s = s\<lparr>q_anchors := q_anchors s\<rparr>" "anchors_of (pl_event l) = []"
      by (cases "pl_event l"; simp add: collect_anchor_def)+
    then show ?thesis by (intro that [of "q_anchors s"]) auto
  qed
  then show ?case using Cons.IH [of "s\<lparr>q_anchors := q1\<rparr>"] by auto
qed

lemma collect_halves:
  "\<exists>d. fold collect_disclosure ls s = s\<lparr>q_disclosures := d\<rparr>"
  "\<exists>c. fold collect_ciphertexts ls s = s\<lparr>q_ciphertexts := c\<rparr>"
proof -
  have d: "\<exists>d. collect_disclosure l s = s\<lparr>q_disclosures := d\<rparr>" for l and s :: ingest
    by (cases "pl_event l") (auto simp: collect_disclosure_def intro: exI [of _ "q_disclosures s"])
  have c: "\<exists>c. collect_ciphertexts l s = s\<lparr>q_ciphertexts := c\<rparr>" for l and s :: ingest
    by (cases "pl_event l") (auto simp: collect_ciphertexts_def intro: exI [of _ "q_ciphertexts s"])
  show "\<exists>d. fold collect_disclosure ls s = s\<lparr>q_disclosures := d\<rparr>"
  proof (induction ls arbitrary: s)
    case Nil
    show ?case by (intro exI [of _ "q_disclosures s"]) simp
  next
    case (Cons l ls)
    obtain x where "collect_disclosure l s = s\<lparr>q_disclosures := x\<rparr>" using d by blast
    then show ?case using Cons.IH [of "s\<lparr>q_disclosures := x\<rparr>"] by auto
  qed
  show "\<exists>c. fold collect_ciphertexts ls s = s\<lparr>q_ciphertexts := c\<rparr>"
  proof (induction ls arbitrary: s)
    case Nil
    show ?case by (intro exI [of _ "q_ciphertexts s"]) simp
  next
    case (Cons l ls)
    obtain x where "collect_ciphertexts l s = s\<lparr>q_ciphertexts := x\<rparr>" using c by blast
    then show ?case using Cons.IH [of "s\<lparr>q_ciphertexts := x\<rparr>"] by auto
  qed
qed

lemma collect_shape:
  "\<exists>q d c. collect s ls = s\<lparr>q_anchors := q, q_disclosures := d, q_ciphertexts := c\<rparr> \<and>
     (distinct (map fst (q_anchors s)) \<longrightarrow> distinct (map fst q)) \<and>
     (\<forall>tx. list_at q tx = list_at (q_anchors s) tx @ at_tx (anchors_of \<circ> pl_event) ls tx)"
proof -
  obtain q where q: "fold collect_anchor ls s = s\<lparr>q_anchors := q\<rparr>"
    "distinct (map fst (q_anchors s)) \<longrightarrow> distinct (map fst q)"
    "\<forall>tx. list_at q tx = list_at (q_anchors s) tx @ at_tx (anchors_of \<circ> pl_event) ls tx"
    using collect_anchors_at by blast
  obtain d where d: "fold collect_disclosure ls (s\<lparr>q_anchors := q\<rparr>) = s\<lparr>q_anchors := q\<rparr>\<lparr>q_disclosures := d\<rparr>"
    using collect_halves(1) by blast
  obtain c where c: "fold collect_ciphertexts ls (s\<lparr>q_anchors := q\<rparr>\<lparr>q_disclosures := d\<rparr>) = s\<lparr>q_anchors := q\<rparr>\<lparr>q_disclosures := d\<rparr>\<lparr>q_ciphertexts := c\<rparr>"
    using collect_halves(2) by blast
  show ?thesis using q d c by (auto simp: collect_def)
qed

subsection \<open>The gate\<close>

definition from_pool :: "ingest_env \<Rightarrow> parsed_log \<Rightarrow> bool" where
  "from_pool E l \<longleftrightarrow> emitter_of l = None \<or> emitter_of l = Some (toLowerCase (ie_pool E))"

text \<open>The pool and the two factories.\<close>

definition trusted :: "ingest_env \<Rightarrow> string set" where
  "trusted E = toLowerCase ` ({ie_pool E} \<union> set_option (ie_portalFactory E) \<union> set_option (ie_portalPrivFactory E))"

fun registered_of :: "log_event \<Rightarrow> string set" where
  "registered_of (EvModuleRegistered m) = {toLowerCase m}"
| "registered_of _ = {}"

definition registered_in :: "ingest_env \<Rightarrow> parsed_log list \<Rightarrow> string set" where
  "registered_in E ls = (\<Union>l \<in> set (filter (from_pool E) ls). registered_of (pl_event l))"

lemma registered_in_simps [simp]:
  "registered_in E [] = {}"
  "registered_in E (l # ls) = (if from_pool E l then registered_of (pl_event l) else {}) \<union> registered_in E ls"
  by (auto simp: registered_in_def)

text \<open>The gate, one log at a time.\<close>

definition admits :: "ingest_env \<Rightarrow> string set \<Rightarrow> parsed_log \<Rightarrow> bool" where
  "admits E watched l \<longleftrightarrow>
     (let name = event_name (pl_event l); src = emitter_of l in
      if from_pool E l then name \<in> POOL_EVENT_NAMES
      else if ie_portalFactory E \<noteq> None \<and> src = map_option toLowerCase (ie_portalFactory E) then name = ''Swept''
      else if ie_portalPrivFactory E \<noteq> None \<and> src = map_option toLowerCase (ie_portalPrivFactory E)
      then name = ''Swept'' \<or> name = ''Announced''
      else the src \<in> watched \<and> name \<in> MODULE_EVENT_NAMES)"

declare gate.simps(2) [simp del]

lemma gate_branches:
  "(if p then (if n1 then x # g1 else g1) else if f then (if n2 then x # g2 else g2)
    else if v then (if n3 then x # g2 else g2) else if m then x # g2 else g2) =
   (if (if p then n1 else if f then n2 else if v then n3 else m) then [x] else []) @ (if p then g1 else g2)"
  by simp

lemma gate_Cons:
  "gate E watched (l # ls) =
     (if admits E watched l then [l] else []) @
     (if from_pool E l then gate E (registered_of (pl_event l) \<union> watched) ls else gate E watched ls)"
proof -
  have r: "(case pl_event l of EvModuleRegistered m \<Rightarrow> insert (toLowerCase m) watched | _ \<Rightarrow> watched) = registered_of (pl_event l) \<union> watched"
    by (cases "pl_event l") auto
  show ?thesis
    unfolding gate.simps(2) Let_def r admits_def from_pool_def emitter_of_def by (rule gate_branches)
qed

lemma gate_foreign:
  assumes "emitter_of l = Some a" and "a \<notin> trusted E"
    and "event_name (pl_event l) \<notin> MODULE_EVENT_NAMES \<or> a \<notin> watched \<union> registered_in E xs"
  shows "gate E watched (xs @ l # ys) = gate E watched (xs @ ys)"
  using assms(3)
proof (induction xs arbitrary: watched)
  case Nil
  have "\<not> from_pool E l" using assms(1,2) by (auto simp: from_pool_def trusted_def)
  moreover have "emitter_of l \<noteq> map_option toLowerCase (ie_portalFactory E)" if "ie_portalFactory E \<noteq> None"
    using assms(1,2) that by (auto simp: trusted_def)
  moreover have "emitter_of l \<noteq> map_option toLowerCase (ie_portalPrivFactory E)" if "ie_portalPrivFactory E \<noteq> None"
    using assms(1,2) that by (auto simp: trusted_def)
  moreover have "\<not> (the (emitter_of l) \<in> watched \<and> event_name (pl_event l) \<in> MODULE_EVENT_NAMES)" using assms(1) Nil by auto
  ultimately have "\<not> admits E watched l" unfolding admits_def Let_def by metis
  then show ?case using \<open>\<not> from_pool E l\<close> by (simp add: gate_Cons)
next
  case (Cons x xs)
  let ?wt = "if from_pool E x then registered_of (pl_event x) \<union> watched else watched"
  have "event_name (pl_event l) \<notin> MODULE_EVENT_NAMES \<or> a \<notin> ?wt \<union> registered_in E xs"
    using Cons.prems by (simp split: if_splits)
  from Cons.IH [OF this] show ?case by (simp add: gate_Cons split: if_splits)
qed

text \<open>
  C9: A contract that the pool never registered has no influence. A log whose emitter is neither the
  pool nor one of the two factories is without effect on the whole pass, whatever it decodes as,
  unless it has the name of a module event and its emitter was watched at the start or registered by
  the pool earlier in the range.
\<close>
theorem foreign_log_inert:
  assumes "emitter_of l = Some a" and "a \<notin> trusted E"
    and "event_name (pl_event l) \<notin> MODULE_EVENT_NAMES \<or> a \<notin> watched_at_start w \<union> registered_in E xs"
  shows "applyLogs E w (xs @ l # ys) = applyLogs E w (xs @ ys)"
  using gate_foreign [OF assms] by (simp add: applyLogs_def)

lemma admits_family:
  "admits E watched l \<Longrightarrow> \<not> from_pool E l \<Longrightarrow> tree_event (pl_event l) = [] \<and> registry_step r l = r"
  by (cases "pl_event l") (auto simp: admits_def Let_def MODULE_EVENT_NAMES_def registry_step_def split: if_splits)

lemma refused_family:
  "\<not> admits E watched l \<Longrightarrow> from_pool E l \<Longrightarrow> tree_event (pl_event l) = [] \<and> registry_step r l = r"
  by (cases "pl_event l") (auto simp: admits_def Let_def POOL_EVENT_NAMES_def registry_step_def)

lemma gate_pool_family:
  "tree_events (gate E watched ls) = tree_events (filter (from_pool E) ls) \<and>
   fold (\<lambda>l r. registry_step r l) (gate E watched ls) r = fold (\<lambda>l r. registry_step r l) (filter (from_pool E) ls) r"
proof (induction ls arbitrary: watched r)
  case (Cons l ls)
  show ?case
    using admits_family [of E watched l] refused_family [of E watched l] Cons.IH
    by (cases "from_pool E l"; cases "admits E watched l") (auto simp: gate_Cons tree_events_def)
qed (simp add: tree_events_def)

subsection \<open>A finished pass\<close>

lemma truncate_simps [simp]:
  "ix_mirror (indexer.truncate s) = ix_mirror s" "ix_store (indexer.truncate s) = ix_store s"
  "ix_modules (indexer.truncate s) = ix_modules s" "console (indexer.truncate s) = console s"
  by (simp_all add: indexer.defs)

lemma start_simps [simp]:
  "ix_mirror (start_ingest w) = ix_mirror w" "ix_store (start_ingest w) = ix_store w"
  "ix_modules (start_ingest w) = ix_modules w" "console (start_ingest w) = console w"
  "q_appended (start_ingest w) = []" "q_subtrees (start_ingest w) = []" "q_anchors (start_ingest w) = []"
  "q_withdraws (start_ingest w) = []"
  by (simp_all add: start_ingest_def indexer.defs)

definition gated :: "ingest_env \<Rightarrow> indexer \<Rightarrow> parsed_log list \<Rightarrow> parsed_log list" where
  "gated E w raw = gate E (watched_at_start w) raw"

lemma applyLogs_ok:
  assumes "applyLogs E w raw = (w', None)"
  obtains s1 s2 where
    "run_steps (drive_tree (le_h E)) (start_ingest w) (gated E w raw) = (s1, None)"
    "run_steps (handle E) (collect s1 (gated E w raw)) (gated E w raw) = (s2, None)"
    "w' = indexer.truncate (drain_anchors s2)"
  using assms that unfolding applyLogs_def apply_gated_def gated_def
  by (auto split: prod.splits option.splits)

definition pool_logs :: "ingest_env \<Rightarrow> parsed_log list \<Rightarrow> parsed_log list" where
  "pool_logs E raw = filter (from_pool E) raw"

lemma drain_simps [simp]:
  "ix_mirror (drain_anchors s) = ix_mirror s" "ix_modules (drain_anchors s) = ix_modules s"
  "ix_store (drain_anchors s) = ix_store s"
  by (simp_all add: drain_anchors_def)

lemma collect_same:
  "ix_mirror (collect s ls) = ix_mirror s" "ix_modules (collect s ls) = ix_modules s" "feed_of (collect s ls) = feed_of s"
  "q_appended (collect s ls) = q_appended s" "q_subtrees (collect s ls) = q_subtrees s"
  "q_withdraws (collect s ls) = q_withdraws s" "gaps (collect s ls) = gaps s" "cursor_of (collect s ls) = cursor_of s"
  using collect_shape [of s ls] by (auto simp: feed_of_def gaps_def cursor_of_def)

text \<open>
  C30: Only the pool moves the tree and the registry. After a finished pass the Merkle frontier (root,
  next index, every level) is what driving the pool's own tree events from the mirror at the start
  gives, without an error, and the module registry is what the pool's own registry events give; the
  logs of factories and modules and every later handler leave both alone.
\<close>
theorem pool_alone_moves_tree:
  assumes "applyLogs E w raw = (w', None)"
  shows "Let (run_steps (mirror_step (le_h E)) (ix_mirror w) (tree_events (pool_logs E raw))) (\<lambda>(m, e).
      e = None \<and> tree (ix_mirror w') = tree m) \<and>
    ix_modules w' = fold (\<lambda>l r. registry_step r l) (pool_logs E raw) (ix_modules w)"
proof -
  let ?G = "gated E w raw"
  obtain s1 s2 where r: "run_steps (drive_tree (le_h E)) (start_ingest w) ?G = (s1, None)"
    "run_steps (handle E) (collect s1 ?G) ?G = (s2, None)" "w' = indexer.truncate (drain_anchors s2)"
    by (rule applyLogs_ok [OF assms])
  have "run_steps (mirror_step (le_h E)) (ix_mirror w) (tree_events ?G) = (ix_mirror s1, None)"
    using drive_run_ok [OF r(1)] by simp
  moreover have "tree (ix_mirror s2) = tree (ix_mirror s1)"
    using handle_run_quiet [of "collect s1 ?G" E ?G] r(2) by (simp add: quiet_def collect_same)
  moreover have "ix_modules s1 = ix_modules w"
    using drive_run_rest [of "le_h E" "start_ingest w" ?G] r(1) by (simp add: rest_def)
  moreover have "ix_modules s2 = fold (\<lambda>l r. registry_step r l) ?G (ix_modules s1)"
    using handle_run_ok [OF r(2)] by (simp add: collect_same)
  ultimately show ?thesis
    using gate_pool_family [of E "watched_at_start w" raw] r(3) by (simp add: gated_def pool_logs_def)
qed

text \<open>The operations of the attribution lines of one transaction.\<close>

fun gap_at :: "string \<Rightarrow> console_line \<Rightarrow> op_anchor list" where
  "gap_at tx (AttributionGap t op) = (if t = tx then [op] else [])"
| "gap_at tx _ = []"

definition gap_ops :: "console_line list \<Rightarrow> string \<Rightarrow> op_anchor list" where
  "gap_ops ls tx = concat (map (gap_at tx) ls)"

lemma gap_ops_filter: "gap_ops (filter is_gap ls) tx = gap_ops ls tx"
proof (induction ls)
  case (Cons c ls)
  then show ?case by (cases c) (simp_all add: gap_ops_def)
qed (simp add: gap_ops_def)

lemma gap_ops_append [simp]: "gap_ops (xs @ ys) tx = gap_ops xs tx @ gap_ops ys tx"
  by (simp add: gap_ops_def)

lemma gap_ops_queue:
  "distinct (map fst q) \<Longrightarrow> gap_ops (concat (map (\<lambda>(t, ops). map (AttributionGap t) ops) q)) tx = list_at q tx"
proof (induction q)
  case (Cons p q)
  have one: "gap_ops (map (AttributionGap t) ops) tx = (if t = tx then ops else [])" for t ops
    by (induction ops) (auto simp: gap_ops_def)
  have "tx \<notin> set (map fst q) \<Longrightarrow> list_at q tx = []" by (simp add: list_at_def map_of_eq_None_iff [THEN iffD2])
  then show ?case using Cons one by (cases p) (auto simp: list_at_def)
qed (simp add: gap_ops_def)

text \<open>
  C3: Exact correlation. After a finished pass, in every transaction the output commitments of its
  operations, in order, are a prefix of the leaves that its \<open>Appended\<close> events inserted, the subtree roots
  of its disburses a prefix of the attached ones, and the audit anchors split in two: first one per
  consumer operation, in order and naming the module that emitted the operation's event, and then
  the rest, each of which is reported by one attribution line.
\<close>
theorem correlation_exact:
  assumes "applyLogs E w raw = (w', None)"
  shows "\<exists>more more' ops rest.
    map leaf_of (at_tx (appended_of \<circ> pl_event) (gated E w raw) tx) = at_tx (outputs_of \<circ> pl_event) (gated E w raw) tx @ more \<and>
    map leaf_of (at_tx (attached_of \<circ> pl_event) (gated E w raw) tx) = at_tx (subtrees_of \<circ> pl_event) (gated E w raw) tx @ more' \<and>
    at_tx (anchors_of \<circ> pl_event) (gated E w raw) tx = ops @ rest \<and>
    list_all2 anchor_for ops (at_tx audits (gated E w raw) tx) \<and>
    gap_ops (console w') tx = gap_ops (console w) tx @ rest"
proof -
  let ?G = "gated E w raw"
  obtain s1 s2 where r: "run_steps (drive_tree (le_h E)) (start_ingest w) ?G = (s1, None)"
    "run_steps (handle E) (collect s1 ?G) ?G = (s2, None)" "w' = indexer.truncate (drain_anchors s2)"
    by (rule applyLogs_ok [OF assms])
  have s1: "q_anchors s1 = []" "gaps s1 = filter is_gap (console w)"
    using drive_run_rest [of "le_h E" "start_ingest w" ?G] r(1) by (simp_all add: rest_def gaps_def)
  have q: "list_at (q_anchors (collect s1 ?G)) tx = at_tx (anchors_of \<circ> pl_event) ?G tx"
    "distinct (map fst (q_anchors (collect s1 ?G)))"
    using collect_shape [of s1 ?G] s1 by auto
  note c = handle_run_ok [OF r(2), of tx]
  have "gaps s2 = filter is_gap (console w)"
    using handle_run_quiet [of "collect s1 ?G" E ?G] r(2) s1 by (simp add: quiet_def collect_same)
  then have "gap_ops (console s2) tx = gap_ops (console w) tx" by (metis gaps_def gap_ops_filter)
  moreover have "distinct (map fst (q_anchors s2))" using c q(2) by blast
  ultimately have "gap_ops (console w') tx = gap_ops (console w) tx @ list_at (q_anchors s2) tx"
    using r(3) gap_ops_queue [of "q_anchors s2" tx] by (simp add: drain_anchors_def)
  moreover have "consumed (collect s1 ?G) ?G s2 tx" using c by blast
  ultimately show ?thesis
    using drive_run_ok [OF r(1), of tx] q(1) unfolding consumed_def by (auto simp: collect_same)
qed

subsection \<open>What a pass never changes\<close>

definition entries :: "indexer \<Rightarrow> feed_entry list" where
  "entries w = feed (ps_mem (ix_store w))"

lemma entries_frozen: "take (length (entries w)) (entries (fst (applyLogs E w raw))) = entries w"
proof -
  let ?G = "gated E w raw" and ?d = "drive_tree (le_h E)"
  obtain s1 e1 where s1: "run_steps ?d (start_ingest w) ?G = (s1, e1)" by (cases "run_steps ?d (start_ingest w) ?G") simp
  have f: "feed_of s1 = entries w" "q_withdraws s1 = []"
    using drive_run_rest [of "le_h E" "start_ingest w" ?G] s1 by (simp_all add: rest_def feed_of_def entries_def)
  show ?thesis
  proof (cases e1)
    case (Some e)
    then show ?thesis using s1 f by (simp add: applyLogs_def apply_gated_def gated_def entries_def feed_of_def)
  next
    case None
    obtain s2 e2 where s2: "run_steps (handle E) (collect s1 ?G) ?G = (s2, e2)" by (cases "run_steps (handle E) (collect s1 ?G) ?G") simp
    have "freezes (collect s1 ?G) s2" using handle_run_quiet [of "collect s1 ?G" E ?G] s2 by (simp add: quiet_def)
    moreover have "out_of_reach (length (entries w)) (collect s1 ?G)" using f by (simp add: out_of_reach_def collect_same)
    ultimately have "take (length (entries w)) (feed_of s2) = entries w"
      using f unfolding freezes_def by (simp add: collect_same)
    then show ?thesis using s1 s2 None
      by (cases e2) (simp_all add: applyLogs_def apply_gated_def gated_def entries_def feed_of_def)
  qed
qed

lemma applyLogs_cursor: "lastBlock (ps_mem (ix_store (fst (applyLogs E w raw)))) = lastBlock (ps_mem (ix_store w))"
proof -
  let ?G = "gated E w raw" and ?d = "drive_tree (le_h E)"
  obtain s1 e1 where s1: "run_steps ?d (start_ingest w) ?G = (s1, e1)" by (cases "run_steps ?d (start_ingest w) ?G") simp
  have f: "cursor_of s1 = lastBlock (ps_mem (ix_store w))"
    using drive_run_rest [of "le_h E" "start_ingest w" ?G] s1 by (simp add: rest_def cursor_of_def)
  obtain s2 e2 where s2: "run_steps (handle E) (collect s1 ?G) ?G = (s2, e2)" by (cases "run_steps (handle E) (collect s1 ?G) ?G") simp
  have "cursor_of s2 = cursor_of s1" using handle_run_quiet [of "collect s1 ?G" E ?G] s2 by (simp add: quiet_def collect_same)
  then show ?thesis using s1 s2 f
    by (cases e1; cases e2) (simp_all add: applyLogs_def apply_gated_def gated_def cursor_of_def)
qed

text \<open>Any number of passes, each over its own range and whatever it throws.\<close>

definition passes :: "ingest_env \<Rightarrow> parsed_log list list \<Rightarrow> indexer \<Rightarrow> indexer" where
  "passes E ranges w = fold (\<lambda>raw w. fst (applyLogs E w raw)) ranges w"

lemma passes_frozen: "\<exists>new. entries (passes E ranges w) = entries w @ new"
proof (induction ranges arbitrary: w)
  case (Cons raw ranges)
  let ?w = "fst (applyLogs E w raw)"
  obtain x where "entries ?w = entries w @ x" using entries_frozen [of w E raw] by (metis append_take_drop_id)
  moreover obtain y where "entries (passes E ranges ?w) = entries ?w @ y" using Cons.IH by blast
  ultimately show ?case by (auto simp: passes_def)
qed (simp add: passes_def)

text \<open>
  The feed is append-only and its entries are immutable. Whatever passes follow, over whatever
  logs, finished or thrown, every entry that is in the feed stays at its place unchanged, with the
  announcement it has or lacks.
\<close>
theorem feed_append_only:
  "\<exists>new. entries (passes E ranges w) = entries w @ new"
  by (rule passes_frozen)

lemma add_feed_new:
  "add_feed s d = (s', Some j) \<Longrightarrow>
     \<exists>st n. s' = s\<lparr>ix_store := st\<rparr> \<and> feed (ps_mem st) = feed_of s @ [feed_draft.extend d \<lparr>fe_seq = n\<rparr>]"
  using add_feed_frame [of s d s' "Some j"] by auto

lemma withdrawn_thrown_entry:
  assumes "on_withdrawn E s l chg nfs a = (s1, Some (LedgerThrew x))"
  shows "\<exists>e. feed_of s1 = feed_of s @ [e] \<and> fe_announcement e = None \<and> fe_txHash e = pl_txHash l"
proof -
  obtain ps s0 where ps: "takeAppends s (pl_txHash l) [chg] = Inr (ps, s0)"
    using assms by (cases "takeAppends s (pl_txHash l) [chg]")
      (auto simp: on_withdrawn_def enterprise_op_def takeAppend_def split: prod.splits option.splits if_splits)
  obtain q where q: "s0 = s\<lparr>q_appended := q\<rparr>" using takeAppends_ok [OF ps] by blast
  let ?outs = "zip (map fst ps) [chg]" and ?d = "projectFeedEntry (position_of l) (WithdrawRow None)"
  obtain m where m: "record_leaves s0 ?outs = s0\<lparr>ix_mirror := m\<rparr>" using record_leaves_frame by blast
  obtain s3 k where k: "add_feed (record_leaves s0 ?outs) ?d = (s3, k)" by (cases "add_feed (record_leaves s0 ?outs) ?d") simp
  have "k \<noteq> None" using assms ps k by (auto simp: on_withdrawn_def enterprise_op_def Let_def split: option.splits)
  then obtain j where j: "k = Some j" by blast
  obtain st n where "s3 = (record_leaves s0 ?outs)\<lparr>ix_store := st\<rparr>"
    "feed (ps_mem st) = feed_of (record_leaves s0 ?outs) @ [feed_draft.extend ?d \<lparr>fe_seq = n\<rparr>]"
    using add_feed_new [OF k [unfolded j]] by blast
  then have st: "s3 = s0\<lparr>ix_mirror := m, ix_store := st\<rparr>" "feed (ps_mem st) = feed_of s @ [feed_draft.extend ?d \<lparr>fe_seq = n\<rparr>]"
    using m q by simp_all
  let ?s4 = "s3\<lparr>q_withdraws := push_queue (q_withdraws s3) (pl_txHash l) j\<rparr>"
  obtain st' where st': "spend ?s4 [fst nfs, snd nfs] = ?s4\<lparr>ix_store := st'\<rparr>" "feed (ps_mem st') = feed_of ?s4"
    using spend_frame by blast
  have "apply_ledger E (spend ?s4 [fst nfs, snd nfs]) (ledger_op l WithdrawOp a (oa_authorityCt a) ?outs None) = (s1, Some (LedgerThrew x))"
    using assms ps k j by (simp add: on_withdrawn_def enterprise_op_def Let_def)
  then obtain ld m' where "s1 = (spend ?s4 [fst nfs, snd nfs])\<lparr>ix_ledger := ld, ix_mirror := m'\<rparr>"
    using apply_ledger_frame by blast
  then have "feed_of s1 = feed_of s @ [feed_draft.extend ?d \<lparr>fe_seq = n\<rparr>]" using st' st by simp
  then show ?thesis by (auto simp: bare_entry_def position_of_def feed_draft.defs)
qed

text \<open>
  C31: A withdrawal whose ledger step throws loses its announcement. The feed keeps the entry that was
  added before the throw, and no later pass, over the same range or any other, ever attaches the
  stealth announcement to it, so that no page of announcements lists it.
\<close>
theorem announcement_lost:
  assumes "on_withdrawn E s l chg nfs a = (s1, Some (LedgerThrew x))"
  shows "Let (entries (passes E ranges (indexer.truncate s1)), length (feed_of s)) (\<lambda>(es, k).
    k < length es \<and> fe_txHash (es ! k) = pl_txHash l \<and> announcement_of (es ! k) = None)"
proof -
  obtain e where e: "feed_of s1 = feed_of s @ [e]" "fe_announcement e = None" "fe_txHash e = pl_txHash l"
    using withdrawn_thrown_entry [OF assms] by blast
  obtain new where "entries (passes E ranges (indexer.truncate s1)) = entries (indexer.truncate s1) @ new"
    using passes_frozen by blast
  moreover have "entries (indexer.truncate s1) = feed_of s @ [e]" using e(1) by (simp add: entries_def feed_of_def)
  ultimately show ?thesis using e by (simp add: announcement_of_def nth_append)
qed

subsection \<open>Concrete passes\<close>

definition demo_env :: ingest_env where
  "demo_env =
     \<lparr>le_h = demo_hash, le_hN = (\<lambda>xs. fold (\<lambda>x a. x + 3 * a) xs 1), le_perm = (\<lambda>p. p), le_decaps = (\<lambda>ct sk. None),
      le_arbiterPriv = 7, le_kemSecret = None, le_B = 2,
      ie_pool = ''0xP'', ie_portalFactory = Some ''0xF'', ie_portalPrivFactory = None, ie_keccak = demo_keccak\<rparr>"

definition demo_indexer :: "ledger option \<Rightarrow> indexer" where
  "demo_indexer ld = \<lparr>ix_mirror = demo_mirror, ix_store = new_pg_store, ix_ledger = ld, ix_modules = new_registry,
     ix_kem = new_kem_store, ix_portal = new_portal, console = []\<rparr>"

definition demo_log :: "nat \<Rightarrow> string \<Rightarrow> log_event \<Rightarrow> parsed_log" where
  "demo_log i addr ev = \<lparr>pl_event = ev, pl_blockNumber = 3, pl_logIndex = i, pl_txHash = ''t'', pl_address = Some addr, pl_blockTimestamp = 9\<rparr>"

definition demo_args :: op_args where
  "demo_args = \<lparr>oa_key = (0, 1), oa_nonce = 4, oa_authorityCt = [], oa_kemBinding = Some 5, oa_kemCiphertext = Some []\<rparr>"

definition demo_next :: "imt \<Rightarrow> int \<Rightarrow> imt" where
  "demo_next t v = fst (appendLeaf demo_hash t v)"

text \<open>A deposit with its two leaves, and an anchor that no operation claims.\<close>

definition demo_raw :: "parsed_log list" where
  "demo_raw =
     (let t1 = demo_next (tree demo_mirror) 5; t2 = demo_next t1 6 in
      [demo_log 0 ''0xP'' (EvAppended 0 5 (tree_root t1)), demo_log 1 ''0xp'' (EvAppended 1 6 (tree_root t2)),
       demo_log 2 ''0xBAD'' (EvAppended 2 7 0),
       demo_log 3 ''0xP'' (EvDeposited 5 6 demo_args),
       demo_log 4 ''0xP'' (EvOpApplied \<lparr>an_module = ''0xM'', an_startLeafIndex = 0, an_nullifierCount = 0, an_leafCount = 2,
          an_subtreeRoot = 0, an_root = 0\<rparr>)])"

lemma demo_pass_ok: "snd (applyLogs demo_env (demo_indexer None) demo_raw) = None"
  by code_simp

theorem foreign_log_inert_witness:
  "Let demo_raw (\<lambda>ls. applyLogs demo_env (demo_indexer None) (take 2 ls @ ls ! 2 # drop 3 ls) =
     applyLogs demo_env (demo_indexer None) (take 2 ls @ drop 3 ls))"
proof -
  have "emitter_of (demo_raw ! 2) = Some ''0xbad''" "''0xbad'' \<notin> trusted demo_env"
    "event_name (pl_event (demo_raw ! 2)) \<notin> MODULE_EVENT_NAMES" by code_simp+
  then show ?thesis unfolding Let_def by (intro foreign_log_inert [of "demo_raw ! 2" "''0xbad''"] disjI1)
qed

lemma demo_pass: "applyLogs demo_env (demo_indexer None) demo_raw = (fst (applyLogs demo_env (demo_indexer None) demo_raw), None)"
  using demo_pass_ok by (metis prod.collapse)

theorem pool_alone_moves_tree_witness:
  "Let (run_steps (mirror_step demo_hash) demo_mirror (tree_events (pool_logs demo_env demo_raw))) (\<lambda>(m, e).
      e = None \<and> tree (ix_mirror (fst (applyLogs demo_env (demo_indexer None) demo_raw))) = tree m \<and> mnext m = 2)"
proof -
  have "mnext (fst (run_steps (mirror_step demo_hash) demo_mirror (tree_events (pool_logs demo_env demo_raw)))) = 2"
    by code_simp
  moreover have "le_h demo_env = demo_hash" "ix_mirror (demo_indexer None) = demo_mirror"
    by (simp_all add: demo_env_def demo_indexer_def)
  ultimately show ?thesis using pool_alone_moves_tree [OF demo_pass] by (auto simp: Let_def split: prod.splits)
qed

theorem correlation_exact_witness:
  "\<exists>ops rest. at_tx (anchors_of \<circ> pl_event) (gated demo_env (demo_indexer None) demo_raw) ''t'' = ops @ rest \<and>
     length ops = 0 \<and> length rest = 1 \<and>
     gap_ops (console (fst (applyLogs demo_env (demo_indexer None) demo_raw))) ''t'' = rest"
proof -
  have a: "at_tx audits (gated demo_env (demo_indexer None) demo_raw) ''t'' = []"
    "length (at_tx (anchors_of \<circ> pl_event) (gated demo_env (demo_indexer None) demo_raw) ''t'') = 1"
    "gap_ops (console (demo_indexer None)) ''t'' = []" by code_simp+
  from correlation_exact [OF demo_pass, of "''t''"] obtain ops rest where
    "at_tx (anchors_of \<circ> pl_event) (gated demo_env (demo_indexer None) demo_raw) ''t'' = ops @ rest"
    "list_all2 anchor_for ops (at_tx audits (gated demo_env (demo_indexer None) demo_raw) ''t'')"
    "gap_ops (console (fst (applyLogs demo_env (demo_indexer None) demo_raw))) ''t'' =
       gap_ops (console (demo_indexer None)) ''t'' @ rest" by blast
  then show ?thesis using a by (intro exI [of _ ops] exI [of _ rest]) auto
qed

definition demo_withdraw_state :: ingest where
  "demo_withdraw_state = (start_ingest (demo_indexer (Some new_ledger)))\<lparr>q_appended := [(''t'', [(0, 5, 0)])]\<rparr>"

definition demo_thrown :: ingest where
  "demo_thrown = fst (on_withdrawn demo_env demo_withdraw_state (demo_log 1 ''0xP'' (EvWithdrawn 5 (8, 9) demo_args)) 5 (8, 9) demo_args)"

theorem announcement_lost_witness:
  "Let (entries (passes demo_env [demo_raw, demo_raw] (indexer.truncate demo_thrown)), length (feed_of demo_withdraw_state)) (\<lambda>(es, k).
    k < length es \<and> fe_txHash (es ! k) = ''t'' \<and> announcement_of (es ! k) = None)"
proof -
  let ?l = "demo_log 1 ''0xP'' (EvWithdrawn 5 (8, 9) demo_args)"
  have "snd (on_withdrawn demo_env demo_withdraw_state ?l 5 (8, 9) demo_args) = Some (LedgerThrew NoKemKey)" by code_simp
  then have "on_withdrawn demo_env demo_withdraw_state ?l 5 (8, 9) demo_args = (demo_thrown, Some (LedgerThrew NoKemKey))"
    unfolding demo_thrown_def by (metis prod.collapse)
  from announcement_lost [OF this, of "[demo_raw, demo_raw]"] show ?thesis by (simp add: demo_log_def Let_def)
qed

end
