(* ===== verification/Log_Scan.thy ===== *)
theory Log_Scan
  imports Ingest
begin

text \<open>
  The I/O shell around \<open>applyLogs\<close> in \<open>apps/indexer/src/ingest.ts\<close>: the range scan that splits on a
  failing provider, the two-phase log range, block timestamps, one ingest pass with its head
  invariant, the boot from the database; and the poll bookkeeping of \<open>apps/indexer/src/host.ts\<close> and the
  boot guards of \<open>apps/indexer/src/chain.ts\<close>.

  The provider is a parameter. Its answers may differ from call to call, so the log request gets the
  number of the call; \<open>None\<close> is a rejected request. A raw log that decodes to none of the known events
  is skipped, so \<open>decode\<close> is partial; in \<open>scan_env\<close> the provider's logs are decoded already.
\<close>

subsection \<open>Scanning a range\<close>

type_synonym 'raw log_rpc = "nat \<Rightarrow> nat \<Rightarrow> nat \<Rightarrow> 'raw list option"

text \<open>\<open>walk\<close>, from call number \<open>n\<close>: the number of the next call and the logs, or \<open>None\<close> for a throw.\<close>

function walk :: "'raw log_rpc \<Rightarrow> ('raw \<Rightarrow> 'log option) \<Rightarrow> nat \<Rightarrow> nat \<Rightarrow> nat \<Rightarrow> nat \<times> 'log list option" where
  "walk rpc decode n lo hi =
     (case rpc n lo hi of
        Some raw \<Rightarrow> (Suc n, Some (List.map_filter decode raw))
      | None \<Rightarrow>
          if hi > lo
          then (let mid = (lo + hi) div 2 in
                case walk rpc decode (Suc n) lo mid of
                  (n1, None) \<Rightarrow> (n1, None)
                | (n1, Some xs) \<Rightarrow>
                    (case walk rpc decode n1 (mid + 1) hi of
                       (n2, None) \<Rightarrow> (n2, None)
                     | (n2, Some ys) \<Rightarrow> (n2, Some (xs @ ys))))
          else (Suc n, None))"
  by pat_completeness auto
termination
  by (relation "measure (\<lambda>(rpc, decode, n, lo, hi). hi - lo)") auto

declare walk.simps [simp del]

text \<open>\<open>walkChunks\<close>, with the coarse chunk \<open>LOG_CHUNK\<close>, which must be positive for it to return.\<close>

function walkChunks :: "'raw log_rpc \<Rightarrow> ('raw \<Rightarrow> 'log option) \<Rightarrow> nat \<Rightarrow> nat \<Rightarrow> nat \<Rightarrow> nat \<Rightarrow> nat \<times> 'log list option" where
  "walkChunks rpc decode chunk to n lo =
     (if lo > to \<or> chunk = 0 then (n, Some [])
      else case walk rpc decode n lo (min (lo + chunk - 1) to) of
        (n1, None) \<Rightarrow> (n1, None)
      | (n1, Some xs) \<Rightarrow>
          (case walkChunks rpc decode chunk to n1 (lo + chunk) of
             (n2, None) \<Rightarrow> (n2, None)
           | (n2, Some ys) \<Rightarrow> (n2, Some (xs @ ys))))"
  by pat_completeness auto
termination
  by (relation "measure (\<lambda>(rpc, decode, chunk, to, n, lo). Suc to - lo)") auto

declare walkChunks.simps [simp del]

definition scanRange :: "'raw log_rpc \<Rightarrow> ('raw \<Rightarrow> 'log option) \<Rightarrow> nat \<Rightarrow> nat \<Rightarrow> nat \<Rightarrow> 'log list option" where
  "scanRange rpc decode chunk from_block to = snd (walkChunks rpc decode chunk to 0 from_block)"

subsection \<open>Timestamps\<close>

text \<open>
  The loop of \<open>fetchBlockTimestamp\<close> from attempt \<open>i\<close>: attempt \<open>j\<close> is answered by \<open>getBlock j\<close>, where
  \<open>None\<close> is a throw; the second component lists the sleeps.
\<close>

function timestamp_loop :: "(nat \<Rightarrow> int option) \<Rightarrow> nat \<Rightarrow> nat \<Rightarrow> int \<times> nat list" where
  "timestamp_loop getBlock attempts i =
     (if i \<ge> attempts then (0, [])
      else case getBlock i of
        Some ts \<Rightarrow> if ts > 0 then (ts, [])
                  else (let (r, sleeps) = timestamp_loop getBlock attempts (Suc i)
                        in (r, (if i < attempts - 1 then [250 * (i + 1)] else []) @ sleeps))
      | None \<Rightarrow> (let (r, sleeps) = timestamp_loop getBlock attempts (Suc i)
                 in (r, (if i < attempts - 1 then [250 * (i + 1)] else []) @ sleeps)))"
  by pat_completeness auto
termination
  by (relation "measure (\<lambda>(getBlock, attempts, i). attempts - i)") auto

declare timestamp_loop.simps [simp del]

definition fetchBlockTimestamp :: "(nat \<Rightarrow> int option) \<Rightarrow> nat \<Rightarrow> int \<times> nat list" where
  "fetchBlockTimestamp getBlock attempts = timestamp_loop getBlock attempts 0"

subsection \<open>The ordered log range\<close>

record scan_env =
  se_rpc :: "string list \<Rightarrow> parsed_log option log_rpc"
  se_chunk :: nat
  se_txData :: "string \<Rightarrow> string option option"
  se_block :: "nat \<Rightarrow> nat \<Rightarrow> int option"

datatype scan_error = ProviderThrew | NoTimestamp nat

definition opt_list :: "'a option \<Rightarrow> 'a list" where
  "opt_list x = (case x of None \<Rightarrow> [] | Some a \<Rightarrow> [a])"

definition baseAddrs :: "ingest_env \<Rightarrow> string list" where
  "baseAddrs E = ie_pool E # opt_list (ie_portalFactory E) @ opt_list (ie_portalPrivFactory E)"

definition watch_list :: "indexer \<Rightarrow> parsed_log list \<Rightarrow> string list" where
  "watch_list w base =
     remdups (watchAddresses (ix_modules w) (pendingModules (ix_kem w)) @
       concat (map (\<lambda>l. case pl_event l of EvModuleRegistered m \<Rightarrow> [toLowerCase m] | _ \<Rightarrow> []) base))"

text \<open>The sort by block, then by index in the block; \<open>sort_key\<close> is stable.\<close>

definition sort_logs :: "parsed_log list \<Rightarrow> parsed_log list" where
  "sort_logs ls = sort_key pl_blockNumber (sort_key pl_logIndex ls)"

text \<open>
  The chunk bytes of an accepted chunk, from the calldata of its transaction: the fetch may throw
  (\<open>None\<close>), and a calldata that is no direct submission gives no bytes.
\<close>

fun fill_chunks :: "(string \<Rightarrow> string option option) \<Rightarrow> parsed_log list \<Rightarrow> parsed_log list option" where
  "fill_chunks txData [] = Some []"
| "fill_chunks txData (l # ls) =
     (case (case pl_event l of
              EvDisburseKemChunkAccepted b i data \<Rightarrow>
                (if data \<noteq> None then Some l
                 else map_option (\<lambda>d. l\<lparr>pl_event := EvDisburseKemChunkAccepted b i d\<rparr>) (txData (pl_txHash l)))
            | _ \<Rightarrow> Some l) of
        None \<Rightarrow> None
      | Some l' \<Rightarrow> map_option ((#) l') (fill_chunks txData ls))"

definition block_time :: "scan_env \<Rightarrow> nat \<Rightarrow> int" where
  "block_time S b = fst (fetchBlockTimestamp (se_block S b) 3)"

fun stamp_logs :: "scan_env \<Rightarrow> parsed_log list \<Rightarrow> scan_error + parsed_log list" where
  "stamp_logs S [] = Inr []"
| "stamp_logs S (l # ls) =
     (let ts = block_time S (pl_blockNumber l) in
      if ts = 0 then Inl (NoTimestamp (pl_blockNumber l))
      else case stamp_logs S ls of
        Inl e \<Rightarrow> Inl e
      | Inr ls' \<Rightarrow> Inr (l\<lparr>pl_blockTimestamp := nat ts\<rparr> # ls'))"

definition getLogsChunked ::
  "ingest_env \<Rightarrow> scan_env \<Rightarrow> indexer \<Rightarrow> nat \<Rightarrow> nat \<Rightarrow> scan_error + parsed_log list" where
  "getLogsChunked E S w from_block to =
     (case scanRange (se_rpc S (baseAddrs E)) id (se_chunk S) from_block to of
        None \<Rightarrow> Inl ProviderThrew
      | Some base \<Rightarrow>
          (let watch = watch_list w base in
           case (if length watch > 0 then scanRange (se_rpc S watch) id (se_chunk S) from_block to else Some []) of
             None \<Rightarrow> Inl ProviderThrew
           | Some moduleLogs \<Rightarrow>
               (case fill_chunks (se_txData S) (sort_logs (base @ moduleLogs)) of
                  None \<Rightarrow> Inl ProviderThrew
                | Some out \<Rightarrow> stamp_logs S out)))"

end
