(* ===== verification/Log_Scan_Correct.thy ===== *)
theory Log_Scan_Correct
  imports Log_Scan
begin

text \<open>
  What the I/O shell promises whatever the provider does: the scan returns every log of the range
  once and in order, with a bounded number of requests, and the timestamp policy.
\<close>

subsection \<open>The scan\<close>

text \<open>The documented answer to a log request: the logs of its blocks, in order.\<close>

definition honest_rpc :: "'raw log_rpc \<Rightarrow> (nat \<Rightarrow> 'raw list) \<Rightarrow> bool" where
  "honest_rpc rpc chain \<longleftrightarrow> (\<forall>n lo hi raw. rpc n lo hi = Some raw \<longrightarrow> raw = concat (map chain [lo..<Suc hi]))"

definition logs_between :: "('raw \<Rightarrow> 'log option) \<Rightarrow> (nat \<Rightarrow> 'raw list) \<Rightarrow> nat \<Rightarrow> nat \<Rightarrow> 'log list" where
  "logs_between decode chain lo hi = concat (map (\<lambda>b. List.map_filter decode (chain b)) [lo..<hi])"

lemma map_filter_append: "List.map_filter f (xs @ ys) = List.map_filter f xs @ List.map_filter f ys"
  by (simp add: List.map_filter_def)

lemma map_filter_concat: "List.map_filter f (concat xss) = concat (map (List.map_filter f) xss)"
proof (induction xss)
  case Nil
  show ?case by (simp add: List.map_filter_def)
qed (simp add: map_filter_append)

lemma logs_between_split: "lo \<le> m \<Longrightarrow> m \<le> hi \<Longrightarrow> logs_between decode chain lo hi = logs_between decode chain lo m @ logs_between decode chain m hi"
proof -
  assume "lo \<le> m" "m \<le> hi"
  then have "[lo..<hi] = [lo..<m] @ [m..<hi]" using upt_add_eq_append [of lo m "hi - m"] by simp
  then show ?thesis by (simp add: logs_between_def)
qed

lemma honest_answer:
  "honest_rpc rpc chain \<Longrightarrow> rpc n lo hi = Some raw \<Longrightarrow> List.map_filter decode raw = logs_between decode chain lo (Suc hi)"
proof -
  assume "honest_rpc rpc chain" "rpc n lo hi = Some raw"
  then have raw: "raw = concat (map chain [lo..<Suc hi])" unfolding honest_rpc_def by blast
  show ?thesis unfolding raw map_filter_concat logs_between_def by (simp add: comp_def del: upt_Suc)
qed

lemma walk_exact:
  assumes "honest_rpc rpc chain" and "lo \<le> hi"
  shows "(\<forall>xs. snd (walk rpc decode n lo hi) = Some xs \<longrightarrow> xs = logs_between decode chain lo (Suc hi)) \<and>
    fst (walk rpc decode n lo hi) \<le> n + 2 * (hi - lo) + 1 \<and>
    ((\<forall>k b. rpc k b b \<noteq> None) \<longrightarrow> snd (walk rpc decode n lo hi) \<noteq> None)"
  using assms
proof (induction rpc decode n lo hi rule: walk.induct)
  case (1 rpc decode n lo hi)
  show ?case
  proof (cases "rpc n lo hi")
    case (Some raw)
    then show ?thesis using honest_answer [OF 1(3) Some] by (subst (1 2 3) walk.simps) simp
  next
    case None
    show ?thesis
    proof (cases "hi > lo")
      case False
      then have "lo = hi" using 1(4) by simp
      then show ?thesis using None by (subst (1 2 3) walk.simps) auto
    next
      case True
      let ?mid = "(lo + hi) div 2"
      have m: "lo \<le> ?mid" "?mid < hi" using True by auto
      obtain n1 r1 where w1: "walk rpc decode (Suc n) lo ?mid = (n1, r1)" by fastforce
      obtain n2 r2 where w2: "walk rpc decode n1 (?mid + 1) hi = (n2, r2)" by fastforce
      note IH1 = 1(1) [OF None True refl 1(3) m(1), unfolded w1]
      have IH2: "(\<forall>xs. r2 = Some xs \<longrightarrow> xs = logs_between decode chain (?mid + 1) (Suc hi)) \<and>
          n2 \<le> n1 + 2 * (hi - (?mid + 1)) + 1 \<and> ((\<forall>k b. rpc k b b \<noteq> None) \<longrightarrow> r2 \<noteq> None)" if "r1 = Some xs" for xs
        using 1(2) [OF None True refl w1 [symmetric] that 1(3)] m w2 by simp
      have split: "logs_between decode chain lo (Suc hi) = logs_between decode chain lo (Suc ?mid) @ logs_between decode chain (Suc ?mid) (Suc hi)"
        by (rule logs_between_split) (use m in auto)
      have w: "walk rpc decode n lo hi = (case r1 of None \<Rightarrow> (n1, None) | Some xs \<Rightarrow>
          (case r2 of None \<Rightarrow> (n2, None) | Some ys \<Rightarrow> (n2, Some (xs @ ys))))"
        using None True w1 w2 by (subst walk.simps) (simp add: Let_def)
      have b1: "n1 \<le> Suc n + 2 * (?mid - lo) + 1" using IH1 by simp
      show ?thesis
      proof (cases r1)
        case None
        then show ?thesis using w IH1 b1 m by auto
      next
        case (Some xs)
        then show ?thesis using w IH1 IH2 [OF Some] split b1 m by (cases r2) auto
      qed
    qed
  qed
qed

lemma walkChunks_exact:
  assumes "honest_rpc rpc chain" and "chunk > 0"
  shows "(\<forall>xs. snd (walkChunks rpc decode chunk to n lo) = Some xs \<longrightarrow> xs = logs_between decode chain lo (Suc to)) \<and>
    fst (walkChunks rpc decode chunk to n lo) \<le> n + 2 * (Suc to - lo) \<and>
    ((\<forall>k b. rpc k b b \<noteq> None) \<longrightarrow> snd (walkChunks rpc decode chunk to n lo) \<noteq> None)"
  using assms
proof (induction rpc decode chunk to n lo rule: walkChunks.induct)
  case (1 rpc decode chunk to n lo)
  show ?case
  proof (cases "lo > to")
    case True
    then show ?thesis by (subst (1 2 3) walkChunks.simps) (simp add: logs_between_def)
  next
    case False
    let ?hi = "min (lo + chunk - 1) to"
    have hi: "lo \<le> ?hi" "?hi \<le> to" using False 1(3) by auto
    have go: "\<not> (lo > to \<or> chunk = 0)" using False 1(3) by simp
    obtain n1 r1 where w1: "walk rpc decode n lo ?hi = (n1, r1)" by fastforce
    obtain n2 r2 where w2: "walkChunks rpc decode chunk to n1 (lo + chunk) = (n2, r2)" by fastforce
    note W = walk_exact [OF 1(2) hi(1), of decode n, unfolded w1]
    have IH: "(\<forall>xs. r2 = Some xs \<longrightarrow> xs = logs_between decode chain (lo + chunk) (Suc to)) \<and>
        n2 \<le> n1 + 2 * (Suc to - (lo + chunk)) \<and> ((\<forall>k b. rpc k b b \<noteq> None) \<longrightarrow> r2 \<noteq> None)" if "r1 = Some xs" for xs
      using 1(1) [OF go w1 [symmetric] that 1(2,3)] w2 by simp
    have w: "walkChunks rpc decode chunk to n lo = (case r1 of None \<Rightarrow> (n1, None) | Some xs \<Rightarrow>
        (case r2 of None \<Rightarrow> (n2, None) | Some ys \<Rightarrow> (n2, Some (xs @ ys))))"
      using go w1 w2 by (subst walkChunks.simps) simp
    have split: "logs_between decode chain lo (Suc to) = logs_between decode chain lo (Suc ?hi) @ logs_between decode chain (lo + chunk) (Suc to)"
    proof (cases "lo + chunk - 1 \<le> to")
      case True
      then have "Suc ?hi = lo + chunk" using 1(3) by simp
      then show ?thesis using True 1(3) logs_between_split [of lo "lo + chunk" "Suc to" decode chain] by simp
    next
      case False
      then have "?hi = to" "\<not> lo + chunk < Suc to" by auto
      then show ?thesis by (simp add: logs_between_def del: upt_Suc)
    qed
    have calls: "Suc (2 * (?hi - lo)) + 2 * (Suc to - (lo + chunk)) \<le> 2 * (Suc to - lo)"
      using False 1(3) by (cases "lo + chunk - 1 \<le> to") auto
    have calls1: "Suc (2 * (?hi - lo)) \<le> 2 * (Suc to - lo)" using calls by linarith
    show ?thesis
    proof (cases r1)
      case None
      then show ?thesis using w W calls1 by auto
    next
      case (Some xs)
      then show ?thesis using w W IH [OF Some] split calls by (cases r2) auto
    qed
  qed
qed

text \<open>
  C33: The scan is complete and it finishes. Against a provider that answers a request, when it does,
  with the logs of its blocks, and that never refuses a single block, scanning a range returns every
  log of every block of the range exactly once, in chain order and without the undecodable ones,
  after at most two requests per block, however often it refuses larger ranges.
\<close>
theorem scan_covers_range:
  assumes "honest_rpc rpc chain" and "chunk > 0" and "\<forall>n b. rpc n b b \<noteq> None"
  shows "scanRange rpc decode chunk from_block to = Some (logs_between decode chain from_block (Suc to)) \<and>
    fst (walkChunks rpc decode chunk to 0 from_block) \<le> 2 * (Suc to - from_block)"
  using walkChunks_exact [OF assms(1,2), of decode to 0 from_block] assms(3) unfolding scanRange_def by fastforce

definition demo_chain :: "nat \<Rightarrow> int list" where
  "demo_chain b = (if even b then [int b, - 1] else [int b])"

text \<open>A provider that refuses every range of more than one block.\<close>

definition demo_rpc :: "int log_rpc" where
  "demo_rpc n lo hi = (if lo < hi then None else Some (concat (map demo_chain [lo..<Suc hi])))"

theorem scan_covers_range_witness:
  "scanRange demo_rpc (\<lambda>x. if x < 0 then None else Some x) 3 4 9 = Some [4, 5, 6, 7, 8, 9]"
proof -
  have h: "honest_rpc demo_rpc demo_chain" "\<forall>n b. demo_rpc n b b \<noteq> None" by (auto simp: honest_rpc_def demo_rpc_def)
  have "logs_between (\<lambda>x. if x < 0 then None else Some x) demo_chain 4 (Suc 9) = [4, 5, 6, 7, 8, 9]" by code_simp
  then show ?thesis using scan_covers_range [OF h(1) _ h(2), of 3 "\<lambda>x. if x < 0 then None else Some x" 4 9] by simp
qed

subsection \<open>Timestamps\<close>

definition usable :: "(nat \<Rightarrow> int option) \<Rightarrow> nat \<Rightarrow> int option" where
  "usable getBlock i = (case getBlock i of None \<Rightarrow> None | Some ts \<Rightarrow> if ts > 0 then Some ts else None)"

lemma timestamp_loop_usable:
  "timestamp_loop getBlock attempts i =
     (if i \<ge> attempts then (0, [])
      else case usable getBlock i of
        Some ts \<Rightarrow> (ts, [])
      | None \<Rightarrow> (fst (timestamp_loop getBlock attempts (Suc i)),
                  (if i < attempts - 1 then [250 * (i + 1)] else []) @ snd (timestamp_loop getBlock attempts (Suc i))))"
  by (subst timestamp_loop.simps) (auto simp: usable_def split: option.splits prod.splits)

lemma timestamp_loop_exact:
  assumes "i \<le> attempts"
  shows "(case List.find (\<lambda>j. usable getBlock j \<noteq> None) [i..<attempts] of
      None \<Rightarrow> timestamp_loop getBlock attempts i = (0, map (\<lambda>j. 250 * (j + 1)) [i..<attempts - 1])
    | Some k \<Rightarrow> timestamp_loop getBlock attempts i = (the (usable getBlock k), map (\<lambda>j. 250 * (j + 1)) [i..<k]))"
  using assms
proof (induction getBlock attempts i rule: timestamp_loop.induct)
  case (1 getBlock attempts i)
  show ?case
  proof (cases "i < attempts")
    case False
    then show ?thesis using 1(3) by (subst (1 2) timestamp_loop_usable) simp
  next
    case True
    have cons: "[i..<attempts] = i # [Suc i..<attempts]" using True by (rule upt_conv_Cons)
    show ?thesis
    proof (cases "usable getBlock i")
      case (Some ts)
      then show ?thesis using True cons by (subst (1 2) timestamp_loop_usable) simp
    next
      case None
      have IH: "(case List.find (\<lambda>j. usable getBlock j \<noteq> None) [Suc i..<attempts] of
          None \<Rightarrow> timestamp_loop getBlock attempts (Suc i) = (0, map (\<lambda>j. 250 * (j + 1)) [Suc i..<attempts - 1])
        | Some k \<Rightarrow> timestamp_loop getBlock attempts (Suc i) = (the (usable getBlock k), map (\<lambda>j. 250 * (j + 1)) [Suc i..<k]))"
      proof (cases "getBlock i")
        case None
        have "Suc i \<le> attempts" "\<not> attempts \<le> i" using True by auto
        then show ?thesis using 1(1) None by blast
      next
        case (Some ts)
        then have "\<not> ts > 0" using \<open>usable getBlock i = None\<close> by (auto simp: usable_def split: if_splits)
        moreover have "Suc i \<le> attempts" "\<not> attempts \<le> i" using True by auto
        ultimately show ?thesis using 1(2) Some by blast
      qed
      show ?thesis
      proof (cases "List.find (\<lambda>j. usable getBlock j \<noteq> None) [Suc i..<attempts]")
        case None
        then show ?thesis using IH True cons \<open>usable getBlock i = None\<close> upt_conv_Cons [of i "attempts - 1"]
          by (subst (1 2) timestamp_loop_usable) auto
      next
        case (Some k)
        then have "Suc i \<le> k" "k < attempts" by (auto simp: find_Some_iff)
        then show ?thesis using IH True cons Some \<open>usable getBlock i = None\<close> upt_conv_Cons [of i k]
          by (subst (1 2) timestamp_loop_usable) auto
      qed
    qed
  qed
qed

lemma timestamp_loop_nonneg: "0 \<le> fst (timestamp_loop getBlock attempts i)"
  by (induction getBlock attempts i rule: timestamp_loop.induct)
    (subst timestamp_loop.simps, auto split: option.splits prod.splits)

text \<open>
  C34: The timestamp policy is bounded and never invents a time. The result is the first positive
  answer, after exactly one sleep per failed attempt before it, or zero when all the attempts failed,
  after one sleep between attempts; the sleeps grow linearly and last at most \<open>125 * attempts *
  (attempts - 1)\<close> milliseconds in all.
\<close>
theorem timestamp_policy:
  "Let (fetchBlockTimestamp getBlock attempts) (\<lambda>(ts, sleeps).
     (case List.find (\<lambda>j. usable getBlock j \<noteq> None) [0..<attempts] of
        None \<Rightarrow> ts = 0 \<and> sleeps = map (\<lambda>j. 250 * (j + 1)) [0..<attempts - 1]
      | Some k \<Rightarrow> Some ts = usable getBlock k \<and> ts > 0 \<and> sleeps = map (\<lambda>j. 250 * (j + 1)) [0..<k]) \<and>
     sum_list sleeps \<le> 125 * attempts * (attempts - 1))"
proof -
  have sum: "sum_list (map (\<lambda>j. 250 * (j + 1)) [0..<m]) = 125 * m * (m + 1)" for m :: nat
    by (induction m) (simp_all add: algebra_simps)
  have mono: "125 * m * (m + 1) \<le> 125 * attempts * (attempts - 1)" if "m < attempts" for m
  proof -
    have "m * (m + 1) \<le> (attempts - 1) * attempts" using that by (intro mult_le_mono) auto
    then show ?thesis by (simp add: algebra_simps)
  qed
  note L = timestamp_loop_exact [of 0 attempts getBlock]
  show ?thesis
  proof (cases "List.find (\<lambda>j. usable getBlock j \<noteq> None) [0..<attempts]")
    case None
    then have "fetchBlockTimestamp getBlock attempts = (0, map (\<lambda>j. 250 * (j + 1)) [0..<attempts - 1])"
      using L by (simp add: fetchBlockTimestamp_def)
    then show ?thesis using None sum [of "attempts - 1"] mono [of "attempts - 1"] by (cases attempts) (simp_all del: upt_Suc)
  next
    case (Some k)
    then have k: "k < attempts" "usable getBlock k \<noteq> None" by (auto simp: find_Some_iff)
    then obtain ts where ts: "usable getBlock k = Some ts" "ts > 0" by (auto simp: usable_def split: option.splits if_splits)
    have "fetchBlockTimestamp getBlock attempts = (ts, map (\<lambda>j. 250 * (j + 1)) [0..<k])"
      using L Some ts(1) by (simp add: fetchBlockTimestamp_def)
    then show ?thesis using Some ts sum [of k] mono [OF k(1)] by simp
  qed
qed

text \<open>A delivered range carries no zero timestamp.\<close>

lemma stamped_positive: "stamp_logs S ls = Inr ls' \<Longrightarrow> list_all (\<lambda>l. pl_blockTimestamp l > 0) ls'"
proof (induction ls arbitrary: ls')
  case (Cons l ls)
  have "block_time S (pl_blockNumber l) \<ge> 0"
    unfolding block_time_def fetchBlockTimestamp_def by (rule timestamp_loop_nonneg)
  then show ?case using Cons by (auto simp: Let_def split: if_splits sum.splits)
qed simp

end
