(* ===== verification/Poll_Loop.thy ===== *)
theory Poll_Loop
  imports Log_Scan
begin

text \<open>
  One ingest pass with its persist, the boot from the database (both in \<open>apps/indexer/src/ingest.ts\<close>),
  the poll bookkeeping of \<open>apps/indexer/src/host.ts\<close> and the boot guards of \<open>apps/indexer/src/chain.ts\<close>.

  \<open>headAt\<close> is the contract's root and next leaf index at a block, \<open>None\<close> when the request fails. The
  name registry, which writes through on its own, takes no part.
\<close>

subsection \<open>The participants\<close>

record evm_db =
  ed_store :: store_db
  ed_ledger :: ledger_db
  ed_portal :: "portal_record list"
  ed_modules :: "(string \<times> bool) list"
  ed_kem :: kem_db

definition store_part :: "(indexer, evm_db) participant" where
  "store_part =
     (\<lambda>w db. case store_flushInto (ix_store w) (ix_mirror w) (ed_store db) of
               Inl e \<Rightarrow> Inl e | Inr s \<Rightarrow> Inr (db\<lparr>ed_store := s\<rparr>),
      \<lambda>w. case store_commitFlush (ix_store w, ix_mirror w) of (s, m) \<Rightarrow> w\<lparr>ix_store := s, ix_mirror := m\<rparr>)"

definition ledger_part :: "(indexer, evm_db) participant" where
  "ledger_part =
     (\<lambda>w db. Inr (case ix_ledger w of None \<Rightarrow> db | Some l \<Rightarrow> db\<lparr>ed_ledger := ledger_flushInto l (ed_ledger db)\<rparr>),
      \<lambda>w. w\<lparr>ix_ledger := map_option ledger_commitFlush (ix_ledger w)\<rparr>)"

definition portal_part :: "(indexer, evm_db) participant" where
  "portal_part = (\<lambda>w db. Inr (db\<lparr>ed_portal := portal_flushInto (ix_portal w) (ed_portal db)\<rparr>),
     \<lambda>w. w\<lparr>ix_portal := portal_commitFlush (ix_portal w)\<rparr>)"

definition modules_part :: "(indexer, evm_db) participant" where
  "modules_part = (\<lambda>w db. Inr (db\<lparr>ed_modules := modules_flushInto (ix_modules w) (ed_modules db)\<rparr>),
     \<lambda>w. w\<lparr>ix_modules := modules_commitFlush (ix_modules w)\<rparr>)"

definition kem_part :: "(indexer, evm_db) participant" where
  "kem_part = (\<lambda>w db. Inr (db\<lparr>ed_kem := kem_flushInto (ix_kem w) (ed_kem db)\<rparr>),
     \<lambda>w. w\<lparr>ix_kem := kem_commitFlush (ix_kem w)\<rparr>)"

definition cursor_part :: "int \<Rightarrow> (indexer, evm_db) participant" where
  "cursor_part target =
     (\<lambda>w db. case cursor_flushInto target (ed_store db) of Inl e \<Rightarrow> Inl e | Inr s \<Rightarrow> Inr (db\<lparr>ed_store := s\<rparr>),
      \<lambda>w. w\<lparr>ix_store := cursor_commitFlush target (ix_store w)\<rparr>)"

definition evm_participants :: "indexer \<Rightarrow> int \<Rightarrow> (indexer, evm_db) participant list" where
  "evm_participants w target =
     [store_part] @ (if ix_ledger w \<noteq> None then [ledger_part] else []) @
     [portal_part, modules_part, kem_part, cursor_part target]"

subsection \<open>One pass\<close>

datatype pass_error =
    ScanFailed scan_error | LogsThrew ingest_error | HeadUnavailable | RootDiverged | IndexDiverged | PersistFailed db_error

definition ingest_pass ::
  "ingest_env \<Rightarrow> scan_env \<Rightarrow> (nat \<Rightarrow> (int \<times> nat) option) \<Rightarrow> bool \<Rightarrow> nat \<Rightarrow> nat \<Rightarrow> indexer \<times> evm_db \<Rightarrow>
     (indexer \<times> evm_db) \<times> pass_error option" where
  "ingest_pass E S headAt commits from_block head wd =
     (if from_block > head then (wd, None)
      else case getLogsChunked E S (fst wd) from_block head of
        Inl e \<Rightarrow> (wd, Some (ScanFailed e))
      | Inr logs \<Rightarrow>
          (case applyLogs E (fst wd) logs of
             (w1, Some e) \<Rightarrow> ((w1, snd wd), Some (LogsThrew e))
           | (w1, None) \<Rightarrow>
               (case headAt head of
                  None \<Rightarrow> ((w1, snd wd), Some HeadUnavailable)
                | Some (root, next) \<Rightarrow>
                    if mroot (ix_mirror w1) \<noteq> root then ((w1, snd wd), Some RootDiverged)
                    else if mnext (ix_mirror w1) \<noteq> next then ((w1, snd wd), Some IndexDiverged)
                    else (case persistAtomically (evm_participants w1 (int head)) commits (w1, snd wd) of
                            (wd2, e) \<Rightarrow> (wd2, map_option PersistFailed e)))))"

subsection \<open>The poll\<close>

record health =
  lastError :: "pass_error option"
  consecutiveFailures :: nat
  lastSuccessAt :: "nat option"
  lastErrorAt :: "nat option"
  transientHeadRaces :: nat
  lastTransientAt :: "nat option"
  polling :: bool

text \<open>The two ends of \<open>pollOnce\<close>; \<open>transient\<close> recognises the error texts of a replica head race.\<close>

definition poll_begin :: "health \<Rightarrow> health \<times> bool" where
  "poll_begin hs = (if polling hs then (hs, False) else (hs\<lparr>polling := True\<rparr>, True))"

definition poll_end :: "(pass_error \<Rightarrow> bool) \<Rightarrow> nat \<Rightarrow> pass_error option \<Rightarrow> health \<Rightarrow> health" where
  "poll_end transient now r hs =
     (case r of
        None \<Rightarrow> hs\<lparr>consecutiveFailures := 0, lastSuccessAt := Some now, polling := False\<rparr>
      | Some e \<Rightarrow>
          if transient e
          then hs\<lparr>transientHeadRaces := transientHeadRaces hs + 1, lastTransientAt := Some now, polling := False\<rparr>
          else hs\<lparr>consecutiveFailures := consecutiveFailures hs + 1, lastError := Some e, lastErrorAt := Some now,
                  polling := False\<rparr>)"

definition next_from :: "indexer \<Rightarrow> nat" where
  "next_from w = nat (lastBlock (ps_mem (ix_store w)) + 1)"

definition pollOnce ::
  "(pass_error \<Rightarrow> bool) \<Rightarrow> nat \<Rightarrow> (nat \<Rightarrow> indexer \<times> evm_db \<Rightarrow> (indexer \<times> evm_db) \<times> pass_error option) \<Rightarrow>
     health \<times> indexer \<times> evm_db \<Rightarrow> health \<times> indexer \<times> evm_db" where
  "pollOnce transient now ingest hwd =
     (case poll_begin (fst hwd) of
        (hs, False) \<Rightarrow> hwd
      | (hs, True) \<Rightarrow>
          (case ingest (next_from (fst (snd hwd))) (snd hwd) of
             (wd, r) \<Rightarrow> (poll_end transient now r hs, wd)))"

subsection \<open>Boot\<close>

datatype boot_error =
    TreeArity imt_error | RowsThrew mirror_error | PortalThrew portal_error | ChunkThrew kem_error
  | CursorUnavailable | BootRootDiverged | BootIndexDiverged

text \<open>\<open>refetchKemChunkData\<close>: \<open>fetch\<close> answers the bytes of a direct submission, and \<open>None\<close> otherwise.\<close>

fun refetch ::
  "(string \<Rightarrow> string) \<Rightarrow> (string \<Rightarrow> string option) \<Rightarrow> kem_store \<Rightarrow> (nat \<times> nat \<times> string option) list \<Rightarrow> kem_store \<times> kem_error option" where
  "refetch keccak fetch k [] = (k, None)"
| "refetch keccak fetch k ((batchId, j, tx) # cs) =
     (case (case tx of None \<Rightarrow> None | Some t \<Rightarrow> fetch t) of
        None \<Rightarrow> refetch keccak fetch k cs
      | Some d \<Rightarrow>
          (case attachChunkData keccak k batchId j d of
             (k1, None) \<Rightarrow> refetch keccak fetch k1 cs
           | (k1, Some e) \<Rightarrow> (k1, Some e)))"

definition refill_entry :: "feed_entry \<Rightarrow> mirror \<Rightarrow> mirror" where
  "refill_entry e m =
     (if fe_kind e = KDisbursePriv \<and> map_option dr_status (fe_disclosure e) = Some Verified
      then (case (fe_batchId e, fe_outputCommitments e) of
              (Some b, Some cs) \<Rightarrow> fillBatch m b cs Public | _ \<Rightarrow> m)
      else m)"

definition bootPostgres ::
  "ingest_env \<Rightarrow> bool \<Rightarrow> (string \<Rightarrow> string option) \<Rightarrow> (nat \<Rightarrow> (int \<times> nat) option) \<Rightarrow> nat \<Rightarrow> evm_db \<Rightarrow> boot_error + indexer \<times> nat" where
  "bootPostgres E arbiterMode fetch headAt from_block db =
     (case new_mirror (le_h E) H_TREE (le_B E) of
        Inl e \<Rightarrow> Inl (TreeArity e)
      | Inr m0 \<Rightarrow>
     (case store_boot (le_h E) m0 (ed_store db) of
        (_, _, Some e) \<Rightarrow> Inl (RowsThrew e)
      | (st, m1, None) \<Rightarrow>
     (case (if arbiterMode then (case ledger_boot (le_B E) m1 (ed_ledger db) of (l, m) \<Rightarrow> (Some l, m)) else (None, m1)) of
        (ld, m2) \<Rightarrow>
     (case portal_boot (ed_portal db) of
        (_, Some e) \<Rightarrow> Inl (PortalThrew e)
      | (po, None) \<Rightarrow>
     (let mo = modules_boot (ed_modules db); k0 = kem_boot (ed_kem db) in
      case refetch (ie_keccak E) fetch k0 (unassembledAccepted k0) of
        (_, Some e) \<Rightarrow> Inl (ChunkThrew e)
      | (k1, None) \<Rightarrow>
     (let m3 = fold refill_entry (feed (ps_mem st)) m2;
          w = \<lparr>ix_mirror = m3, ix_store = st, ix_ledger = ld, ix_modules = mo, ix_kem = k1, ix_portal = po, console = []\<rparr>;
          cursor = lastBlock (ps_mem st)
      in case (if cursor \<ge> 0
               then (case headAt (nat cursor) of
                       None \<Rightarrow> Some CursorUnavailable
                     | Some (root, next) \<Rightarrow>
                         if mroot m3 \<noteq> root then Some BootRootDiverged
                         else if mnext m3 \<noteq> next then Some BootIndexDiverged else None)
               else None) of
           Some e \<Rightarrow> Inl e
         | None \<Rightarrow> Inr (w, if cursor \<ge> int from_block then nat cursor + 1 else from_block)))))))"

subsection \<open>Boot guards\<close>

datatype guard_error = AbiWithoutKem | NoDecapsulationKey | KeyMismatch

definition kemBootGuardError :: "string \<Rightarrow> bool \<Rightarrow> bool \<Rightarrow> bool \<Rightarrow> string option \<Rightarrow> guard_error option" where
  "kemBootGuardError kemPkHash arbiterMode hasKemKey abiKnowsKem kemKeyPkHash =
     (if toLowerCase kemPkHash = ''0x'' @ replicate 64 (CHR ''0'') then None
      else if \<not> abiKnowsKem then Some AbiWithoutKem
      else if arbiterMode \<and> \<not> hasKemKey then Some NoDecapsulationKey
      else if arbiterMode \<and> (case kemKeyPkHash of None \<Rightarrow> False | Some k \<Rightarrow> toLowerCase k \<noteq> toLowerCase kemPkHash)
      then Some KeyMismatch
      else None)"

text \<open>\<open>databaseUrlError\<close>: an unset or an empty variable is refused.\<close>

definition databaseUrlError :: "string option \<Rightarrow> bool" where
  "databaseUrlError url \<longleftrightarrow> (url = None \<or> url = Some '''')"

end
