(* ===== verification/Poll_Correct.thy ===== *)
theory Poll_Correct
  imports Poll_Loop Ingest_Safety
begin

text \<open>
  What the poll loop promises: the persist is all or nothing, and the cursor, in memory and in the
  database, only ever names a block at which the mirror equals the contract.
\<close>

subsection \<open>The transaction\<close>

text \<open>The contract of \<open>persistAtomically\<close>, for any participants.\<close>

lemma persist_all_or_nothing:
  "persistAtomically ps commits (w, db) = (wd, e) \<Longrightarrow>
     (e \<noteq> None \<longrightarrow> wd = (w, db)) \<and> (e = None \<longrightarrow> commits \<and> flush_all ps w db = Inr (snd wd) \<and> fst wd = fold snd ps w)"
  by (auto simp: persistAtomically_def split: sum.splits if_splits)

lemma flush_all_append:
  "flush_all (ps @ qs) w db = (case flush_all ps w db of Inl e \<Rightarrow> Inl e | Inr db' \<Rightarrow> flush_all qs w db')"
  by (induction ps arbitrary: db) (auto split: sum.splits)

lemma flush_cursor_last:
  "flush_all (ps @ [cursor_part target]) w db = Inr db' \<Longrightarrow> sd_cursor (ed_store db') = Some target"
  by (auto simp: flush_all_append cursor_part_def cursor_flushInto_def persistCursorInto_def split: sum.splits if_splits)

lemma participants_shape: "\<exists>ps. evm_participants w t = ps @ [cursor_part t] \<and> set ps \<subseteq> {store_part, ledger_part, portal_part, modules_part, kem_part}"
  by (auto simp: evm_participants_def)

text \<open>The commits only drop buffers; the last one advances the cursor.\<close>

definition served :: "indexer \<Rightarrow> imt \<times> feed_entry list" where
  "served w = (tree (ix_mirror w), entries w)"

lemma commit_served:
  "p \<in> {store_part, ledger_part, portal_part, modules_part, kem_part, cursor_part t} \<Longrightarrow> served (snd p w) = served w"
  by (auto simp: served_def entries_def store_part_def ledger_part_def portal_part_def modules_part_def kem_part_def
    cursor_part_def cursor_commitFlush_def store_commitFlush_def clearPendingLeaves_def)

lemma commits_served: "set ps \<subseteq> {store_part, ledger_part, portal_part, modules_part, kem_part, cursor_part t} \<Longrightarrow> served (fold snd ps w) = served w"
proof (induction ps arbitrary: w)
  case (Cons p ps)
  then have "served (snd p w) = served w" by (intro commit_served [of p t]) simp
  then show ?case using Cons by simp
qed simp

definition cursor_at :: "indexer \<Rightarrow> int" where
  "cursor_at w = lastBlock (ps_mem (ix_store w))"

lemma commits_cursor: "cursor_at (fold snd (ps @ [cursor_part t]) w) = t"
  by (simp add: cursor_at_def cursor_part_def cursor_commitFlush_def)

subsection \<open>A pass\<close>

text \<open>The cursors tell the truth: where the database has one, it is the one in memory.\<close>

definition cursors_agree :: "indexer \<times> evm_db \<Rightarrow> bool" where
  "cursors_agree wd \<longleftrightarrow> cursor_at (fst wd) = (case sd_cursor (ed_store (snd wd)) of None \<Rightarrow> -1 | Some b \<Rightarrow> b)"

text \<open>
  C4: The cursor never gets ahead of a verified mirror. Whatever the provider answers and wherever
  the pass throws, either the pass reports an error, and then neither the database nor the cursor in
  memory changed, so that the next poll scans the same range again; or it reports none, and then, if
  there was anything to scan, both cursors name the scanned head and the contract's root and next
  leaf index at that block are those of the mirror.
\<close>
theorem cursor_names_verified_block:
  assumes "ingest_pass E S headAt commits from_block head (w, db) = ((w', db'), e)"
  shows "(e \<noteq> None \<longrightarrow> db' = db \<and> cursor_at w' = cursor_at w) \<and>
    (e = None \<longrightarrow> from_block > head \<and> (w', db') = (w, db) \<or>
       sd_cursor (ed_store db') = Some (int head) \<and> cursor_at w' = int head \<and>
       headAt head = Some (mroot (ix_mirror w'), mnext (ix_mirror w')))"
proof (cases "from_block > head")
  case True
  then show ?thesis using assms by (auto simp: ingest_pass_def)
next
  case False
  show ?thesis
  proof (cases "getLogsChunked E S w from_block head")
    case (Inl x)
    then show ?thesis using assms False by (auto simp: ingest_pass_def)
  next
    case (Inr logs)
    obtain w1 e1 where a: "applyLogs E w logs = (w1, e1)" by fastforce
    have c: "cursor_at w1 = cursor_at w" using applyLogs_cursor [of E w logs] a by (simp add: cursor_at_def)
    show ?thesis
    proof (cases "e1 = None \<and> headAt head = Some (mroot (ix_mirror w1), mnext (ix_mirror w1))")
      case False
      then have "w' = w1 \<and> db' = db \<and> e \<noteq> None"
        using assms Inr a \<open>\<not> from_block > head\<close>
        by (cases e1; cases "headAt head") (auto simp: ingest_pass_def split: if_splits prod.splits)
      then show ?thesis using c by auto
    next
      case True
      obtain ps where ps: "evm_participants w1 (int head) = ps @ [cursor_part (int head)]"
        "set ps \<subseteq> {store_part, ledger_part, portal_part, modules_part, kem_part}" using participants_shape by blast
      obtain wd2 x where p: "persistAtomically (evm_participants w1 (int head)) commits (w1, db) = (wd2, x)" by fastforce
      have e: "(w', db') = wd2" "e = map_option PersistFailed x"
        using assms Inr a True \<open>\<not> from_block > head\<close> p by (auto simp: ingest_pass_def)
      note t = persist_all_or_nothing [OF p]
      show ?thesis
      proof (cases x)
        case (Some y)
        then show ?thesis using t e c by auto
      next
        case None
        then have f: "flush_all (ps @ [cursor_part (int head)]) w1 db = Inr db'" "w' = fold snd (ps @ [cursor_part (int head)]) w1"
          using t e(1) ps(1) by auto
        have "served w' = served w1" unfolding f(2) by (rule commits_served [of _ "int head"]) (use ps(2) in auto)
        then have "headAt head = Some (mroot (ix_mirror w'), mnext (ix_mirror w'))" using True by (simp add: served_def)
        moreover have "cursor_at w' = int head" unfolding f(2) by (rule commits_cursor)
        ultimately show ?thesis using flush_cursor_last [OF f(1)] e(2) None by simp
      qed
    qed
  qed
qed

text \<open>A pass over three blocks' logs, with a provider that answers at once.\<close>

definition demo_scan :: scan_env where
  "demo_scan = \<lparr>se_rpc = (\<lambda>addrs n lo hi. Some (map Some demo_raw)), se_chunk = 10, se_txData = (\<lambda>tx. Some None), se_block = (\<lambda>b i. Some 9)\<rparr>"

definition demo_db :: evm_db where
  "demo_db = \<lparr>ed_store = \<lparr>sd_events = [], sd_nullifiers = [], sd_leaves = [], sd_cursor = None\<rparr>,
     ed_ledger = \<lparr>ld_notes = [], ld_history = [], ld_alarms = [], ld_applied = []\<rparr>, ed_portal = [], ed_modules = [],
     ed_kem = empty_db\<rparr>"

definition demo_head :: "nat \<Rightarrow> (int \<times> nat) option" where
  "demo_head b = (let t = demo_next (demo_next (tree demo_mirror) 5) 6 in Some (tree_root t, 2))"

lemma demo_pass_clean: "snd (ingest_pass demo_env demo_scan demo_head True 3 3 (demo_indexer None, demo_db)) = None"
  by code_simp

theorem cursor_names_verified_block_witness:
  "Let (fst (ingest_pass demo_env demo_scan demo_head True 3 3 (demo_indexer None, demo_db))) (\<lambda>(w, db).
     sd_cursor (ed_store db) = Some 3 \<and> cursor_at w = 3 \<and> demo_head 3 = Some (mroot (ix_mirror w), mnext (ix_mirror w)))"
proof -
  obtain w db where p: "ingest_pass demo_env demo_scan demo_head True 3 3 (demo_indexer None, demo_db) = ((w, db), None)"
    using demo_pass_clean by (metis prod.collapse)
  show ?thesis using cursor_names_verified_block [OF p] p by (simp add: Let_def)
qed

end
