(* ===== verification/Spend_Build.thy ===== *)
theory Spend_Build
  imports Spend_Plan Envelope Pubkey Imt
begin

text \<open>
  The proving requests of the enterprise family: \<open>packages/client/src/ops/spend/assemble.ts\<close> (the input
  side every spending circuit shares), \<open>ops/spend/builders.ts\<close> (transfer, transfer10x2, the deprecated
  transfer10, withdraw), \<open>ops/spend/crypto.ts\<close> (the per-transaction draws) and the deposit builder of
  \<open>ops/deposit.ts\<close>.

  Field elements are the integers their decimal strings denote, so \<open>toWire\<close> is the identity here; a
  note's salt, an amount and a recipient stay strings and are read by \<open>BigInt\<close>. The parallel arrays of
  \<open>AssembledInputs\<close> are one list of slots. The caller's random source is a function of the world that
  draws from it.
\<close>

subsection \<open>Data\<close>

record membership =
  mb_root :: int
  mb_pathElements :: "int list"
  mb_leafIndex :: nat

record wallet_identity =
  wi_keypair :: keypair
  wi_compressedPubkey :: string

record spend_crypto =
  sc_ecdhPrivateKey :: int
  sc_encryptionNonce :: int
  sc_authorityPubKey :: point
  sc_kemSs :: "int \<times> int"
  sc_kemCiphertext :: string
  sc_changeSalt :: int
  sc_padSalts :: "int list"
  sc_payeeSalt :: "int option"
  sc_outputPadSalts :: "int list"

record input_slot =
  slot_nullifier :: int
  slot_commitment :: int
  slot_value :: int
  slot_salt :: int
  slot_enabled :: int
  slot_path :: "int list"
  slot_leaf :: nat

record assembled_inputs =
  as_slots :: "input_slot list"
  as_root :: int
  as_inputTotal :: int
  as_membershipOk :: bool

datatype request_error =
    BadInputCount | WitnessPerInput | FewPadSalts | RootsDiffer | BadPathLength | BadNumber | NegativeInput nat
  | NoPayeeSalt | BadPayee addr_error | AmountNotPositive | AmountExceeds | FewOutputPads | BadRecipient

definition MAX_INPUT_PADS :: nat where
  "MAX_INPUT_PADS = TRANSFER10_ARITY - 1"

definition MAX_OUTPUT_PADS :: nat where
  "MAX_OUTPUT_PADS = TRANSFER10_ARITY - 2"

text \<open>A loop whose body may throw, collecting its results.\<close>

fun traverse :: "('a \<Rightarrow> 'e + 'b) \<Rightarrow> 'a list \<Rightarrow> 'e + 'b list" where
  "traverse f [] = Inr []"
| "traverse f (x # xs) =
     (case f x of
        Inl e \<Rightarrow> Inl e
      | Inr y \<Rightarrow> (case traverse f xs of Inl e \<Rightarrow> Inl e | Inr ys \<Rightarrow> Inr (y # ys)))"

subsection \<open>Fresh material\<close>

text \<open>\<open>randField\<close>, from the 31 bytes the platform draws.\<close>

definition randField :: "bytes \<Rightarrow> int" where
  "randField b = (let x = fold (\<lambda>byte acc. push_bit 8 acc + uint byte) b 0 in if x = 0 then 1 else x)"

definition toEncryptionNonce :: "int \<Rightarrow> int" where
  "toEncryptionNonce draw = take_bit 128 draw"

fun draw_list :: "nat \<Rightarrow> ('w \<Rightarrow> 'w \<times> int) \<Rightarrow> 'w \<Rightarrow> 'w \<times> int list" where
  "draw_list 0 rand w = (w, [])"
| "draw_list (Suc n) rand w =
     (let (w1, x) = rand w; (w2, xs) = draw_list n rand w1 in (w2, x # xs))"

text \<open>
  \<open>freshSpendCrypto\<close>; \<open>drawKem\<close> is the encapsulation against the arbiter's key, with the shared secret
  as two limbs.
\<close>

definition freshSpendCrypto ::
  "point \<Rightarrow> ('w \<Rightarrow> 'w \<times> int) \<Rightarrow> ('w \<Rightarrow> 'w \<times> (int \<times> int) \<times> string) \<Rightarrow> 'w \<Rightarrow> 'w \<times> spend_crypto" where
  "freshSpendCrypto arbiter rand drawKem w =
     (let (w1, ss, ct) = drawKem w;
          (w2, ecdh) = rand w1;
          (w3, nonce) = rand w2;
          (w4, change) = rand w3;
          (w5, pads) = draw_list MAX_INPUT_PADS rand w4;
          (w6, payee) = rand w5;
          (w7, outPads) = draw_list MAX_OUTPUT_PADS rand w6
      in (w7, \<lparr>sc_ecdhPrivateKey = ecdh, sc_encryptionNonce = toEncryptionNonce nonce, sc_authorityPubKey = arbiter,
               sc_kemSs = ss, sc_kemCiphertext = ct, sc_changeSalt = change, sc_padSalts = pads,
               sc_payeeSalt = Some payee, sc_outputPadSalts = outPads\<rparr>))"

subsection \<open>The input side\<close>

fun check_memberships :: "int \<Rightarrow> membership list \<Rightarrow> request_error option" where
  "check_memberships root [] = None"
| "check_memberships root (m # ms) =
     (if mb_root m \<noteq> root then Some RootsDiffer
      else if length (mb_pathElements m) \<noteq> H_TREE then Some BadPathLength
      else check_memberships root ms)"

text \<open>One real input, with its number for the message.\<close>

definition real_slot :: "hashN \<Rightarrow> keypair \<Rightarrow> nat \<times> input_note \<times> membership \<Rightarrow> request_error + input_slot" where
  "real_slot hN self x =
     (case x of (i, note, m) \<Rightarrow>
        (case js_BigInt (in_salt note) of
           None \<Rightarrow> Inl BadNumber
         | Some s \<Rightarrow>
             if in_value note < 0 then Inl (NegativeInput (i + 1))
             else Inr \<lparr>slot_nullifier = nullifier hN (in_value note) s (formattedPrivateKey self),
                       slot_commitment = commitment hN (in_value note) s (publicKey self),
                       slot_value = in_value note, slot_salt = s, slot_enabled = 1,
                       slot_path = mb_pathElements m, slot_leaf = mb_leafIndex m\<rparr>))"

definition pad_slot :: "hashN \<Rightarrow> keypair \<Rightarrow> int \<Rightarrow> input_slot" where
  "pad_slot hN self s =
     \<lparr>slot_nullifier = 0, slot_commitment = commitment hN 0 s (publicKey self), slot_value = 0, slot_salt = s,
      slot_enabled = 0, slot_path = replicate H_TREE 0, slot_leaf = 0\<rparr>"

definition path_ok :: "hash2 \<Rightarrow> int \<Rightarrow> input_slot \<Rightarrow> bool" where
  "path_ok h root sl \<longleftrightarrow> foldToRoot h (slot_commitment sl) (slot_path sl) (slot_leaf sl) = root"

definition assembleInputs ::
  "hash2 \<Rightarrow> hashN \<Rightarrow> keypair \<Rightarrow> input_note list \<Rightarrow> membership list \<Rightarrow> int list \<Rightarrow> nat \<Rightarrow> request_error + assembled_inputs" where
  "assembleInputs h hN self inputs memberships padSalts arity =
     (if length inputs < 1 \<or> length inputs > arity then Inl BadInputCount
      else if length memberships \<noteq> length inputs then Inl WitnessPerInput
      else let padCount = arity - length inputs in
      if length padSalts < padCount then Inl FewPadSalts
      else let root = mb_root (memberships ! 0) in
      case check_memberships root memberships of
        Some e \<Rightarrow> Inl e
      | None \<Rightarrow>
          (case traverse (real_slot hN self) (zip [0..<length inputs] (zip inputs memberships)) of
             Inl e \<Rightarrow> Inl e
           | Inr slots \<Rightarrow>
               Inr \<lparr>as_slots = slots @ map (pad_slot hN self) (take padCount padSalts), as_root = root,
                    as_inputTotal = sum_list (map slot_value slots),
                    as_membershipOk = list_all (path_ok h root) slots\<rparr>))"

subsection \<open>Requests\<close>

record output_side =
  out_commitments :: "int list"
  out_values :: "int list"
  out_salts :: "int list"
  out_owners :: "point list"
  out_kemSs :: "int \<times> int"
  out_ecdhPrivateKey :: int
  out_encryptionNonce :: int
  out_authorityPublicKey :: point

record spend_input = output_side +
  si_nullifiers :: "int list"
  si_inputCommitments :: "int list"
  si_inputValues :: "int list"
  si_inputSalts :: "int list"
  si_inputOwnerPrivateKey :: int
  si_root :: int
  si_pathElements :: "int list list"
  si_leafIndices :: "nat list"
  si_enabled :: "int list"

datatype proving_request =
    DepositRequest output_side
  | TransferRequest spend_input
  | Transfer10Request spend_input
  | Transfer10x2Request spend_input
  | WithdrawRequest spend_input int

record spend_meta =
  sm_inputCommitments :: "int list"
  sm_nullifiers :: "int list"
  sm_enabled :: "int list"
  sm_realInputCount :: nat
  sm_inputTotal :: int
  sm_amount :: int
  sm_changeValue :: int
  sm_membershipOk :: bool
  sm_outputCommitments :: "int list"
  sm_outputValues :: "int list"

definition spendMeta :: "assembled_inputs \<Rightarrow> int \<Rightarrow> int \<Rightarrow> int list \<Rightarrow> int list \<Rightarrow> spend_meta" where
  "spendMeta ins amount changeValue outputCommitments outputValues =
     \<lparr>sm_inputCommitments = map slot_commitment (as_slots ins), sm_nullifiers = map slot_nullifier (as_slots ins),
      sm_enabled = map slot_enabled (as_slots ins),
      sm_realInputCount = length (filter (\<lambda>e. e = 1) (map slot_enabled (as_slots ins))),
      sm_inputTotal = as_inputTotal ins, sm_amount = amount, sm_changeValue = changeValue,
      sm_membershipOk = as_membershipOk ins, sm_outputCommitments = outputCommitments, sm_outputValues = outputValues\<rparr>"

text \<open>The witness of a spend, from its input side and its outputs as (value, salt, owner).\<close>

definition commit_outputs :: "hashN \<Rightarrow> (int \<times> int \<times> point) list \<Rightarrow> int list" where
  "commit_outputs hN outs = map (\<lambda>(v, s, pk). commitment hN v s pk) outs"

definition witness_of :: "hashN \<Rightarrow> keypair \<Rightarrow> assembled_inputs \<Rightarrow> spend_crypto \<Rightarrow> (int \<times> int \<times> point) list \<Rightarrow> spend_input" where
  "witness_of hN self ins c outs =
     \<lparr>out_commitments = commit_outputs hN outs, out_values = map fst outs, out_salts = map (fst \<circ> snd) outs,
      out_owners = map (snd \<circ> snd) outs, out_kemSs = sc_kemSs c, out_ecdhPrivateKey = sc_ecdhPrivateKey c,
      out_encryptionNonce = sc_encryptionNonce c, out_authorityPublicKey = sc_authorityPubKey c,
      si_nullifiers = map slot_nullifier (as_slots ins), si_inputCommitments = map slot_commitment (as_slots ins),
      si_inputValues = map slot_value (as_slots ins), si_inputSalts = map slot_salt (as_slots ins),
      si_inputOwnerPrivateKey = formattedPrivateKey self, si_root = as_root ins,
      si_pathElements = map slot_path (as_slots ins), si_leafIndices = map slot_leaf (as_slots ins),
      si_enabled = map slot_enabled (as_slots ins)\<rparr>"

definition meta_of :: "hashN \<Rightarrow> assembled_inputs \<Rightarrow> int \<Rightarrow> int \<Rightarrow> (int \<times> int \<times> point) list \<Rightarrow> spend_meta" where
  "meta_of hN ins amount change outs = spendMeta ins amount change (commit_outputs hN outs) (map fst outs)"

definition parsePayee :: "string \<Rightarrow> request_error + point" where
  "parsePayee recipientCompressed =
     (case unpackPubkey (js_trim recipientCompressed) of Inl e \<Rightarrow> Inl (BadPayee e) | Inr pk \<Rightarrow> Inr pk)"

text \<open>The amount of a payment against the input total.\<close>

definition parse_amount :: "string \<Rightarrow> int \<Rightarrow> request_error + int" where
  "parse_amount amount inputTotal =
     (case js_BigInt amount of
        None \<Rightarrow> Inl BadNumber
      | Some v \<Rightarrow> if v \<le> 0 then Inl AmountNotPositive else if v > inputTotal then Inl AmountExceeds else Inr v)"

text \<open>The payment of the two-output transfers: payment first, change second.\<close>

definition two_output_spend ::
  "hash2 \<Rightarrow> hashN \<Rightarrow> keypair \<Rightarrow> input_note list \<Rightarrow> membership list \<Rightarrow> string \<Rightarrow> string \<Rightarrow> spend_crypto \<Rightarrow> nat \<Rightarrow>
     request_error + (spend_input \<times> spend_meta)" where
  "two_output_spend h hN self inputs memberships recipientCompressed amount c arity =
     (case sc_payeeSalt c of
        None \<Rightarrow> Inl NoPayeeSalt
      | Some payeeSalt \<Rightarrow>
     (case assembleInputs h hN self inputs memberships (sc_padSalts c) arity of
        Inl e \<Rightarrow> Inl e
      | Inr ins \<Rightarrow>
     (case parsePayee recipientCompressed of
        Inl e \<Rightarrow> Inl e
      | Inr payee \<Rightarrow>
     (case parse_amount amount (as_inputTotal ins) of
        Inl e \<Rightarrow> Inl e
      | Inr payVal \<Rightarrow>
          (let changeVal = as_inputTotal ins - payVal;
               outs = [(payVal, payeeSalt, payee), (changeVal, sc_changeSalt c, publicKey self)]
           in Inr (witness_of hN self ins c outs, meta_of hN ins payVal changeVal outs))))))"

definition tag_request ::
  "('a \<Rightarrow> proving_request) \<Rightarrow> request_error + ('a \<times> spend_meta) \<Rightarrow> request_error + (proving_request \<times> spend_meta)" where
  "tag_request f r = (case r of Inl e \<Rightarrow> Inl e | Inr (w, m) \<Rightarrow> Inr (f w, m))"

definition buildTransferRequest where
  "buildTransferRequest h hN identity inputs memberships to amount c =
     tag_request TransferRequest (two_output_spend h hN (wi_keypair identity) inputs memberships to amount c 2)"

definition buildTransfer10x2Request where
  "buildTransfer10x2Request h hN identity inputs memberships to amount c =
     tag_request Transfer10x2Request
       (two_output_spend h hN (wi_keypair identity) inputs memberships to amount c TRANSFER10_ARITY)"

definition buildTransfer10Request ::
  "hash2 \<Rightarrow> hashN \<Rightarrow> wallet_identity \<Rightarrow> input_note list \<Rightarrow> membership list \<Rightarrow> string \<Rightarrow> string \<Rightarrow> spend_crypto \<Rightarrow>
     request_error + (proving_request \<times> spend_meta)" where
  "buildTransfer10Request h hN identity inputs memberships to amount c =
     (let self = wi_keypair identity; padCount = TRANSFER10_ARITY - 2 in
      case sc_payeeSalt c of
        None \<Rightarrow> Inl NoPayeeSalt
      | Some payeeSalt \<Rightarrow>
     (case assembleInputs h hN self inputs memberships (sc_padSalts c) TRANSFER10_ARITY of
        Inl e \<Rightarrow> Inl e
      | Inr ins \<Rightarrow>
     (case parsePayee to of
        Inl e \<Rightarrow> Inl e
      | Inr payee \<Rightarrow>
     (case parse_amount amount (as_inputTotal ins) of
        Inl e \<Rightarrow> Inl e
      | Inr payVal \<Rightarrow>
          if length (sc_outputPadSalts c) < padCount then Inl FewOutputPads
          else (let changeVal = as_inputTotal ins - payVal;
                    outs = (payVal, payeeSalt, payee) # (changeVal, sc_changeSalt c, publicKey self) #
                           map (\<lambda>s. (0, s, publicKey self)) (take padCount (sc_outputPadSalts c))
                in Inr (Transfer10Request (witness_of hN self ins c outs), meta_of hN ins payVal changeVal outs))))))"

definition buildWithdrawRequest ::
  "hash2 \<Rightarrow> hashN \<Rightarrow> wallet_identity \<Rightarrow> input_note list \<Rightarrow> membership list \<Rightarrow> string \<Rightarrow> spend_crypto \<Rightarrow> string \<Rightarrow>
     request_error + (proving_request \<times> spend_meta)" where
  "buildWithdrawRequest h hN identity inputs memberships amount c recipient =
     (let self = wi_keypair identity in
      case js_BigInt recipient of
        None \<Rightarrow> Inl BadNumber
      | Some recipientBig \<Rightarrow>
          if recipientBig = 0 \<or> recipientBig > push_bit 160 1 - 1 then Inl BadRecipient
          else (case assembleInputs h hN self inputs memberships (sc_padSalts c) 2 of
             Inl e \<Rightarrow> Inl e
           | Inr ins \<Rightarrow>
          (case parse_amount amount (as_inputTotal ins) of
             Inl e \<Rightarrow> Inl e
           | Inr out \<Rightarrow>
               (let changeVal = as_inputTotal ins - out; outs = [(changeVal, sc_changeSalt c, publicKey self)]
                in Inr (WithdrawRequest (witness_of hN self ins c outs) recipientBig, meta_of hN ins out changeVal outs)))))"

subsection \<open>Deposits\<close>

record deposit_crypto =
  dc_ecdhPrivateKey :: int
  dc_encryptionNonce :: int
  dc_salt0 :: int
  dc_salt1 :: int
  dc_authorityPubKey :: point
  dc_kemSs :: "int \<times> int"
  dc_kemCiphertext :: string

definition freshDepositCrypto ::
  "point \<Rightarrow> ('w \<Rightarrow> 'w \<times> int) \<Rightarrow> ('w \<Rightarrow> 'w \<times> (int \<times> int) \<times> string) \<Rightarrow> 'w \<Rightarrow> 'w \<times> deposit_crypto" where
  "freshDepositCrypto arbiter rand drawKem w =
     (let (w1, ss, ct) = drawKem w; (w2, ecdh) = rand w1; (w3, nonce) = rand w2; (w4, s0) = rand w3; (w5, s1) = rand w4
      in (w5, \<lparr>dc_ecdhPrivateKey = ecdh, dc_encryptionNonce = toEncryptionNonce nonce, dc_salt0 = s0, dc_salt1 = s1,
               dc_authorityPubKey = arbiter, dc_kemSs = ss, dc_kemCiphertext = ct\<rparr>))"

text \<open>The request, and its \<open>DepositMeta\<close> as (commitments, values, amount).\<close>

definition buildDepositRequest ::
  "hashN \<Rightarrow> wallet_identity \<Rightarrow> string \<Rightarrow> deposit_crypto \<Rightarrow> request_error + (proving_request \<times> int list \<times> int list \<times> int)" where
  "buildDepositRequest hN identity amount c =
     (let owner = publicKey (wi_keypair identity) in
      case js_BigInt amount of
        None \<Rightarrow> Inl BadNumber
      | Some V \<Rightarrow>
          if V \<le> 0 then Inl AmountNotPositive
          else (let outs = [(V, dc_salt0 c, owner), (0, dc_salt1 c, owner)]
                in Inr (DepositRequest
                          \<lparr>out_commitments = commit_outputs hN outs, out_values = map fst outs,
                           out_salts = map (fst \<circ> snd) outs, out_owners = map (snd \<circ> snd) outs,
                           out_kemSs = dc_kemSs c, out_ecdhPrivateKey = dc_ecdhPrivateKey c,
                           out_encryptionNonce = dc_encryptionNonce c, out_authorityPublicKey = dc_authorityPubKey c\<rparr>,
                        commit_outputs hN outs, map fst outs, V)))"

subsection \<open>The request of an action\<close>

text \<open>\<open>buildRequest\<close> of \<open>ops/spend/run.ts\<close>.\<close>

definition buildRequest ::
  "hash2 \<Rightarrow> hashN \<Rightarrow> spend_action \<Rightarrow> wallet_identity \<Rightarrow> membership list \<Rightarrow> spend_crypto \<Rightarrow> string \<Rightarrow>
     request_error + (proving_request \<times> spend_meta)" where
  "buildRequest h hN a identity memberships c withdrawRecipient =
     (if act_circuit a = CWithdraw
      then buildWithdrawRequest h hN identity (act_inputs a) memberships (act_amount a) c withdrawRecipient
      else if act_circuit a = CTransfer10x2
      then buildTransfer10x2Request h hN identity (act_inputs a) memberships (act_to a) (act_amount a) c
      else buildTransferRequest h hN identity (act_inputs a) memberships (act_to a) (act_amount a) c)"

end
