(* ===== verification/Leg_Driver.thy ===== *)
theory Leg_Driver
  imports Spend_Build
begin

text \<open>
  The chain runner of the client: \<open>packages/client/src/ops/driver.ts\<close> (the leg loop with its guards and its
  waits, and the guarded deposit), the bounded poll of \<open>scan/refresh.ts\<close>, and the enterprise family of
  \<open>ops/spend/run.ts\<close>.

  An effect acts on a world of the caller's choice (chain, indexer, wallet, screen) and answers a value
  or what it threw; a throw keeps the world it reached. The wallet's classified wording of a message is
  not modelled: \<open>Reassured\<close> marks an error that was wrapped with the reassurance, \<open>Raw\<close> one passed through.
\<close>

subsection \<open>Effects\<close>

type_synonym ('w, 'e, 'a) eff = "'w \<Rightarrow> 'w \<times> ('e + 'a)"

definition ret :: "'a \<Rightarrow> ('w, 'e, 'a) eff" where
  "ret x w = (w, Inr x)"

definition throw :: "'e \<Rightarrow> ('w, 'e, 'a) eff" where
  "throw e w = (w, Inl e)"

definition andThen :: "('w, 'e, 'a) eff \<Rightarrow> ('a \<Rightarrow> ('w, 'e, 'b) eff) \<Rightarrow> ('w, 'e, 'b) eff" where
  "andThen m f w = (case m w of (w1, Inl e) \<Rightarrow> (w1, Inl e) | (w1, Inr x) \<Rightarrow> f x w1)"

definition tell :: "('w \<Rightarrow> 'w) \<Rightarrow> ('w, 'e, unit) eff" where
  "tell g w = (g w, Inr ())"

definition lift_result :: "'e + 'a \<Rightarrow> ('w, 'e, 'a) eff" where
  "lift_result r w = (w, r)"

subsection \<open>Data\<close>

datatype spend_stage = StUnlock | StAssemble | StProve | StSubmit | StWaiting

datatype deposit_stage = DsUnlock | DsApprove | DsProve | DsSubmit

record leg_progress =
  lp_index :: nat
  lp_count :: nat

record spend_outcome =
  oc_txHash :: string
  oc_explorerUrl :: string

record note_view =
  nv_commitment :: string
  nv_leafIndex :: nat
  nv_spent :: bool

datatype 'e leg_error =
    Edge 'e | BuildFailed request_error | MergePending nat | NotIndexed | BalanceChanged | CountUnderstates
  | PlanFailed spend_error | InsufficientBalance

datatype 'e run_error = Raw "'e leg_error" | Reassured "'e leg_error"

record ('w, 'e, 'r, 'c) built_leg =
  bl_request :: 'r
  bl_membershipOk :: bool
  bl_payeeSalt :: string
  bl_submit :: "'c \<Rightarrow> ('w, 'e leg_error, spend_outcome) eff"

record ('w, 'e, 'k, 'i, 'r, 'c) leg_family =
  lf_ensureChain :: "('w, 'e leg_error, unit) eff"
  lf_guardPool :: "('w, 'e leg_error, unit) eff option"
  lf_isUnlocked :: "'w \<Rightarrow> bool"
  lf_unlock :: "('w, 'e leg_error, 'k) eff"
  lf_refineIdentity :: "'k \<Rightarrow> 'e leg_error + 'i"
  lf_publicKey :: "'i \<Rightarrow> point"
  lf_getHead :: "('w, 'e leg_error, int) eff"
  lf_readPath :: "'i \<Rightarrow> nat \<Rightarrow> ('w, 'e leg_error, int list) eff"
  lf_buildLeg :: "spend_leg \<Rightarrow> input_note list \<Rightarrow> 'i \<Rightarrow> membership list \<Rightarrow> ('w, 'e leg_error, ('w, 'e, 'r, 'c) built_leg) eff"
  lf_prove :: "'r \<Rightarrow> ('w, 'e leg_error, 'c) eff"
  lf_reloadNotes :: "('w, 'e leg_error, note_view list) eff"
  lf_sleep :: "nat \<Rightarrow> 'w \<Rightarrow> 'w"
  lf_intervalMs :: nat
  lf_capMs :: nat

subsection \<open>The bounded poll\<close>

text \<open>
  \<open>pollUntil\<close> from \<open>elapsed\<close>: whether a value was accepted, and the last one that loaded. The interval must
  be positive for the loop to end.
\<close>

function poll_attempt ::
  "(nat \<Rightarrow> 'w \<Rightarrow> 'w) \<Rightarrow> nat \<Rightarrow> nat \<Rightarrow> ('w, 'e, 'a) eff \<Rightarrow> ('a \<Rightarrow> bool) \<Rightarrow> nat \<Rightarrow> 'a option \<Rightarrow> 'w \<Rightarrow> 'w \<times> (bool \<times> 'a option)" where
  "poll_attempt sleep interval cap load accept elapsed prev w =
     (if elapsed \<ge> cap \<or> interval = 0 then (w, (False, prev))
      else case load (sleep interval w) of
        (w1, Inl e) \<Rightarrow> poll_attempt sleep interval cap load accept (elapsed + interval) prev w1
      | (w1, Inr cur) \<Rightarrow>
          if accept cur then (w1, (True, Some cur))
          else poll_attempt sleep interval cap load accept (elapsed + interval) (Some cur) w1)"
  by pat_completeness auto
termination
  by (relation "measure (\<lambda>(sleep, interval, cap, load, accept, elapsed, prev, w). cap - elapsed)") auto

declare poll_attempt.simps [simp del]

definition pollUntil ::
  "(nat \<Rightarrow> 'w \<Rightarrow> 'w) \<Rightarrow> nat \<Rightarrow> nat \<Rightarrow> ('w, 'e, 'a) eff \<Rightarrow> ('a \<Rightarrow> bool) \<Rightarrow> 'w \<Rightarrow> 'w \<times> (bool \<times> 'a option)" where
  "pollUntil sleep interval cap load accept w = poll_attempt sleep interval cap load accept 0 None w"

subsection \<open>One leg\<close>

type_synonym 'w on_stage = "spend_stage \<Rightarrow> leg_progress \<Rightarrow> 'w \<Rightarrow> 'w"

definition openSession ::
  "('w, 'e, 'k, 'i, 'r, 'c) leg_family \<Rightarrow> 'w on_stage \<Rightarrow> leg_progress \<Rightarrow> ('w, 'e leg_error, 'i) eff" where
  "openSession fam onStage leg w =
     (let locked = (\<not> lf_isUnlocked fam w) in
      andThen (tell (onStage (if locked then StUnlock else StAssemble) leg)) (\<lambda>_.
      andThen (lf_ensureChain fam) (\<lambda>_.
      andThen (case lf_guardPool fam of None \<Rightarrow> ret () | Some g \<Rightarrow> g) (\<lambda>_.
      andThen (andThen (lf_unlock fam) (\<lambda>k. lift_result (lf_refineIdentity fam k))) (\<lambda>identity.
      andThen (if locked then tell (onStage StAssemble leg) else ret ()) (\<lambda>_.
      ret identity))))) w)"

definition resolveInputs :: "input_note list \<Rightarrow> input_note option list \<Rightarrow> 'e leg_error + input_note list" where
  "resolveInputs planned merged =
     traverse (\<lambda>n. case pendingLegOf (in_leaf n) of
         None \<Rightarrow> Inr n
       | Some k \<Rightarrow>
           (case (if k < length merged then merged ! k else None) of
              None \<Rightarrow> Inl (MergePending k)
            | Some real \<Rightarrow> Inr real)) planned"

fun read_paths ::
  "('w, 'e, 'k, 'i, 'r, 'c) leg_family \<Rightarrow> 'i \<Rightarrow> int \<Rightarrow> input_note list \<Rightarrow> ('w, 'e leg_error, membership list) eff" where
  "read_paths fam identity root [] = ret []"
| "read_paths fam identity root (n # ns) =
     andThen (lf_readPath fam identity (nat (in_leaf n))) (\<lambda>siblings.
     andThen (read_paths fam identity root ns) (\<lambda>ms.
     ret (\<lparr>mb_root = root, mb_pathElements = siblings, mb_leafIndex = nat (in_leaf n)\<rparr> # ms)))"

definition fetchMemberships ::
  "('w, 'e, 'k, 'i, 'r, 'c) leg_family \<Rightarrow> 'i \<Rightarrow> input_note list \<Rightarrow> ('w, 'e leg_error, membership list) eff" where
  "fetchMemberships fam identity inputs =
     andThen (lf_getHead fam) (\<lambda>root. read_paths fam identity root inputs)"

definition merged_seen :: "string \<Rightarrow> note_view list \<Rightarrow> note_view option" where
  "merged_seen wanted ns = List.find (\<lambda>n. nv_commitment n = wanted \<and> \<not> nv_spent n) ns"

definition awaitMergedNote ::
  "hashN \<Rightarrow> ('w, 'e, 'k, 'i, 'r, 'c) leg_family \<Rightarrow> 'i \<Rightarrow> int \<Rightarrow> string \<Rightarrow> ('w, 'e leg_error, input_note) eff" where
  "awaitMergedNote hN fam identity mergedValue payeeSalt w =
     (case js_BigInt payeeSalt of
        None \<Rightarrow> (w, Inl (BuildFailed BadNumber))
      | Some s \<Rightarrow>
          (let wanted = js_toString (commitment hN mergedValue s (lf_publicKey fam identity));
               (w1, landed, loaded) = pollUntil (lf_sleep fam) (lf_intervalMs fam) (lf_capMs fam) (lf_reloadNotes fam)
                 (\<lambda>ns. merged_seen wanted ns \<noteq> None) w
           in case Option.bind loaded (merged_seen wanted) of
                None \<Rightarrow> (w1, Inl NotIndexed)
              | Some n \<Rightarrow> (w1, Inr \<lparr>in_value = mergedValue, in_salt = payeeSalt, in_leaf = int (nv_leafIndex n)\<rparr>)))"

text \<open>The body of the loop: the outcome, and the note a merge created.\<close>

definition run_leg ::
  "hashN \<Rightarrow> ('w, 'e, 'k, 'i, 'r, 'c) leg_family \<Rightarrow> 'w on_stage \<Rightarrow> leg_progress \<Rightarrow> input_note option list \<Rightarrow> spend_leg \<Rightarrow>
     ('w, 'e leg_error, spend_outcome \<times> input_note option) eff" where
  "run_leg hN fam onStage leg merged step =
     andThen (openSession fam onStage leg) (\<lambda>identity.
     andThen (lift_result (resolveInputs (leg_inputs step) merged)) (\<lambda>inputs.
     andThen (fetchMemberships fam identity inputs) (\<lambda>memberships.
     andThen (lf_buildLeg fam step inputs identity memberships) (\<lambda>built.
     if \<not> bl_membershipOk built then throw BalanceChanged
     else
     andThen (tell (onStage StProve leg)) (\<lambda>_.
     andThen (lf_prove fam (bl_request built)) (\<lambda>calldata.
     andThen (tell (onStage StSubmit leg)) (\<lambda>_.
     andThen (bl_submit built calldata) (\<lambda>res.
     case step of
       MergeLeg ins mergedValue \<Rightarrow>
         andThen (tell (onStage StWaiting leg)) (\<lambda>_.
         andThen (awaitMergedNote hN fam identity mergedValue (bl_payeeSalt built)) (\<lambda>n.
         ret (res, Some n)))
     | TerminalLeg c ins \<Rightarrow> ret (res, None)))))))))"

subsection \<open>The chain\<close>

record leg_chain_run =
  lr_outcomes :: "spend_outcome list"
  lr_merged :: "input_note option list"

definition reassure :: "nat \<Rightarrow> 'e leg_error \<Rightarrow> 'e run_error" where
  "reassure txCount e = (if txCount = 1 then Raw e else Reassured e)"

fun run_legs ::
  "hashN \<Rightarrow> ('w, 'e, 'k, 'i, 'r, 'c) leg_family \<Rightarrow> 'w on_stage \<Rightarrow> nat \<Rightarrow> leg_chain_run \<Rightarrow> spend_leg list \<Rightarrow>
     ('w, 'e run_error, leg_chain_run) eff" where
  "run_legs hN fam onStage txCount run [] w = (w, Inr run)"
| "run_legs hN fam onStage txCount run (step # steps) w =
     (case run_leg hN fam onStage \<lparr>lp_index = length (lr_outcomes run), lp_count = txCount\<rparr> (lr_merged run) step w of
        (w1, Inl e) \<Rightarrow> (w1, Inl (reassure txCount e))
      | (w1, Inr (res, note)) \<Rightarrow>
          run_legs hN fam onStage txCount
            \<lparr>lr_outcomes = lr_outcomes run @ [res], lr_merged = lr_merged run @ [note]\<rparr> steps w1)"

definition runLegChain ::
  "hashN \<Rightarrow> ('w, 'e, 'k, 'i, 'r, 'c) leg_family \<Rightarrow> 'w on_stage \<Rightarrow> spend_leg list \<Rightarrow> nat \<Rightarrow> ('w, 'e run_error, leg_chain_run) eff" where
  "runLegChain hN fam onStage legs txCount w =
     (if txCount < length legs then (w, Inl (Raw CountUnderstates))
      else run_legs hN fam onStage txCount \<lparr>lr_outcomes = [], lr_merged = []\<rparr> legs w)"

subsection \<open>The enterprise family\<close>

record stealth_derivation =
  st_ephemeralPub :: string
  st_viewTag :: nat
  st_address :: string

record ('w, 'e, 'c) spend_io =
  io_ensureChain :: "('w, 'e leg_error, unit) eff"
  io_assertPoolKemEpoch :: "('w, 'e leg_error, unit) eff"
  io_isUnlocked :: "'w \<Rightarrow> bool"
  io_unlock :: "string \<Rightarrow> ('w, 'e leg_error, wallet_identity) eff"
  io_getHead :: "('w, 'e leg_error, int) eff"
  io_getSignedPath :: "wallet_identity \<Rightarrow> nat \<Rightarrow> ('w, 'e leg_error, int list) eff"
  io_prove :: "proving_request \<Rightarrow> ('w, 'e leg_error, 'c) eff"
  io_submitTransfer :: "'c \<Rightarrow> string \<Rightarrow> ('w, 'e leg_error, spend_outcome) eff"
  io_submitTransfer10x2 :: "'c \<Rightarrow> string \<Rightarrow> ('w, 'e leg_error, spend_outcome) eff"
  io_submitWithdraw :: "'c \<Rightarrow> string \<Rightarrow> stealth_derivation option \<Rightarrow> ('w, 'e leg_error, spend_outcome) eff"
  io_submitWithdrawRelayed :: "string \<Rightarrow> 'c \<Rightarrow> string \<Rightarrow> stealth_derivation option \<Rightarrow> ('w, 'e leg_error, spend_outcome) eff"
  io_reloadNotes :: "('w, 'e leg_error, note_view list) eff"
  io_rand :: "'w \<Rightarrow> 'w \<times> int"
  io_drawKem :: "'w \<Rightarrow> 'w \<times> (int \<times> int) \<times> string"
  io_sleep :: "nat \<Rightarrow> 'w \<Rightarrow> 'w"
  io_intervalMs :: nat
  io_capMs :: nat

record spend_context =
  cx_address :: string
  cx_sessionPubkey :: string
  cx_relayerUrl :: "string option"
  cx_notes :: "selectable_note list"
  cx_arbiter :: point

record spend_args =
  sg_to :: "string option"
  sg_amount :: string
  sg_stealth :: "stealth_derivation option"
  sg_withdrawTo :: "string option"

fun legAction :: "spend_leg \<Rightarrow> input_note list \<Rightarrow> spend_context \<Rightarrow> spend_args \<Rightarrow> spend_action" where
  "legAction (MergeLeg ins mergedValue) inputs cx args =
     \<lparr>act_circuit = CTransfer10x2, act_inputs = inputs, act_to = cx_sessionPubkey cx, act_amount = js_toString mergedValue\<rparr>"
| "legAction (TerminalLeg c ins) inputs cx args =
     \<lparr>act_circuit = c, act_inputs = inputs, act_to = (case sg_to args of None \<Rightarrow> '''' | Some t \<Rightarrow> t), act_amount = sg_amount args\<rparr>"

fun is_merge :: "spend_leg \<Rightarrow> bool" where
  "is_merge (MergeLeg ins v) = True"
| "is_merge (TerminalLeg c ins) = False"

text \<open>Where a withdraw pays: the stealth address, else the typed one, else the connected account.\<close>

definition withdraw_target :: "spend_leg \<Rightarrow> spend_context \<Rightarrow> spend_args \<Rightarrow> string" where
  "withdraw_target step cx args =
     (case (if is_merge step then None else sg_stealth args) of
        Some s \<Rightarrow> st_address s
      | None \<Rightarrow> (case (if is_merge step then None else sg_withdrawTo args) of Some t \<Rightarrow> t | None \<Rightarrow> cx_address cx))"

definition submit_leg ::
  "('w, 'e, 'c) spend_io \<Rightarrow> spend_context \<Rightarrow> stealth_derivation option \<Rightarrow> spend_circuit \<Rightarrow> string \<Rightarrow> 'c \<Rightarrow> ('w, 'e leg_error, spend_outcome) eff" where
  "submit_leg io cx stealth circuit kemCiphertext calldata =
     (if circuit = CWithdraw
      then (case cx_relayerUrl cx of
              Some url \<Rightarrow> if url \<noteq> '''' then io_submitWithdrawRelayed io url calldata kemCiphertext stealth
                         else io_submitWithdraw io calldata kemCiphertext stealth
            | None \<Rightarrow> io_submitWithdraw io calldata kemCiphertext stealth)
      else if circuit = CTransfer then io_submitTransfer io calldata kemCiphertext
      else io_submitTransfer10x2 io calldata kemCiphertext)"

definition enterprise_build ::
  "hash2 \<Rightarrow> hashN \<Rightarrow> ('w, 'e, 'c) spend_io \<Rightarrow> spend_context \<Rightarrow> spend_args \<Rightarrow> spend_leg \<Rightarrow> input_note list \<Rightarrow>
     wallet_identity \<Rightarrow> membership list \<Rightarrow> ('w, 'e leg_error, ('w, 'e, proving_request, 'c) built_leg) eff" where
  "enterprise_build h hN io cx args step inputs identity memberships w =
     (let stealth = (if is_merge step then None else sg_stealth args);
          action = legAction step inputs cx args;
          (w1, crypto) = freshSpendCrypto (cx_arbiter cx) (io_rand io) (io_drawKem io) w
      in case buildRequest h hN action identity memberships crypto (withdraw_target step cx args) of
           Inl e \<Rightarrow> (w1, Inl (BuildFailed e))
         | Inr (req, m) \<Rightarrow>
             (w1, Inr \<lparr>bl_request = req, bl_membershipOk = sm_membershipOk m,
                bl_payeeSalt = (case sc_payeeSalt crypto of None \<Rightarrow> '''' | Some s \<Rightarrow> js_toString s),
                bl_submit = submit_leg io cx stealth (act_circuit action) (sc_kemCiphertext crypto)\<rparr>))"

definition enterpriseFamily ::
  "hash2 \<Rightarrow> hashN \<Rightarrow> ('w, 'e, 'c) spend_io \<Rightarrow> spend_context \<Rightarrow> spend_args \<Rightarrow>
     ('w, 'e, wallet_identity, wallet_identity, proving_request, 'c) leg_family" where
  "enterpriseFamily h hN io cx args =
     \<lparr>lf_ensureChain = io_ensureChain io, lf_guardPool = Some (io_assertPoolKemEpoch io), lf_isUnlocked = io_isUnlocked io,
      lf_unlock = io_unlock io (cx_sessionPubkey cx), lf_refineIdentity = Inr, lf_publicKey = (\<lambda>i. publicKey (wi_keypair i)),
      lf_getHead = io_getHead io, lf_readPath = io_getSignedPath io, lf_buildLeg = enterprise_build h hN io cx args,
      lf_prove = io_prove io, lf_reloadNotes = io_reloadNotes io, lf_sleep = io_sleep io,
      lf_intervalMs = io_intervalMs io, lf_capMs = io_capMs io\<rparr>"

definition runSpendChain ::
  "hash2 \<Rightarrow> hashN \<Rightarrow> ('w, 'e, 'c) spend_io \<Rightarrow> spend_context \<Rightarrow> spend_kind \<Rightarrow> spend_args \<Rightarrow> 'w on_stage \<Rightarrow>
     ('w, 'e run_error, spend_outcome) eff" where
  "runSpendChain h hN io cx kind args onStage w =
     (case planSpendChain kind (cx_notes cx) (sg_amount args) of
        Inl e \<Rightarrow> (w, Inl (Raw (PlanFailed e)))
      | Inr plan \<Rightarrow>
          (case runLegChain hN (enterpriseFamily h hN io cx args) onStage plan (length plan) w of
             (w1, Inl e) \<Rightarrow> (w1, Inl e)
           | (w1, Inr run) \<Rightarrow> (w1, Inr (last (lr_outcomes run)))))"

text \<open>\<open>runMergeChain\<close>: the note that covers the amount and the merge transactions that made it.\<close>

definition runMergeChain ::
  "hash2 \<Rightarrow> hashN \<Rightarrow> ('w, 'e, 'c) spend_io \<Rightarrow> spend_context \<Rightarrow> string \<Rightarrow> 'w on_stage \<Rightarrow>
     ('w, 'e run_error, input_note \<times> spend_outcome list) eff" where
  "runMergeChain h hN io cx amount onStage w =
     (case planDisburseChain (cx_notes cx) amount of
        Inl e \<Rightarrow> (w, Inl (Raw (PlanFailed e)))
      | Inr (merges, funding) \<Rightarrow>
          (case runLegChain hN
                  (enterpriseFamily h hN io cx \<lparr>sg_to = None, sg_amount = amount, sg_stealth = None, sg_withdrawTo = None\<rparr>)
                  onStage merges (length merges + 1) w of
             (w1, Inl e) \<Rightarrow> (w1, Inl e)
           | (w1, Inr run) \<Rightarrow>
               (case pendingLegOf (in_leaf funding) of
                  None \<Rightarrow> (w1, Inr (funding, lr_outcomes run))
                | Some k \<Rightarrow>
                    (case (if k < length (lr_merged run) then lr_merged run ! k else None) of
                       None \<Rightarrow> (w1, Inl (Raw (MergePending k)))
                     | Some real \<Rightarrow> (w1, Inr (real, lr_outcomes run))))))"

subsection \<open>The guarded deposit\<close>

record ('w, 'e, 'r, 'c) built_deposit =
  bd_request :: 'r
  bd_submit :: "'c \<Rightarrow> ('w, 'e leg_error, spend_outcome) eff"

record ('w, 'e, 'k, 'i, 'r, 'c) deposit_family =
  df_ensureChain :: "('w, 'e leg_error, unit) eff"
  df_guardPool :: "('w, 'e leg_error, unit) eff option"
  df_precheck :: "('w, 'e leg_error, unit) eff option"
  df_isUnlocked :: "'w \<Rightarrow> bool"
  df_unlock :: "('w, 'e leg_error, 'k) eff"
  df_refineIdentity :: "'k \<Rightarrow> 'e leg_error + 'i"
  df_readTokenState :: "('w, 'e leg_error, int \<times> int) eff"
  df_approveToken :: "int \<Rightarrow> ('w, 'e leg_error, unit) eff"
  df_buildDeposit :: "'i \<Rightarrow> string \<Rightarrow> ('w, 'e leg_error, ('w, 'e, 'r, 'c) built_deposit) eff"
  df_prove :: "'r \<Rightarrow> ('w, 'e leg_error, 'c) eff"

record deposit_outcome =
  do_outcome :: spend_outcome
  do_amount :: string
  do_approved :: bool

definition assertDepositAffordable :: "int \<Rightarrow> int \<Rightarrow> 'e leg_error + unit" where
  "assertDepositAffordable V balance = (if V > balance then Inl InsufficientBalance else Inr ())"

text \<open>The guards up to the approval: the identity and whether an approval was sent.\<close>

definition deposit_guards ::
  "('w, 'e, 'k, 'i, 'r, 'c) deposit_family \<Rightarrow> (deposit_stage \<Rightarrow> 'w \<Rightarrow> 'w) \<Rightarrow> int \<Rightarrow> ('w, 'e leg_error, 'i \<times> bool) eff" where
  "deposit_guards fam onStage V w =
     andThen (case df_precheck fam of None \<Rightarrow> ret () | Some p \<Rightarrow> p) (\<lambda>_ w.
     (let locked = (\<not> df_isUnlocked fam w) in
      andThen (tell (onStage (if locked then DsUnlock else DsApprove))) (\<lambda>_.
      andThen (df_ensureChain fam) (\<lambda>_.
      andThen (case df_guardPool fam of None \<Rightarrow> ret () | Some g \<Rightarrow> g) (\<lambda>_.
      andThen (df_readTokenState fam) (\<lambda>(balance, allowance).
      andThen (lift_result (assertDepositAffordable V balance)) (\<lambda>_.
      andThen (andThen (df_unlock fam) (\<lambda>k. lift_result (df_refineIdentity fam k))) (\<lambda>identity.
      andThen (if locked then tell (onStage DsApprove) else ret ()) (\<lambda>_.
      andThen (if allowance < V then df_approveToken fam V else ret ()) (\<lambda>_.
      ret (identity, allowance < V))))))))) w)) w"

definition deposit_body ::
  "('w, 'e, 'k, 'i, 'r, 'c) deposit_family \<Rightarrow> (deposit_stage \<Rightarrow> 'w \<Rightarrow> 'w) \<Rightarrow> 'i \<Rightarrow> string \<Rightarrow> ('w, 'e leg_error, spend_outcome) eff" where
  "deposit_body fam onStage identity amount =
     andThen (tell (onStage DsProve)) (\<lambda>_.
     andThen (df_buildDeposit fam identity amount) (\<lambda>built.
     andThen (df_prove fam (bd_request built)) (\<lambda>calldata.
     andThen (tell (onStage DsSubmit)) (\<lambda>_.
     bd_submit built calldata))))"

definition runGuardedDeposit ::
  "string \<Rightarrow> ('w, 'e, 'k, 'i, 'r, 'c) deposit_family \<Rightarrow> (deposit_stage \<Rightarrow> 'w \<Rightarrow> 'w) \<Rightarrow> ('w, 'e run_error, deposit_outcome) eff" where
  "runGuardedDeposit amountRaw fam onStage w =
     (let amount = js_trim amountRaw in
      case js_BigInt amount of
        None \<Rightarrow> (w, Inl (Raw (BuildFailed BadNumber)))
      | Some V \<Rightarrow>
          if V \<le> 0 then (w, Inl (Raw (BuildFailed AmountNotPositive)))
          else (case deposit_guards fam onStage V w of
             (w1, Inl e) \<Rightarrow> (w1, Inl (Raw e))
           | (w1, Inr (identity, approved)) \<Rightarrow>
               (case deposit_body fam onStage identity amount w1 of
                  (w2, Inl e) \<Rightarrow> (w2, Inl (if approved then Reassured e else Raw e))
                | (w2, Inr res) \<Rightarrow> (w2, Inr \<lparr>do_outcome = res, do_amount = amount, do_approved = approved\<rparr>))))"

end
