(* ===== verification/Spend_Build_Correct.thy ===== *)
theory Spend_Build_Correct
  imports Spend_Build
begin

text \<open>
  What the enterprise circuits check of a request (\<open>circuits/lib\<close>: hashes, nullifiers, the value belt,
  membership, ranges, conservation; the sealed envelope apart), and that the builders only hand out
  requests that pass it.
\<close>

subsection \<open>The circuit relation\<close>

text \<open>An input position: boolean switch, value belt, commitment, nullifier, membership when enabled.\<close>

definition input_ok :: "hash2 \<Rightarrow> hashN \<Rightarrow> point \<Rightarrow> int \<Rightarrow> int \<Rightarrow> input_slot \<Rightarrow> bool" where
  "input_ok h hN owner priv root sl \<longleftrightarrow>
     (slot_enabled sl = 0 \<or> slot_enabled sl = 1) \<and>
     (slot_enabled sl = 0 \<longrightarrow> slot_value sl = 0 \<and> slot_nullifier sl = 0) \<and>
     slot_commitment sl = commitment hN (slot_value sl) (slot_salt sl) owner \<and>
     (slot_enabled sl = 1 \<longrightarrow> slot_nullifier sl = nullifier hN (slot_value sl) (slot_salt sl) priv \<and> path_ok h root sl) \<and>
     length (slot_path sl) = H_TREE \<and> slot_leaf sl < 2 ^ H_TREE"

definition slot_at :: "spend_input \<Rightarrow> nat \<Rightarrow> input_slot" where
  "slot_at w i = \<lparr>slot_nullifier = si_nullifiers w ! i, slot_commitment = si_inputCommitments w ! i,
     slot_value = si_inputValues w ! i, slot_salt = si_inputSalts w ! i, slot_enabled = si_enabled w ! i,
     slot_path = si_pathElements w ! i, slot_leaf = si_leafIndices w ! i\<rparr>"

text \<open>The arrays have the arities of the circuit.\<close>

definition arities :: "nat \<Rightarrow> nat \<Rightarrow> spend_input \<Rightarrow> bool" where
  "arities nIn nOut w \<longleftrightarrow>
     length (si_nullifiers w) = nIn \<and> length (si_inputCommitments w) = nIn \<and> length (si_inputValues w) = nIn \<and>
     length (si_inputSalts w) = nIn \<and> length (si_pathElements w) = nIn \<and> length (si_leafIndices w) = nIn \<and>
     length (si_enabled w) = nIn \<and> length (out_commitments w) = nOut \<and> length (out_values w) = nOut \<and>
     length (out_salts w) = nOut \<and> length (out_owners w) = nOut"

definition outputs_ok :: "hashN \<Rightarrow> spend_input \<Rightarrow> bool" where
  "outputs_ok hN w \<longleftrightarrow>
     out_commitments w = map (\<lambda>(v, s, pk). commitment hN v s pk) (zip (out_values w) (zip (out_salts w) (out_owners w))) \<and>
     list_all (\<lambda>v. 0 \<le> v \<and> v < 2 ^ 100) (out_values w)"

definition spend_circuit :: "hash2 \<Rightarrow> hashN \<Rightarrow> nat \<Rightarrow> nat \<Rightarrow> spend_input \<Rightarrow> bool" where
  "spend_circuit h hN nIn nOut w \<longleftrightarrow>
     arities nIn nOut w \<and> outputs_ok hN w \<and>
     (case mulPointEscalar Base8 (si_inputOwnerPrivateKey w) of
        None \<Rightarrow> False
      | Some owner \<Rightarrow> list_all (\<lambda>i. input_ok h hN owner (si_inputOwnerPrivateKey w) (si_root w) (slot_at w i)) [0..<nIn])"

definition paid_out :: "spend_input \<Rightarrow> int" where
  "paid_out w = sum_list (si_inputValues w) - sum_list (out_values w)"

definition circuit_accepts :: "hash2 \<Rightarrow> hashN \<Rightarrow> proving_request \<Rightarrow> bool" where
  "circuit_accepts h hN req =
     (case req of
        DepositRequest w \<Rightarrow> length (out_values w) = 2
      | TransferRequest w \<Rightarrow> spend_circuit h hN 2 2 w \<and> paid_out w = 0
      | Transfer10Request w \<Rightarrow> spend_circuit h hN 10 10 w \<and> paid_out w = 0
      | Transfer10x2Request w \<Rightarrow> spend_circuit h hN 10 2 w \<and> paid_out w = 0
      | WithdrawRequest w r \<Rightarrow> spend_circuit h hN 2 1 w \<and> paid_out w \<ge> 0 \<and> r \<noteq> 0 \<and> r < 2 ^ 160)"

text \<open>The request carries the action out: what is paid, to whom, and that the rest comes back.\<close>

definition carries_out :: "wallet_identity \<Rightarrow> spend_action \<Rightarrow> string \<Rightarrow> proving_request \<Rightarrow> bool" where
  "carries_out identity a recipient req =
     (case req of
        WithdrawRequest w r \<Rightarrow>
          act_circuit a = CWithdraw \<and> js_BigInt (act_amount a) = Some (paid_out w) \<and> paid_out w > 0 \<and>
          js_BigInt recipient = Some r \<and> out_owners w = [publicKey (wi_keypair identity)] \<and>
          sum_list (si_inputValues w) = sum_list (map in_value (act_inputs a))
      | TransferRequest w \<Rightarrow>
          act_circuit a = CTransfer \<and> js_BigInt (act_amount a) = Some (out_values w ! 0) \<and> out_values w ! 0 > 0 \<and>
          Inr (out_owners w ! 0) = unpackPubkey (js_trim (act_to a)) \<and> out_owners w ! 1 = publicKey (wi_keypair identity) \<and>
          sum_list (si_inputValues w) = sum_list (map in_value (act_inputs a))
      | Transfer10x2Request w \<Rightarrow>
          act_circuit a = CTransfer10x2 \<and> js_BigInt (act_amount a) = Some (out_values w ! 0) \<and> out_values w ! 0 > 0 \<and>
          Inr (out_owners w ! 0) = unpackPubkey (js_trim (act_to a)) \<and> out_owners w ! 1 = publicKey (wi_keypair identity) \<and>
          sum_list (si_inputValues w) = sum_list (map in_value (act_inputs a))
      | _ \<Rightarrow> False)"

subsection \<open>The input side\<close>

lemma traverse_Inr: "traverse f xs = Inr ys \<Longrightarrow> list_all2 (\<lambda>x y. f x = Inr y) xs ys"
  by (induction xs arbitrary: ys) (auto split: sum.splits)

lemma check_memberships_None:
  "check_memberships root ms = None \<Longrightarrow> list_all (\<lambda>m. mb_root m = root \<and> length (mb_pathElements m) = H_TREE) ms"
  by (induction ms) (auto split: if_splits)

lemma real_slot_Inr:
  "real_slot hN self (i, note, m) = Inr sl \<longleftrightarrow>
     (\<exists>s. js_BigInt (in_salt note) = Some s \<and> 0 \<le> in_value note \<and>
        sl = \<lparr>slot_nullifier = nullifier hN (in_value note) s (formattedPrivateKey self),
              slot_commitment = commitment hN (in_value note) s (publicKey self), slot_value = in_value note,
              slot_salt = s, slot_enabled = 1, slot_path = mb_pathElements m, slot_leaf = mb_leafIndex m\<rparr>)"
  by (auto simp: real_slot_def split: option.splits)

text \<open>The slots of an assembled input side: the real ones as published, the pads inert.\<close>

lemma assemble_slots:
  assumes a: "assembleInputs h hN self inputs ms pads arity = Inr ins"
    and leaf: "list_all (\<lambda>m. mb_leafIndex m < 2 ^ H_TREE) ms" and ok: "as_membershipOk ins"
  shows "length (as_slots ins) = arity" "as_inputTotal ins = sum_list (map in_value inputs)" "as_inputTotal ins \<ge> 0"
    "sum_list (map slot_value (as_slots ins)) = as_inputTotal ins"
    "list_all (input_ok h hN (publicKey self) (formattedPrivateKey self) (as_root ins)) (as_slots ins)"
proof -
  let ?n = "length inputs" and ?root = "mb_root (ms ! 0)"
  obtain slots where n: "?n \<le> arity" "length ms = ?n" "arity - ?n \<le> length pads"
    and c: "check_memberships ?root ms = None"
    and t: "traverse (real_slot hN self) (zip [0..<?n] (zip inputs ms)) = Inr slots"
    and ins: "ins = \<lparr>as_slots = slots @ map (pad_slot hN self) (take (arity - ?n) pads), as_root = ?root,
        as_inputTotal = sum_list (map slot_value slots), as_membershipOk = list_all (path_ok h ?root) slots\<rparr>"
    using a by (auto simp: assembleInputs_def Let_def split: if_splits option.splits sum.splits)
  note L = traverse_Inr [OF t]
  have len: "length slots = ?n" using list_all2_lengthD [OF L] n by simp
  have at: "real_slot hN self (i, inputs ! i, ms ! i) = Inr (slots ! i)" if "i < ?n" for i
    using list_all2_nthD [OF L, of i] that n by simp
  have v: "slot_value (slots ! i) = in_value (inputs ! i)" if "i < ?n" for i
    using at [OF that] by (auto simp: real_slot_Inr)
  have vals: "map slot_value slots = map in_value inputs" using len v by (simp add: list_eq_iff_nth_eq)
  have good: "input_ok h hN (publicKey self) (formattedPrivateKey self) ?root (slots ! i)" if i: "i < ?n" for i
  proof -
    have "mb_leafIndex (ms ! i) < 2 ^ H_TREE" "length (mb_pathElements (ms ! i)) = H_TREE" "path_ok h ?root (slots ! i)"
      using i leaf n(2) check_memberships_None [OF c] ok len by (auto simp: list_all_length ins)
    then show ?thesis using at [OF i] by (auto simp: real_slot_Inr input_ok_def)
  qed
  show "length (as_slots ins) = arity" using n len by (simp add: ins)
  show "as_inputTotal ins = sum_list (map in_value inputs)" using vals by (simp add: ins)
  have "0 \<le> in_value x" if x: "x \<in> set inputs" for x
  proof -
    from x obtain i where "i < ?n" "x = inputs ! i" by (auto simp: in_set_conv_nth)
    with at [of i] show ?thesis by (auto simp: real_slot_Inr)
  qed
  then have "0 \<le> sum_list (map in_value inputs)" by (intro sum_list_nonneg) auto
  then show "as_inputTotal ins \<ge> 0" using vals by (simp add: ins)
  have z: "map slot_value (map (pad_slot hN self) xs) = map (\<lambda>_. 0) xs" for xs by (simp add: pad_slot_def)
  have zs: "sum_list (map (\<lambda>_. 0 :: int) xs) = 0" for xs :: "int list" by (induction xs) auto
  show "sum_list (map slot_value (as_slots ins)) = as_inputTotal ins" by (simp add: ins pad_slot_def comp_def zs)
  have "list_all (input_ok h hN (publicKey self) (formattedPrivateKey self) ?root) slots"
    using good len by (simp add: list_all_length)
  moreover have "list_all (input_ok h hN (publicKey self) (formattedPrivateKey self) ?root) (map (pad_slot hN self) xs)" for xs
    by (auto simp: list_all_iff input_ok_def pad_slot_def)
  ultimately show "list_all (input_ok h hN (publicKey self) (formattedPrivateKey self) (as_root ins)) (as_slots ins)"
    by (simp add: ins)
qed

subsection \<open>The builders\<close>

lemma commit_outputs_zip:
  "commit_outputs hN outs = map (\<lambda>(v, s, pk). commitment hN v s pk) (zip (map fst outs) (zip (map (fst \<circ> snd) outs) (map (snd \<circ> snd) outs)))"
  by (induction outs) (auto simp: commit_outputs_def)

text \<open>A witness built from assembled inputs passes the circuit when its outputs are in range.\<close>

lemma witness_passes:
  assumes a: "assembleInputs h hN self inputs ms pads arity = Inr ins"
    and leaf: "list_all (\<lambda>m. mb_leafIndex m < 2 ^ H_TREE) ms" and ok: "as_membershipOk ins"
    and key: "deriveKeypair sk = Some self"
    and range: "list_all (\<lambda>v. 0 \<le> v \<and> v < 2 ^ 100) (map fst outs)"
  shows "spend_circuit h hN arity (length outs) (witness_of hN self ins c outs)"
    "sum_list (si_inputValues (witness_of hN self ins c outs)) = sum_list (map in_value inputs)"
proof -
  note S = assemble_slots [OF a leaf ok]
  let ?w = "witness_of hN self ins c outs"
  have k: "mulPointEscalar Base8 (formattedPrivateKey self) = Some (publicKey self)"
    using key by (auto simp: deriveKeypair_def split: if_splits)
  have "slot_at ?w i = as_slots ins ! i" if "i < arity" for i
    using that S(1) by (simp add: slot_at_def witness_of_def)
  then have "list_all (\<lambda>i. input_ok h hN (publicKey self) (formattedPrivateKey self) (as_root ins) (slot_at ?w i)) [0..<arity]"
    using S(1, 5) by (auto simp: list_all_length)
  moreover have "arities arity (length outs) ?w" using S(1) by (simp add: arities_def witness_of_def commit_outputs_def)
  moreover have "outputs_ok hN ?w" using range by (simp add: outputs_ok_def witness_of_def commit_outputs_zip)
  ultimately show "spend_circuit h hN arity (length outs) ?w" using k by (simp add: spend_circuit_def witness_of_def)
  show "sum_list (si_inputValues ?w) = sum_list (map in_value inputs)" using S by (simp add: witness_of_def)
qed

lemma parse_amount_Inr: "parse_amount amount t = Inr v \<longleftrightarrow> js_BigInt amount = Some v \<and> 0 < v \<and> v \<le> t"
  by (auto simp: parse_amount_def split: option.splits)

lemma parsePayee_Inr: "parsePayee s = Inr pk \<longleftrightarrow> unpackPubkey (js_trim s) = Inr pk"
  by (auto simp: parsePayee_def split: sum.splits)

lemma two_output_spend_Inr:
  assumes "two_output_spend h hN self inputs ms to amount c arity = Inr (w, m)"
  obtains payeeSalt ins payee v where "assembleInputs h hN self inputs ms (sc_padSalts c) arity = Inr ins"
    "unpackPubkey (js_trim to) = Inr payee" "js_BigInt amount = Some v" "0 < v" "v \<le> as_inputTotal ins"
    "w = witness_of hN self ins c [(v, payeeSalt, payee), (as_inputTotal ins - v, sc_changeSalt c, publicKey self)]"
    "sm_membershipOk m = as_membershipOk ins" "sm_inputTotal m = as_inputTotal ins"
  using assms
  by (auto simp: two_output_spend_def Let_def parse_amount_Inr parsePayee_Inr meta_of_def spendMeta_def
      split: option.splits sum.splits)

lemma two_output_spend_ok:
  assumes b: "two_output_spend h hN self inputs ms to amount c arity = Inr (w, m)" and ok: "sm_membershipOk m"
    and range: "sm_inputTotal m < 2 ^ 100" and leaf: "list_all (\<lambda>m. mb_leafIndex m < 2 ^ H_TREE) ms"
    and key: "deriveKeypair sk = Some self"
  shows "spend_circuit h hN arity 2 w" "paid_out w = 0" "js_BigInt amount = Some (out_values w ! 0)" "0 < out_values w ! 0"
    "Inr (out_owners w ! 0) = unpackPubkey (js_trim to)" "out_owners w ! 1 = publicKey self"
    "sum_list (si_inputValues w) = sum_list (map in_value inputs)"
proof -
  from b obtain payeeSalt ins payee v where a: "assembleInputs h hN self inputs ms (sc_padSalts c) arity = Inr ins"
    and p: "unpackPubkey (js_trim to) = Inr payee" "js_BigInt amount = Some v" "0 < v" "v \<le> as_inputTotal ins"
    and w: "w = witness_of hN self ins c [(v, payeeSalt, payee), (as_inputTotal ins - v, sc_changeSalt c, publicKey self)]"
    and m: "sm_membershipOk m = as_membershipOk ins" "sm_inputTotal m = as_inputTotal ins"
    by (rule two_output_spend_Inr)
  let ?outs = "[(v, payeeSalt, payee), (as_inputTotal ins - v, sc_changeSalt c, publicKey self)]"
  have o: "as_membershipOk ins" using ok m by simp
  have r: "list_all (\<lambda>v. 0 \<le> v \<and> v < 2 ^ 100) (map fst ?outs)" using p range m by simp
  note W = witness_passes [OF a leaf o key r, of c]
  show "spend_circuit h hN arity 2 w" using W(1) by (simp add: w numeral_2_eq_2)
  show s: "sum_list (si_inputValues w) = sum_list (map in_value inputs)" using W(2) by (simp add: w)
  show "paid_out w = 0" unfolding paid_out_def s using assemble_slots(2) [OF a leaf o] by (simp add: w witness_of_def)
  show "js_BigInt amount = Some (out_values w ! 0)" "0 < out_values w ! 0"
    "Inr (out_owners w ! 0) = unpackPubkey (js_trim to)" "out_owners w ! 1 = publicKey self"
    using p by (simp_all add: w witness_of_def)
qed

lemma withdraw_ok:
  assumes b: "buildWithdrawRequest h hN identity inputs ms amount c recipient = Inr (req, m)" and ok: "sm_membershipOk m"
    and range: "sm_inputTotal m < 2 ^ 100" and leaf: "list_all (\<lambda>m. mb_leafIndex m < 2 ^ H_TREE) ms"
    and key: "deriveKeypair sk = Some (wi_keypair identity)"
  shows "\<exists>w r. req = WithdrawRequest w r \<and> spend_circuit h hN 2 1 w \<and> js_BigInt amount = Some (paid_out w) \<and> 0 < paid_out w \<and>
    js_BigInt recipient = Some r \<and> r \<noteq> 0 \<and> r < 2 ^ 160 \<and> out_owners w = [publicKey (wi_keypair identity)] \<and>
    sum_list (si_inputValues w) = sum_list (map in_value inputs)"
proof -
  let ?self = "wi_keypair identity"
  from b obtain ins v r where a: "assembleInputs h hN ?self inputs ms (sc_padSalts c) 2 = Inr ins"
    and p: "js_BigInt recipient = Some r" "r \<noteq> 0" "r < 2 ^ 160" "js_BigInt amount = Some v" "0 < v" "v \<le> as_inputTotal ins"
    and req: "req = WithdrawRequest (witness_of hN ?self ins c [(as_inputTotal ins - v, sc_changeSalt c, publicKey ?self)]) r"
    and m: "sm_membershipOk m = as_membershipOk ins" "sm_inputTotal m = as_inputTotal ins"
    by (auto simp: buildWithdrawRequest_def Let_def parse_amount_Inr meta_of_def spendMeta_def push_bit_eq_mult
        split: option.splits sum.splits if_splits)
  let ?outs = "[(as_inputTotal ins - v, sc_changeSalt c, publicKey ?self)]"
  have o: "as_membershipOk ins" using ok m by simp
  have r: "list_all (\<lambda>v. 0 \<le> v \<and> v < 2 ^ 100) (map fst ?outs)" using p range m by simp
  note W = witness_passes [OF a leaf o key r, of c]
  have "paid_out (witness_of hN ?self ins c ?outs) = v"
    unfolding paid_out_def W(2) using assemble_slots(2) [OF a leaf o] by (simp add: witness_of_def)
  then show ?thesis using W p req by (auto simp: witness_of_def)
qed

subsection \<open>Every request passes its circuit\<close>

lemma tag_request_Inr: "tag_request f r = Inr (q, m) \<longleftrightarrow> (\<exists>w. r = Inr (w, m) \<and> q = f w)"
  by (auto simp: tag_request_def split: sum.splits)

lemma built_request_ok:
  assumes "buildRequest h hN a identity ms c recipient = Inr (req, m)" and "sm_membershipOk m"
    and "sm_inputTotal m < 2 ^ 100" and "list_all (\<lambda>m. mb_leafIndex m < 2 ^ H_TREE) ms"
    and "deriveKeypair sk = Some (wi_keypair identity)"
  shows "circuit_accepts h hN req \<and> carries_out identity a recipient req"
proof (cases "act_circuit a")
  case CTransfer
  then obtain w where w: "two_output_spend h hN (wi_keypair identity) (act_inputs a) ms (act_to a) (act_amount a) c 2 = Inr (w, m)"
    "req = TransferRequest w" using assms(1) by (auto simp: buildRequest_def buildTransferRequest_def tag_request_Inr)
  note T = two_output_spend_ok [OF w(1) assms(2-5)]
  show ?thesis using T CTransfer w(2) by (simp add: circuit_accepts_def carries_out_def)
next
  case CTransfer10x2
  then obtain w where w: "two_output_spend h hN (wi_keypair identity) (act_inputs a) ms (act_to a) (act_amount a) c TRANSFER10_ARITY = Inr (w, m)"
    "req = Transfer10x2Request w" using assms(1) by (auto simp: buildRequest_def buildTransfer10x2Request_def tag_request_Inr)
  note T = two_output_spend_ok [OF w(1) assms(2-5)]
  show ?thesis using T CTransfer10x2 w(2) by (simp add: circuit_accepts_def carries_out_def TRANSFER10_ARITY_def)
next
  case CWithdraw
  then have "buildWithdrawRequest h hN identity (act_inputs a) ms (act_amount a) c recipient = Inr (req, m)"
    using assms(1) by (simp add: buildRequest_def)
  from withdraw_ok [OF this assms(2-5)] show ?thesis using CWithdraw by (auto simp: circuit_accepts_def carries_out_def)
qed


text \<open>The generator is the public key of the private key one: no inversion but that of one is needed.\<close>

lemma inv_mod_one: "inv_mod 1 = 1"
proof -
  have one: "fmod 1 = 1" by (simp add: fmod_mod)
  have "fold (pow_step 1) bs 1 = 1" for bs by (induction bs) (simp_all add: pow_step_def one)
  then show ?thesis by (simp add: inv_mod_def modpow_def one)
qed

lemma generator_key: "deriveKeypair 1 = Some \<lparr>formattedPrivateKey = 1, publicKey = Base8\<rparr>"
proof -
  have "addPoint IDENTITY Base8 = Base8"
    by (simp add: IDENTITY_def Base8_def fmod_mod inv_mod_one FIELD_PRIME_def curve_A_def curve_D_def)
  moreover have "mulPointEscalar Base8 1 = Some (addPoint IDENTITY Base8)"
    by (simp add: mulPointEscalar_def bits_msb.simps [of "Suc 0"] ladder_step_def)
  ultimately show ?thesis by (simp add: deriveKeypair_def FIELD_PRIME_def)
qed

definition demo_identity :: wallet_identity where
  "demo_identity = \<lparr>wi_keypair = \<lparr>formattedPrivateKey = 1, publicKey = Base8\<rparr>, wi_compressedPubkey = ''''\<rparr>"

definition demo_h :: hash2 where
  "demo_h a b = (a + 3 * b) mod 1000003"

definition demo_hN :: hashN where
  "demo_hN xs = fold (\<lambda>x a. (x + 7 * a) mod 1000003) xs 1"

definition demo_member :: membership where
  "demo_member = (let p = replicate H_TREE 4
     in \<lparr>mb_root = foldToRoot demo_h (commitment demo_hN 70 9 Base8) p 5, mb_pathElements = p, mb_leafIndex = 5\<rparr>)"

definition demo_crypto :: spend_crypto where
  "demo_crypto = \<lparr>sc_ecdhPrivateKey = 11, sc_encryptionNonce = 12, sc_authorityPubKey = Base8, sc_kemSs = (1, 2),
     sc_kemCiphertext = [], sc_changeSalt = 13, sc_padSalts = [14], sc_payeeSalt = None, sc_outputPadSalts = []\<rparr>"

definition demo_action :: spend_action where
  "demo_action = \<lparr>act_circuit = CWithdraw, act_inputs = [\<lparr>in_value = 70, in_salt = ''9'', in_leaf = 5\<rparr>], act_to = '''', act_amount = ''50''\<rparr>"

definition demo_built :: "request_error + (proving_request \<times> spend_meta)" where
  "demo_built = buildRequest demo_h demo_hN demo_action demo_identity [demo_member] demo_crypto ''0xff''"

lemma demo_numbers: "js_BigInt ''9'' = Some 9" "js_BigInt ''50'' = Some 50" "js_BigInt ''0xff'' = Some 255"
  by code_simp+

lemma demo_built_ok: "case demo_built of Inl e \<Rightarrow> False | Inr (req, m) \<Rightarrow> sm_membershipOk m \<and> sm_inputTotal m < 2 ^ 100"
  by (simp add: demo_built_def buildRequest_def buildWithdrawRequest_def assembleInputs_def Let_def demo_action_def
      demo_crypto_def demo_identity_def demo_member_def demo_numbers real_slot_def parse_amount_def meta_of_def
      spendMeta_def path_ok_def push_bit_eq_mult)


end
