(* ===== verification/Leg_Correct.thy ===== *)
theory Leg_Correct
  imports Leg_Driver Spend_Build_Correct
begin

text \<open>
  What a run of a chain does to the outside world, and in which order. The edges are instrumented with a
  trace of the calls they receive; a small calculus, \<open>emits\<close>, says which traces an effect adds.
\<close>

subsection \<open>Traces\<close>

datatype edge_call =
    CallAlign | CallGuard | CallUnlock | CallHead | CallPath nat | CallProve proving_request
  | CallSubmit spend_circuit | CallReload

definition logged :: "edge_call \<Rightarrow> ('w, 'e, 'a) eff \<Rightarrow> ('w \<times> edge_call list, 'e, 'a) eff" where
  "logged c m = (\<lambda>(w, tr). case m w of (w1, r) \<Rightarrow> ((w1, tr @ [c]), r))"

definition silent :: "('w \<Rightarrow> 'w \<times> 'a) \<Rightarrow> 'w \<times> edge_call list \<Rightarrow> ('w \<times> edge_call list) \<times> 'a" where
  "silent g = (\<lambda>(w, tr). case g w of (w1, x) \<Rightarrow> ((w1, tr), x))"

definition logged_io :: "('w, 'e, 'c) spend_io \<Rightarrow> ('w \<times> edge_call list, 'e, 'c) spend_io" where
  "logged_io io =
     \<lparr>io_ensureChain = logged CallAlign (io_ensureChain io), io_assertPoolKemEpoch = logged CallGuard (io_assertPoolKemEpoch io),
      io_isUnlocked = (\<lambda>w. io_isUnlocked io (fst w)), io_unlock = (\<lambda>pk. logged CallUnlock (io_unlock io pk)),
      io_getHead = logged CallHead (io_getHead io), io_getSignedPath = (\<lambda>i l. logged (CallPath l) (io_getSignedPath io i l)),
      io_prove = (\<lambda>r. logged (CallProve r) (io_prove io r)),
      io_submitTransfer = (\<lambda>c k. logged (CallSubmit CTransfer) (io_submitTransfer io c k)),
      io_submitTransfer10x2 = (\<lambda>c k. logged (CallSubmit CTransfer10x2) (io_submitTransfer10x2 io c k)),
      io_submitWithdraw = (\<lambda>c k s. logged (CallSubmit CWithdraw) (io_submitWithdraw io c k s)),
      io_submitWithdrawRelayed = (\<lambda>u c k s. logged (CallSubmit CWithdraw) (io_submitWithdrawRelayed io u c k s)),
      io_reloadNotes = logged CallReload (io_reloadNotes io), io_rand = silent (io_rand io), io_drawKem = silent (io_drawKem io),
      io_sleep = (\<lambda>ms w. (io_sleep io ms (fst w), snd w)), io_intervalMs = io_intervalMs io, io_capMs = io_capMs io\<rparr>"

definition quiet_stage :: "'w on_stage \<Rightarrow> ('w \<times> edge_call list) on_stage" where
  "quiet_stage onStage = (\<lambda>st lp w. (onStage st lp (fst w), snd w))"

definition emits :: "('w \<times> edge_call list, 'e, 'a) eff \<Rightarrow> (edge_call list \<Rightarrow> 'e + 'a \<Rightarrow> bool) \<Rightarrow> bool" where
  "emits m L \<longleftrightarrow> (\<forall>w tr. \<exists>w' xs r. m (w, tr) = ((w', tr @ xs), r) \<and> L xs r)"

lemma emitsI: "(\<And>w tr. \<exists>w' xs r. m (w, tr) = ((w', tr @ xs), r) \<and> L xs r) \<Longrightarrow> emits m L"
  unfolding emits_def by blast

lemma emits_mono: "emits m L \<Longrightarrow> (\<And>xs r. L xs r \<Longrightarrow> L' xs r) \<Longrightarrow> emits m L'"
  unfolding emits_def by blast

lemma emits_ret: "L [] (Inr x) \<Longrightarrow> emits (ret x) L"
  by (auto simp: emits_def ret_def)

lemma emits_throw: "L [] (Inl e) \<Longrightarrow> emits (throw e) L"
  by (auto simp: emits_def throw_def)

lemma emits_lift_result: "L [] r \<Longrightarrow> emits (lift_result r) L"
  by (auto simp: emits_def lift_result_def)

lemma emits_stage: "L [] (Inr ()) \<Longrightarrow> emits (tell (quiet_stage onStage st lp)) L"
  by (auto simp: emits_def tell_def quiet_stage_def)

lemma emits_logged: "(\<And>w w' r. m w = (w', r) \<Longrightarrow> L [c] r) \<Longrightarrow> emits (logged c m) L"
  unfolding emits_def logged_def by (auto split: prod.split)

lemma emits_read: "(\<And>b. emits (F b) L) \<Longrightarrow> emits (\<lambda>w. F (g w) w) L"
  unfolding emits_def by blast

lemma emits_andThen:
  assumes m: "emits m K" and e: "\<And>xs e. K xs (Inl e) \<Longrightarrow> L xs (Inl e)"
    and f: "\<And>xs x. K xs (Inr x) \<Longrightarrow> emits (f x) (\<lambda>ys r. L (xs @ ys) r)"
  shows "emits (andThen m f) L"
  unfolding emits_def
proof (intro allI)
  fix w tr
  obtain w1 xs r where 1: "m (w, tr) = ((w1, tr @ xs), r)" "K xs r" using m unfolding emits_def by blast
  show "\<exists>w' xs r. andThen m f (w, tr) = ((w', tr @ xs), r) \<and> L xs r"
  proof (cases r)
    case (Inl a)
    then show ?thesis using 1 e by (auto simp: andThen_def)
  next
    case (Inr x)
    then obtain w2 ys r2 where 2: "f x (w1, tr @ xs) = ((w2, (tr @ xs) @ ys), r2)" "L (xs @ ys) r2"
      using f 1(2) unfolding emits_def by blast
    then have "andThen m f (w, tr) = ((w2, tr @ (xs @ ys)), r2)" using 1 Inr by (simp add: andThen_def)
    then show ?thesis using 2(2) by blast
  qed
qed

text \<open>The steps of a sequence, one rule per kind of first effect.\<close>

lemma andThen_assoc: "andThen (andThen m f) g = andThen m (\<lambda>x. andThen (f x) g)"
  by (auto simp: andThen_def fun_eq_iff split: prod.split sum.split)

lemma emits_stage_then: "emits (f ()) L \<Longrightarrow> emits (andThen (tell (quiet_stage onStage st lp)) f) L"
  by (rule emits_andThen [where K = "\<lambda>xs r. xs = [] \<and> r = Inr ()"]) (auto intro: emits_stage)

lemma emits_optional_then:
  "emits (f ()) L \<Longrightarrow> emits (andThen (if b then tell (quiet_stage onStage st lp) else ret ()) f) L"
  by (cases b) (simp_all add: emits_stage_then, auto simp: emits_def andThen_def ret_def)

lemma emits_lift_then:
  "(\<And>e. r = Inl e \<Longrightarrow> L [] (Inl e)) \<Longrightarrow> (\<And>x. r = Inr x \<Longrightarrow> emits (f x) L) \<Longrightarrow> emits (andThen (lift_result r) f) L"
  by (rule emits_andThen [where K = "\<lambda>xs q. xs = [] \<and> q = r"]) (auto intro: emits_lift_result)

lemma emits_call_then:
  "(\<And>e. L [c] (Inl e)) \<Longrightarrow> (\<And>w w' x. m w = (w', Inr x) \<Longrightarrow> emits (f x) (\<lambda>ys r. L (c # ys) r)) \<Longrightarrow>
   emits (andThen (logged c m) f) L"
  by (rule emits_andThen [where K = "\<lambda>xs r. xs = [c] \<and> (\<exists>w w'. m w = (w', r))"]) (auto intro: emits_logged)

subsection \<open>The shape of a leg\<close>

text \<open>
  The calls of a whole leg: the guards, the unlock, the head and one path per input, one proof, one
  submission to the circuit of the plan, and after a merge the reloads of the wait.
\<close>

definition leg_shape :: "spend_leg \<Rightarrow> edge_call list \<Rightarrow> bool" where
  "leg_shape step xs \<longleftrightarrow>
     (\<exists>leaves req k. length leaves = length (leg_inputs step) \<and> (\<not> is_merge step \<longrightarrow> k = 0) \<and>
        xs = [CallAlign, CallGuard, CallUnlock, CallHead] @ map CallPath leaves @ [CallProve req, CallSubmit (legCircuit step)] @
             replicate k CallReload)"

definition request_in_range :: "proving_request \<Rightarrow> bool" where
  "request_in_range req =
     (case req of
        DepositRequest w \<Rightarrow> True
      | TransferRequest w \<Rightarrow> sum_list (si_inputValues w) < 2 ^ 100 \<and> list_all (\<lambda>l. l < 2 ^ H_TREE) (si_leafIndices w)
      | Transfer10Request w \<Rightarrow> sum_list (si_inputValues w) < 2 ^ 100 \<and> list_all (\<lambda>l. l < 2 ^ H_TREE) (si_leafIndices w)
      | Transfer10x2Request w \<Rightarrow> sum_list (si_inputValues w) < 2 ^ 100 \<and> list_all (\<lambda>l. l < 2 ^ H_TREE) (si_leafIndices w)
      | WithdrawRequest w r \<Rightarrow> sum_list (si_inputValues w) < 2 ^ 100 \<and> list_all (\<lambda>l. l < 2 ^ H_TREE) (si_leafIndices w))"

text \<open>A request that its circuit accepts and that carries the leg out.\<close>

definition honest_request :: "hash2 \<Rightarrow> hashN \<Rightarrow> spend_context \<Rightarrow> spend_args \<Rightarrow> spend_leg \<Rightarrow> proving_request \<Rightarrow> bool" where
  "honest_request h hN cx args step req \<longleftrightarrow>
     (request_in_range req \<longrightarrow> circuit_accepts h hN req \<and>
        (\<exists>identity inputs. length inputs = length (leg_inputs step) \<and> carries_out identity (legAction step inputs cx args) (withdraw_target step cx args) req))"

definition leg_trace ::
  "hash2 \<Rightarrow> hashN \<Rightarrow> spend_context \<Rightarrow> spend_args \<Rightarrow> spend_leg \<Rightarrow> edge_call list \<Rightarrow> 'e + 'a \<Rightarrow> bool" where
  "leg_trace h hN cx args step xs r \<longleftrightarrow>
     (\<forall>req. CallProve req \<in> set xs \<longrightarrow> honest_request h hN cx args step req) \<and>
     (case r of Inr _ \<Rightarrow> leg_shape step xs | Inl _ \<Rightarrow> (\<exists>ys. prefix xs ys \<and> leg_shape step ys))"

subsection \<open>The pieces of a leg\<close>

lemma poll_invariant:
  assumes "\<And>w. P w \<Longrightarrow> P (sleep interval w)" "\<And>w. P w \<Longrightarrow> P (fst (load w))" "P w"
  shows "P (fst (poll_attempt sleep interval cap load accept elapsed prev w))"
  using assms
proof (induction sleep interval cap load accept elapsed prev w rule: poll_attempt.induct)
  case (1 sleep interval cap load accept elapsed prev w)
  show ?case
  proof (cases "elapsed \<ge> cap \<or> interval = 0")
    case True
    then show ?thesis using 1(5) by (subst poll_attempt.simps) simp
  next
    case False
    obtain w1 r where l: "load (sleep interval w) = (w1, r)" by fastforce
    have "P w1" using 1(3) [OF 1(5)] 1(4) l by (metis fst_conv)
    then show ?thesis using 1 False l by (subst poll_attempt.simps) (auto split: sum.split)
  qed
qed

lemma family_edges [simp]:
  "lf_ensureChain (enterpriseFamily h hN (logged_io io) cx args) = logged CallAlign (io_ensureChain io)"
  "lf_guardPool (enterpriseFamily h hN (logged_io io) cx args) = Some (logged CallGuard (io_assertPoolKemEpoch io))"
  "lf_unlock (enterpriseFamily h hN (logged_io io) cx args) = logged CallUnlock (io_unlock io (cx_sessionPubkey cx))"
  "lf_refineIdentity (enterpriseFamily h hN (logged_io io) cx args) = Inr"
  "lf_getHead (enterpriseFamily h hN (logged_io io) cx args) = logged CallHead (io_getHead io)"
  "lf_readPath (enterpriseFamily h hN (logged_io io) cx args) i l = logged (CallPath l) (io_getSignedPath io i l)"
  "lf_buildLeg (enterpriseFamily h hN (logged_io io) cx args) = enterprise_build h hN (logged_io io) cx args"
  "lf_prove (enterpriseFamily h hN (logged_io io) cx args) r = logged (CallProve r) (io_prove io r)"
  "lf_reloadNotes (enterpriseFamily h hN (logged_io io) cx args) = logged CallReload (io_reloadNotes io)"
  by (simp_all add: enterpriseFamily_def logged_io_def)

lemma emits_await:
  "emits (awaitMergedNote hN (enterpriseFamily h hN (logged_io io) cx args) identity v salt) (\<lambda>xs r. \<exists>k. xs = replicate k CallReload)"
proof -
  let ?f = "enterpriseFamily h hN (logged_io io) cx args"
  have *: "\<exists>k. snd (fst (pollUntil (lf_sleep ?f) (lf_intervalMs ?f) (lf_capMs ?f) (lf_reloadNotes ?f) accept (w, tr))) = tr @ replicate k CallReload"
    for accept w tr
    unfolding pollUntil_def
  proof (rule poll_invariant [where P = "\<lambda>s. \<exists>k. snd s = tr @ replicate k CallReload"])
    show "\<exists>k. snd (w, tr) = tr @ replicate k CallReload" by (intro exI [of _ 0]) simp
  next
    fix s :: "'a \<times> edge_call list" assume "\<exists>k. snd s = tr @ replicate k CallReload"
    then obtain k where "snd s = tr @ replicate k CallReload" ..
    then have "snd (fst (lf_reloadNotes ?f s)) = tr @ replicate (Suc k) CallReload"
      by (cases s) (auto simp: enterpriseFamily_def logged_io_def logged_def replicate_append_same split: prod.split)
    then show "\<exists>k. snd (fst (lf_reloadNotes ?f s)) = tr @ replicate k CallReload" by blast
  qed (simp add: enterpriseFamily_def logged_io_def)
  have **: "\<exists>w' k r. awaitMergedNote hN ?f identity v salt (w, tr) = ((w', tr @ replicate k CallReload), r)" for w tr
  proof (cases "js_BigInt salt")
    case None
    then show ?thesis by (auto simp: awaitMergedNote_def intro: exI [of _ 0])
  next
    case (Some s)
    let ?wanted = "js_toString (commitment hN v s (lf_publicKey ?f identity))"
    obtain w1 tr1 landed prev where p: "pollUntil (lf_sleep ?f) (lf_intervalMs ?f) (lf_capMs ?f) (lf_reloadNotes ?f)
        (\<lambda>ns. merged_seen ?wanted ns \<noteq> None) (w, tr) = ((w1, tr1), landed, prev)" by (metis prod.collapse)
    obtain k where "tr1 = tr @ replicate k CallReload" using * [of "\<lambda>ns. merged_seen ?wanted ns \<noteq> None" w tr] p by auto
    then show ?thesis using Some p by (auto simp: awaitMergedNote_def Let_def split: option.split)
  qed
  show ?thesis unfolding emits_def using ** by blast
qed

text \<open>The guards and the unlock, whatever fails.\<close>

definition derived :: "wallet_identity \<Rightarrow> bool" where
  "derived i \<longleftrightarrow> (\<exists>sk. deriveKeypair sk = Some (wi_keypair i))"

definition unlock_derived :: "('w, 'e, 'c) spend_io \<Rightarrow> bool" where
  "unlock_derived io \<longleftrightarrow> (\<forall>pk w w' i. io_unlock io pk w = (w', Inr i) \<longrightarrow> derived i)"

abbreviation guard_calls :: "edge_call list" where
  "guard_calls \<equiv> [CallAlign, CallGuard, CallUnlock]"

lemma emits_openSession:
  assumes unlock: "unlock_derived io"
  shows "emits (openSession (enterpriseFamily h hN (logged_io io) cx args) (quiet_stage onStage) leg)
    (\<lambda>xs r. case r of Inl _ \<Rightarrow> prefix xs guard_calls | Inr i \<Rightarrow> xs = guard_calls \<and> derived i)" (is "emits (openSession ?f _ _) ?L")
proof -
  have "emits (andThen (tell (quiet_stage onStage (if locked then StUnlock else StAssemble) leg)) (\<lambda>_.
      andThen (lf_ensureChain ?f) (\<lambda>_.
      andThen (case lf_guardPool ?f of None \<Rightarrow> ret () | Some g \<Rightarrow> g) (\<lambda>_.
      andThen (andThen (lf_unlock ?f) (\<lambda>k. lift_result (lf_refineIdentity ?f k))) (\<lambda>identity.
      andThen (if locked then tell (quiet_stage onStage StAssemble leg) else ret ()) (\<lambda>_.
      ret identity)))))) ?L" for locked
    unfolding family_edges option.case andThen_assoc
    apply (rule emits_stage_then)
    apply (rule emits_call_then, simp)
    apply (rule emits_call_then, simp)
    apply (rule emits_call_then, simp)
    apply (rule emits_lift_then, simp)
    apply (rule emits_optional_then)
    apply (rule emits_ret)
    using unlock apply (auto simp: unlock_derived_def)
    done
  then show ?thesis unfolding openSession_def Let_def emits_def by blast
qed

lemma emits_paths:
  fixes ns :: "input_note list"
  defines "leaves \<equiv> map (\<lambda>n. nat (in_leaf n)) ns"
  shows "emits (read_paths (enterpriseFamily h hN (logged_io io) cx args) identity root ns)
    (\<lambda>xs r. case r of Inl _ \<Rightarrow> prefix xs (map CallPath leaves) | Inr ms \<Rightarrow> xs = map CallPath leaves \<and> length ms = length ns)"
  unfolding leaves_def
proof (induction ns)
  case Nil
  show ?case by (simp add: emits_ret)
next
  case (Cons n ns)
  show ?case
    unfolding read_paths.simps family_edges
    apply (rule emits_call_then, simp)
    apply (rule emits_andThen [OF Cons])
     apply simp
    apply (rule emits_ret)
    apply simp
    done
qed

lemma emits_fetch:
  "emits (fetchMemberships (enterpriseFamily h hN (logged_io io) cx args) identity inputs)
    (\<lambda>xs r. let ys = CallHead # map CallPath (map (\<lambda>n. nat (in_leaf n)) inputs) in
       case r of Inl _ \<Rightarrow> prefix xs ys | Inr ms \<Rightarrow> xs = ys)"
  unfolding fetchMemberships_def family_edges
  by (rule emits_call_then, simp) (rule emits_mono [OF emits_paths], auto simp: Let_def split: sum.splits)

lemma draw_list_silent: "\<exists>w' xs. draw_list n (silent rand) (w, tr) = ((w', tr), xs)"
proof (induction n arbitrary: w)
  case (Suc n)
  obtain w1 x where r: "rand w = (w1, x)" by fastforce
  obtain w2 xs where "draw_list n (silent rand) (w1, tr) = ((w2, tr), xs)" using Suc [of w1] by blast
  then show ?case using r by (simp add: silent_def)
qed simp

lemma fresh_silent: "\<exists>w' c. freshSpendCrypto a (silent rand) (silent kem) (w, tr) = ((w', tr), c)"
proof -
  obtain w1 ss ct where 1: "silent kem (w, tr) = ((w1, tr), ss, ct)" by (cases "kem w") (auto simp: silent_def)
  have r: "\<exists>w' x. silent rand (w, tr) = ((w', tr), x)" for w by (cases "rand w") (simp add: silent_def)
  obtain w2 x2 where 2: "silent rand (w1, tr) = ((w2, tr), x2)" using r by blast
  obtain w3 x3 where 3: "silent rand (w2, tr) = ((w3, tr), x3)" using r by blast
  obtain w4 x4 where 4: "silent rand (w3, tr) = ((w4, tr), x4)" using r by blast
  obtain w5 x5 where 5: "draw_list MAX_INPUT_PADS (silent rand) (w4, tr) = ((w5, tr), x5)" using draw_list_silent [of MAX_INPUT_PADS rand w4 tr] by auto
  obtain w6 x6 where 6: "silent rand (w5, tr) = ((w6, tr), x6)" using r by blast
  obtain w7 x7 where 7: "draw_list MAX_OUTPUT_PADS (silent rand) (w6, tr) = ((w7, tr), x7)" using draw_list_silent [of MAX_OUTPUT_PADS rand w6 tr] by auto
  show ?thesis by (simp add: freshSpendCrypto_def 1 2 3 4 5 6 7)
qed

text \<open>The ranges of a request are those of the notes it was built from.\<close>

lemma assemble_ranges:
  assumes "assembleInputs h hN self inputs ms pads arity = Inr ins"
  shows "sum_list (map slot_value (as_slots ins)) = as_inputTotal ins"
    "list_all (\<lambda>l. l < b) (map slot_leaf (as_slots ins)) \<Longrightarrow> list_all (\<lambda>m. mb_leafIndex m < b) ms"
proof -
  let ?n = "length inputs" and ?root = "mb_root (ms ! 0)"
  obtain slots where n: "length ms = ?n"
    and t: "traverse (real_slot hN self) (zip [0..<?n] (zip inputs ms)) = Inr slots"
    and ins: "ins = \<lparr>as_slots = slots @ map (pad_slot hN self) (take (arity - ?n) pads), as_root = ?root,
        as_inputTotal = sum_list (map slot_value slots), as_membershipOk = list_all (path_ok h ?root) slots\<rparr>"
    using assms by (auto simp: assembleInputs_def Let_def split: if_splits option.splits sum.splits)
  have zs: "sum_list (map (\<lambda>_. 0 :: int) xs) = 0" for xs :: "int list" by (induction xs) auto
  show "sum_list (map slot_value (as_slots ins)) = as_inputTotal ins" by (simp add: ins pad_slot_def comp_def zs)
  note L = traverse_Inr [OF t]
  have at: "slot_leaf (slots ! i) = mb_leafIndex (ms ! i) \<and> i < length slots" if "i < ?n" for i
    using list_all2_nthD [OF L, of i] list_all2_lengthD [OF L] that n by (auto simp: real_slot_Inr)
  assume "list_all (\<lambda>l. l < b) (map slot_leaf (as_slots ins))"
  then have "list_all (\<lambda>sl. slot_leaf sl < b) slots" by (simp add: ins list.pred_map comp_def)
  then have "slot_leaf (slots ! i) < b" if "i < ?n" for i using at [OF that] unfolding list_all_length by blast
  then show "list_all (\<lambda>m. mb_leafIndex m < b) ms" using at n by (simp add: list_all_length)
qed

lemma built_ranges:
  assumes b: "buildRequest h hN a identity ms c recipient = Inr (req, m)" and r: "request_in_range req"
  shows "sm_inputTotal m < 2 ^ 100" "list_all (\<lambda>m. mb_leafIndex m < 2 ^ H_TREE) ms"
proof -
  obtain arity ins outs where a: "assembleInputs h hN (wi_keypair identity) (act_inputs a) ms (sc_padSalts c) arity = Inr ins"
    and m: "sm_inputTotal m = as_inputTotal ins"
    and q: "(\<exists>f \<in> {TransferRequest, Transfer10x2Request}. req = f (witness_of hN (wi_keypair identity) ins c outs)) \<or>
       (\<exists>r. req = WithdrawRequest (witness_of hN (wi_keypair identity) ins c outs) r)"
    using b
    by (fastforce simp: buildRequest_def buildWithdrawRequest_def buildTransferRequest_def buildTransfer10x2Request_def
        tag_request_Inr Let_def meta_of_def spendMeta_def split: if_splits option.splits sum.splits elim: two_output_spend_Inr)
  have "sum_list (map slot_value (as_slots ins)) < 2 ^ 100 \<and> list_all (\<lambda>l. l < 2 ^ H_TREE) (map slot_leaf (as_slots ins))"
    using q r by (auto simp: request_in_range_def witness_of_def)
  then show "sm_inputTotal m < 2 ^ 100" "list_all (\<lambda>m. mb_leafIndex m < 2 ^ H_TREE) ms"
    using assemble_ranges [OF a] m by auto
qed

lemma legAction_circuit [simp]: "act_circuit (legAction step inputs cx args) = legCircuit step"
  by (cases step) simp_all

lemma emits_submit:
  "emits (submit_leg (logged_io io) cx stealth circuit kem calldata) (\<lambda>ys q. ys = [CallSubmit circuit])"
  by (cases circuit) (auto simp: submit_leg_def logged_io_def intro: emits_logged split: option.split)

lemma emits_build:
  assumes len: "length inputs = length (leg_inputs step)" and id: "derived identity"
  shows "emits (enterprise_build h hN (logged_io io) cx args step inputs identity ms)
    (\<lambda>xs r. xs = [] \<and> (\<forall>b. r = Inr b \<longrightarrow>
       (bl_membershipOk b \<longrightarrow> honest_request h hN cx args step (bl_request b)) \<and>
       (\<forall>cd. emits (bl_submit b cd) (\<lambda>ys q. ys = [CallSubmit (legCircuit step)]))))"
    (is "emits _ ?L")
proof (rule emitsI)
  fix w tr
  let ?a = "legAction step inputs cx args" and ?t = "withdraw_target step cx args"
  obtain w1 c where c: "freshSpendCrypto (cx_arbiter cx) (silent (io_rand io)) (silent (io_drawKem io)) (w, tr) = ((w1, tr), c)"
    using fresh_silent [of "cx_arbiter cx" "io_rand io" "io_drawKem io" w tr] by auto
  show "\<exists>w' xs r. enterprise_build h hN (logged_io io) cx args step inputs identity ms (w, tr) = ((w', tr @ xs), r) \<and> ?L xs r"
  proof (cases "buildRequest h hN ?a identity ms c ?t")
    case (Inl e)
    then show ?thesis using c by (intro exI [of _ w1] exI [of _ "[]"]) (simp add: enterprise_build_def logged_io_def)
  next
    case (Inr q)
    obtain req m where q: "q = (req, m)" by fastforce
    have honest: "honest_request h hN cx args step req" if ok: "sm_membershipOk m"
    proof -
      obtain sk where sk: "deriveKeypair sk = Some (wi_keypair identity)" using id by (auto simp: derived_def)
      have "circuit_accepts h hN req \<and> carries_out identity ?a ?t req" if "request_in_range req"
        by (rule built_request_ok [OF Inr [unfolded q] ok built_ranges [OF Inr [unfolded q] that] sk])
      then show ?thesis unfolding honest_request_def using len by blast
    qed
    let ?b = "\<lparr>bl_request = req, bl_membershipOk = sm_membershipOk m,
        bl_payeeSalt = (case sc_payeeSalt c of None \<Rightarrow> '''' | Some s \<Rightarrow> js_toString s),
        bl_submit = submit_leg (logged_io io) cx (if is_merge step then None else sg_stealth args) (legCircuit step) (sc_kemCiphertext c)\<rparr>"
    have "enterprise_build h hN (logged_io io) cx args step inputs identity ms (w, tr) = ((w1, tr @ []), Inr ?b)"
      using c Inr q by (simp add: enterprise_build_def logged_io_def)
    then show ?thesis using honest by (intro exI [of _ w1] exI [of _ "[]"] exI [of _ "Inr ?b"]) (simp add: emits_submit)
  qed
qed

definition session_calls :: "nat list \<Rightarrow> edge_call list" where
  "session_calls leaves = [CallAlign, CallGuard, CallUnlock, CallHead] @ map CallPath leaves"

lemma trace_early:
  assumes "prefix xs (session_calls leaves)" "length leaves = length (leg_inputs step)"
  shows "leg_trace h hN cx args step xs (Inl e)"
proof -
  let ?ys = "session_calls leaves @ [CallProve undefined, CallSubmit (legCircuit step)]"
  have "set xs \<subseteq> set (session_calls leaves)" using assms(1) by (rule set_mono_prefix)
  moreover have "leg_shape step ?ys" unfolding leg_shape_def session_calls_def
    using assms(2) by (intro exI [of _ leaves] exI [of _ undefined] exI [of _ 0]) simp
  moreover have "prefix xs ?ys" using assms(1) by (rule prefix_prefix)
  ultimately show ?thesis by (auto simp: leg_trace_def session_calls_def)
qed

lemma trace_late:
  assumes "length leaves = length (leg_inputs step)" "honest_request h hN cx args step req" "\<not> is_merge step \<longrightarrow> k = 0"
    and "case r of Inl _ \<Rightarrow> prefix ys (CallProve req # CallSubmit (legCircuit step) # replicate k CallReload)
       | Inr _ \<Rightarrow> ys = CallProve req # CallSubmit (legCircuit step) # replicate k CallReload"
  shows "leg_trace h hN cx args step (session_calls leaves @ ys) r"
proof -
  let ?zs = "CallProve req # CallSubmit (legCircuit step) # replicate k CallReload"
  have p: "prefix ys ?zs" using assms(4) by (cases r) auto
  have "set ys \<subseteq> {CallProve req, CallSubmit (legCircuit step), CallReload}" using set_mono_prefix [OF p] by auto
  then have only: "CallProve q \<in> set (session_calls leaves @ ys) \<Longrightarrow> q = req" for q by (auto simp: session_calls_def)
  have shape: "leg_shape step (session_calls leaves @ ?zs)" unfolding leg_shape_def session_calls_def
    using assms(1, 3) by (intro exI [of _ leaves] exI [of _ req] exI [of _ k]) simp
  have pre: "prefix (session_calls leaves @ ys) (session_calls leaves @ ?zs)" using p by simp
  show ?thesis
  proof (cases r)
    case (Inl e)
    show ?thesis unfolding leg_trace_def Inl sum.case using only shape pre assms(2) by blast
  next
    case (Inr x)
    then have "ys = ?zs" using assms(4) by simp
    then show ?thesis unfolding leg_trace_def Inr sum.case using only shape assms(2) by blast
  qed
qed

lemma resolve_length: "resolveInputs planned merged = Inr inputs \<Longrightarrow> length inputs = length planned"
  unfolding resolveInputs_def by (drule traverse_Inr) (simp add: list_all2_lengthD)

text \<open>A leg leaves the trace of a whole leg, or when it fails a prefix of one.\<close>

lemma emits_run_leg:
  assumes unlock: "unlock_derived io"
  shows "emits (run_leg hN (enterpriseFamily h hN (logged_io io) cx args) (quiet_stage onStage) lp merged step)
    (leg_trace h hN cx args step)"
  unfolding run_leg_def
proof (rule emits_andThen [OF emits_openSession [OF unlock]])
  fix xs e
  assume "case Inl e of Inl _ \<Rightarrow> prefix xs guard_calls | Inr i \<Rightarrow> xs = guard_calls \<and> derived i"
  then have "prefix xs (session_calls (replicate (length (leg_inputs step)) 0))"
    by (auto simp: session_calls_def intro: prefix_order.trans [of _ guard_calls])
  then show "leg_trace h hN cx args step xs (Inl e)" by (rule trace_early) simp
next
  fix xs identity
  assume "case Inr identity of Inl _ \<Rightarrow> prefix xs guard_calls | Inr i \<Rightarrow> xs = guard_calls \<and> derived i"
  then have xs: "xs = guard_calls" and id: "derived identity" by auto
  show "emits (andThen (lift_result (resolveInputs (leg_inputs step) merged)) (\<lambda>inputs.
     andThen (fetchMemberships (enterpriseFamily h hN (logged_io io) cx args) identity inputs) (\<lambda>memberships.
     andThen (lf_buildLeg (enterpriseFamily h hN (logged_io io) cx args) step inputs identity memberships) (\<lambda>built.
     if \<not> bl_membershipOk built then throw BalanceChanged
     else
     andThen (tell (quiet_stage onStage StProve lp)) (\<lambda>_.
     andThen (lf_prove (enterpriseFamily h hN (logged_io io) cx args) (bl_request built)) (\<lambda>calldata.
     andThen (tell (quiet_stage onStage StSubmit lp)) (\<lambda>_.
     andThen (bl_submit built calldata) (\<lambda>res.
     case step of
       MergeLeg ins mergedValue \<Rightarrow>
         andThen (tell (quiet_stage onStage StWaiting lp)) (\<lambda>_.
         andThen (awaitMergedNote hN (enterpriseFamily h hN (logged_io io) cx args) identity mergedValue (bl_payeeSalt built)) (\<lambda>n.
         ret (res, Some n)))
     | TerminalLeg c ins \<Rightarrow> ret (res, None))))))))) (\<lambda>ys r. leg_trace h hN cx args step (xs @ ys) r)" (is "emits (andThen (lift_result _) ?rest) _")
  proof (rule emits_lift_then)
    fix e
    show "leg_trace h hN cx args step (xs @ []) (Inl e)"
      by (rule trace_early [of _ "replicate (length (leg_inputs step)) 0"]) (simp_all add: xs session_calls_def)
  next
    fix inputs
    assume "resolveInputs (leg_inputs step) merged = Inr inputs"
    then have len: "length inputs = length (leg_inputs step)" by (rule resolve_length)
    let ?ls = "map (\<lambda>n. nat (in_leaf n)) inputs"
    have sess: "guard_calls @ CallHead # map CallPath ?ls = session_calls ?ls" by (simp add: session_calls_def)
    show "emits (?rest inputs) (\<lambda>ys r. leg_trace h hN cx args step (xs @ ys) r)"
    proof (rule emits_andThen [OF emits_fetch], goal_cases)
      case (1 ys e)
      then have "prefix (xs @ ys) (session_calls ?ls)" unfolding sess [symmetric] xs by (simp add: Let_def)
      then show ?case by (rule trace_early) (simp add: len)
    next
      case (2 ys ms)
      then have ys: "xs @ ys = session_calls ?ls" unfolding sess [symmetric] xs by (simp add: Let_def)
      show ?case
        unfolding family_edges
      proof (rule emits_andThen [OF emits_build [OF len id]], goal_cases)
        case (1 zs e)
        then show ?case using len by (intro trace_early [of _ ?ls]) (simp_all add: ys flip: append_assoc)
      next
        case (2 zs b)
        then have zs: "zs = []" and ok: "bl_membershipOk b \<Longrightarrow> honest_request h hN cx args step (bl_request b)"
          and sub: "\<And>cd. emits (bl_submit b cd) (\<lambda>ys q. ys = [CallSubmit (legCircuit step)])" by auto
        show ?case
        proof (cases "bl_membershipOk b")
          case False
          then show ?thesis using len
            by (auto intro!: emits_throw trace_early [of _ ?ls] simp: ys zs simp flip: append_assoc)
        next
          case True
          let ?req = "bl_request b" and ?c = "CallSubmit (legCircuit step)"
          have late: "leg_trace h hN cx args step (xs @ ys @ zs @ us) r"
            if "\<not> is_merge step \<longrightarrow> k = 0" "case r of Inl _ \<Rightarrow> prefix us (CallProve ?req # ?c # replicate k CallReload)
               | Inr _ \<Rightarrow> us = CallProve ?req # ?c # replicate k CallReload" for us k and r :: "'b leg_error + spend_outcome \<times> input_note option"
            using trace_late [where leaves = ?ls and step = step and h = h and hN = hN and cx = cx and args = args
                and req = ?req and k = k and r = r and ys = us] ok [OF True] that len
            by (simp add: ys zs flip: append_assoc)
          have after: "emits (case step of
              MergeLeg ins mergedValue \<Rightarrow>
                andThen (tell (quiet_stage onStage StWaiting lp)) (\<lambda>_.
                andThen (awaitMergedNote hN (enterpriseFamily h hN (logged_io io) cx args) identity mergedValue (bl_payeeSalt b)) (\<lambda>n.
                ret (res, Some n)))
            | TerminalLeg c ins \<Rightarrow> ret (res, None))
            (\<lambda>us r. leg_trace h hN cx args step (xs @ ys @ zs @ CallProve ?req # ?c # us) r)" for res :: spend_outcome
          proof (cases step)
            case (MergeLeg ins v)
            have waits: "leg_trace h hN cx args step (xs @ ys @ zs @ CallProve ?req # ?c # replicate k CallReload) r"
              for k and r :: "'b leg_error + spend_outcome \<times> input_note option"
              using late [of k "CallProve ?req # ?c # replicate k CallReload" r] MergeLeg by (cases r) simp_all
            show ?thesis unfolding MergeLeg spend_leg.case
              by (rule emits_stage_then, rule emits_andThen [OF emits_await])
                (use waits MergeLeg in \<open>auto intro!: emits_ret\<close>)
          next
            case (TerminalLeg c ins)
            then show ?thesis using late [of 0] by (simp add: emits_ret)
          qed
          show ?thesis unfolding if_not_P [OF not_not [THEN iffD2, OF True]]
            by (rule emits_stage_then, rule emits_call_then, rule late [of 0], simp, simp,
                rule emits_stage_then, rule emits_andThen [OF sub], rule late [of 0], simp, simp)
              (use after in simp)
        qed
      qed
    qed
  qed
qed

subsection \<open>The chain\<close>

text \<open>Whole legs in the order of the plan, then for a failed run the beginning of the next one.\<close>

definition chain_trace ::
  "hash2 \<Rightarrow> hashN \<Rightarrow> spend_context \<Rightarrow> spend_args \<Rightarrow> spend_leg list \<Rightarrow> edge_call list \<Rightarrow> 'e + 'a \<Rightarrow> bool" where
  "chain_trace h hN cx args plan tr r \<longleftrightarrow>
     (\<exists>full part. tr = concat full @ part \<and>
        (\<forall>i<length full. leg_trace h hN cx args (plan ! i) (full ! i) (Inr () :: unit + unit)) \<and>
        (case r of
           Inr _ \<Rightarrow> length full = length plan \<and> part = []
         | Inl _ \<Rightarrow> length full < length plan \<and> leg_trace h hN cx args (plan ! length full) part (Inl () :: unit + unit)))"

lemma leg_trace_Inr: "leg_trace h hN cx args step xs (Inr x) \<Longrightarrow> leg_trace h hN cx args step xs (Inr y)"
  by (simp add: leg_trace_def)

lemma leg_trace_Inl: "leg_trace h hN cx args step xs (Inl x) \<Longrightarrow> leg_trace h hN cx args step xs (Inl y)"
  by (simp add: leg_trace_def)

lemma chain_trace_Cons:
  assumes "leg_trace h hN cx args step xs (Inr x)" "chain_trace h hN cx args steps tr r"
  shows "chain_trace h hN cx args (step # steps) (xs @ tr) r"
proof -
  obtain full part where f: "tr = concat full @ part"
    "\<forall>i<length full. leg_trace h hN cx args (steps ! i) (full ! i) (Inr () :: unit + unit)"
    "case r of Inr _ \<Rightarrow> length full = length steps \<and> part = []
     | Inl _ \<Rightarrow> length full < length steps \<and> leg_trace h hN cx args (steps ! length full) part (Inl () :: unit + unit)"
    using assms(2) unfolding chain_trace_def by blast
  have "\<forall>i<length (xs # full). leg_trace h hN cx args ((step # steps) ! i) ((xs # full) ! i) (Inr () :: unit + unit)"
    using f(2) leg_trace_Inr [OF assms(1)] by (auto simp: less_Suc_eq_0_disj)
  then show ?thesis unfolding chain_trace_def using f(1, 3)
    by (intro exI [of _ "xs # full"] exI [of _ part]) (auto split: sum.splits)
qed

lemma run_legs_trace:
  assumes unlock: "unlock_derived io"
  shows "\<exists>w' xs r. run_legs hN (enterpriseFamily h hN (logged_io io) cx args) (quiet_stage onStage) cnt run steps (w, tr) = ((w', tr @ xs), r) \<and>
    chain_trace h hN cx args steps xs r \<and> (\<forall>e. r = Inl e \<longrightarrow> (\<exists>c. e = reassure cnt c))"
proof (induction steps arbitrary: run w tr)
  case Nil
  show ?case by (auto simp: chain_trace_def intro: exI [of _ "[]"])
next
  case (Cons step steps)
  let ?f = "enterpriseFamily h hN (logged_io io) cx args" and ?lp = "\<lparr>lp_index = length (lr_outcomes run), lp_count = cnt\<rparr>"
  obtain w1 xs q where l: "run_leg hN ?f (quiet_stage onStage) ?lp (lr_merged run) step (w, tr) = ((w1, tr @ xs), q)"
    "leg_trace h hN cx args step xs q"
    using emits_run_leg [OF unlock, unfolded emits_def, rule_format, of hN h cx args onStage ?lp "lr_merged run" step w tr] by blast
  show ?case
  proof (cases q)
    case (Inl e)
    have "chain_trace h hN cx args (step # steps) xs (Inl x)" for x
      unfolding chain_trace_def using leg_trace_Inl [OF l(2) [unfolded Inl]] by (intro exI [of _ "[]"] exI [of _ xs]) simp
    then show ?thesis using l(1) Inl by auto
  next
    case (Inr p)
    obtain res nt where p: "p = (res, nt)" by fastforce
    obtain w2 ys r where 2: "run_legs hN ?f (quiet_stage onStage) cnt
        \<lparr>lr_outcomes = lr_outcomes run @ [res], lr_merged = lr_merged run @ [nt]\<rparr> steps (w1, tr @ xs) = ((w2, (tr @ xs) @ ys), r)"
      "chain_trace h hN cx args steps ys r" "\<forall>e. r = Inl e \<longrightarrow> (\<exists>c. e = reassure cnt c)" using Cons by blast
    have "chain_trace h hN cx args (step # steps) (xs @ ys) r" by (rule chain_trace_Cons [OF l(2) [unfolded Inr] 2(2)])
    then show ?thesis using l(1) Inr p 2 by auto
  qed
qed


text \<open>A withdraw of 50 from one note of 70, over edges that always answer.\<close>

definition demo_edges :: "(nat, unit, unit) spend_io" where
  "demo_edges =
     \<lparr>io_ensureChain = ret (), io_assertPoolKemEpoch = ret (), io_isUnlocked = (\<lambda>w. False), io_unlock = (\<lambda>pk. ret demo_identity),
      io_getHead = ret (mb_root demo_member), io_getSignedPath = (\<lambda>i l. ret (mb_pathElements demo_member)), io_prove = (\<lambda>r. ret ()),
      io_submitTransfer = (\<lambda>c k. throw NotIndexed), io_submitTransfer10x2 = (\<lambda>c k. throw NotIndexed),
      io_submitWithdraw = (\<lambda>c k s. ret \<lparr>oc_txHash = ''t'', oc_explorerUrl = ''u''\<rparr>),
      io_submitWithdrawRelayed = (\<lambda>u c k s. throw NotIndexed), io_reloadNotes = ret [], io_rand = (\<lambda>w. (Suc w, int w)),
      io_drawKem = (\<lambda>w. (w, (1, 2), '''')), io_sleep = (\<lambda>ms w. w), io_intervalMs = 3000, io_capMs = 30000\<rparr>"

definition demo_context :: spend_context where
  "demo_context = \<lparr>cx_address = ''0xff'', cx_sessionPubkey = ''0x01'', cx_relayerUrl = None,
     cx_notes = [\<lparr>note_value = 70, note_salt = ''9'', note_leaf = 5, note_spent = False\<rparr>], cx_arbiter = Base8\<rparr>"

definition demo_spend :: spend_args where
  "demo_spend = \<lparr>sg_to = None, sg_amount = ''50'', sg_stealth = None, sg_withdrawTo = None\<rparr>"

definition demo_plan :: "spend_leg list" where
  "demo_plan = [TerminalLeg CWithdraw [\<lparr>in_value = 70, in_salt = ''9'', in_leaf = 5\<rparr>]]"

lemma demo_planned: "planSpendChain Withdraw (cx_notes demo_context) (sg_amount demo_spend) = Inr demo_plan"
  by code_simp

lemma demo_unlock: "unlock_derived demo_edges"
  using generator_key by (auto simp: unlock_derived_def demo_edges_def ret_def derived_def demo_identity_def)


end
