(* ===== verification/Consumer_Ops.thy ===== *)
theory Consumer_Ops
  imports Leg_Driver
begin

text \<open>
  The consumer family of the client: recipients, sealed outputs and per-transaction draws
  (\<open>packages/client/src/ops/consumer/plan.ts\<close>), the request builders (\<open>ops/consumer/requests.ts\<close>), the leg
  family and the deposit of \<open>ops/consumer/run.ts\<close>, and the enterprise deposit of \<open>ops/deposit.ts\<close>.

  The encapsulation of ML-KEM is the argument \<open>encaps\<close>; a production run draws its randomness inside, so
  no seed is passed and each output has an encapsulation of its own. The input side, the planner and the drivers are those of the enterprise family.
\<close>

subsection \<open>Recipients and identities\<close>

record consumer_recipient =
  rc_owner :: string
  rc_noteViewPub :: string
  rc_kemEk :: string

record name_triple =
  nt_owner :: string
  nt_noteViewPub :: "string option"
  nt_kemEk :: "string option"

record consumer_identity = wallet_identity +
  ci_viewKeypair :: keypair
  ci_compressedViewPubkey :: string
  ci_kemEk :: bytes
  ci_kemDk :: bytes

definition NOTE_VIEW_PUB_ZERO :: string where
  "NOTE_VIEW_PUB_ZERO = ''0x'' @ replicate 64 (CHR ''0'')"

definition KEM_EK_ZERO :: string where
  "KEM_EK_ZERO = ''0x'' @ replicate 2368 (CHR ''0'')"

datatype consumer_op_error =
    SpendSide request_error | BadOwner addr_error | BadViewPub addr_error | BadKemHex | SealFailed consumer_error
  | NoConsumerIdentity | OutputCount | NegativeOutput nat | NoPayee

definition consumerRecipientOf :: "name_triple \<Rightarrow> consumer_op_error + consumer_recipient" where
  "consumerRecipientOf r =
     (case (nt_noteViewPub r, nt_kemEk r) of
        (Some v, Some k) \<Rightarrow>
          if v = NOTE_VIEW_PUB_ZERO \<or> k = KEM_EK_ZERO then Inl NoConsumerIdentity
          else Inr \<lparr>rc_owner = nt_owner r, rc_noteViewPub = v, rc_kemEk = k\<rparr>
      | _ \<Rightarrow> Inl NoConsumerIdentity)"

definition selfConsumerRecipient :: "consumer_identity \<Rightarrow> consumer_recipient" where
  "selfConsumerRecipient i =
     \<lparr>rc_owner = wi_compressedPubkey i, rc_noteViewPub = ci_compressedViewPubkey i, rc_kemEk = kemBytesToHex (ci_kemEk i)\<rparr>"

definition parsePoint :: "(addr_error \<Rightarrow> consumer_op_error) \<Rightarrow> string \<Rightarrow> consumer_op_error + point" where
  "parsePoint f hex = (case unpackPubkey (js_trim hex) of Inl e \<Rightarrow> Inl (f e) | Inr p \<Rightarrow> Inr p)"

definition parseKem :: "string \<Rightarrow> consumer_op_error + bytes" where
  "parseKem hex = (case kemHexToBytes hex of None \<Rightarrow> Inl BadKemHex | Some b \<Rightarrow> Inr b)"

definition assertConsumerRecipient :: "consumer_recipient \<Rightarrow> consumer_op_error + unit" where
  "assertConsumerRecipient r =
     (case parsePoint BadOwner (rc_owner r) of
        Inl e \<Rightarrow> Inl e
      | Inr _ \<Rightarrow> (case parsePoint BadViewPub (rc_noteViewPub r) of
                   Inl e \<Rightarrow> Inl e
                 | Inr _ \<Rightarrow> (case parseKem (rc_kemEk r) of Inl e \<Rightarrow> Inl e | Inr _ \<Rightarrow> Inr ())))"

subsection \<open>Draws\<close>

record consumer_crypto =
  cc_ecdhPrivateKey :: int
  cc_encryptionNonce :: int
  cc_payeeSalt :: "int option"
  cc_changeSalt :: int
  cc_padSalts :: "int list"

record consumer_deposit_crypto =
  cd_ecdhPrivateKey :: int
  cd_encryptionNonce :: int
  cd_salt0 :: int
  cd_salt1 :: int

definition freshConsumerDepositCrypto :: "('w \<Rightarrow> 'w \<times> int) \<Rightarrow> 'w \<Rightarrow> 'w \<times> consumer_deposit_crypto" where
  "freshConsumerDepositCrypto rand w =
     (let (w1, ecdh) = rand w; (w2, nonce) = rand w1; (w3, s0) = rand w2; (w4, s1) = rand w3
      in (w4, \<lparr>cd_ecdhPrivateKey = ecdh, cd_encryptionNonce = toEncryptionNonce nonce, cd_salt0 = s0, cd_salt1 = s1\<rparr>))"

definition freshConsumerSpendCrypto :: "('w \<Rightarrow> 'w \<times> int) \<Rightarrow> 'w \<Rightarrow> 'w \<times> consumer_crypto" where
  "freshConsumerSpendCrypto rand w =
     (let (w1, ecdh) = rand w; (w2, nonce) = rand w1; (w3, payee) = rand w2; (w4, change) = rand w3;
          (w5, pads) = draw_list (TRANSFER10_ARITY - 1) rand w4
      in (w5, \<lparr>cc_ecdhPrivateKey = ecdh, cc_encryptionNonce = toEncryptionNonce nonce, cc_payeeSalt = Some payee,
               cc_changeSalt = change, cc_padSalts = pads\<rparr>))"

datatype consumer_circuit = CTransferPriv | CTransfer10x2Priv | CWithdrawPriv

fun consumerCircuitOf :: "spend_circuit \<Rightarrow> consumer_circuit" where
  "consumerCircuitOf CTransfer = CTransferPriv"
| "consumerCircuitOf CTransfer10x2 = CTransfer10x2Priv"
| "consumerCircuitOf CWithdraw = CWithdrawPriv"

subsection \<open>Outputs\<close>

record output_spec =
  os_recipient :: consumer_recipient
  os_value :: int
  os_salt :: int

record planned_output =
  po_value :: int
  po_salt :: int
  po_spendPub :: point
  po_viewPub :: point
  po_seal :: sealed_output
  po_commitment :: int

text \<open>Every encapsulation draws afresh: \<open>encaps i\<close> is the one made for output \<open>i\<close>.\<close>

type_synonym kem_draws = "nat \<Rightarrow> bytes \<Rightarrow> bytes option \<Rightarrow> bytes \<times> bytes"

definition plan_output ::
  "hashN \<Rightarrow> perm4 \<Rightarrow> kem_draws \<Rightarrow> int \<Rightarrow> int \<Rightarrow> nat \<times> output_spec \<Rightarrow> consumer_op_error + planned_output" where
  "plan_output hN perm encaps ephemeral nonce x =
     (case x of (i, spec) \<Rightarrow>
     (case parsePoint BadOwner (rc_owner (os_recipient spec)) of
        Inl e \<Rightarrow> Inl e
      | Inr spendPub \<Rightarrow>
     (case parsePoint BadViewPub (rc_noteViewPub (os_recipient spec)) of
        Inl e \<Rightarrow> Inl e
      | Inr viewPub \<Rightarrow>
     (case parseKem (rc_kemEk (os_recipient spec)) of
        Inl e \<Rightarrow> Inl e
      | Inr ek \<Rightarrow>
     (case sealConsumerOutput hN perm (encaps i) (os_value spec) (os_salt spec) ephemeral viewPub ek nonce i None of
        Inl e \<Rightarrow> Inl (SealFailed e)
      | Inr so \<Rightarrow>
          Inr \<lparr>po_value = os_value spec, po_salt = os_salt spec, po_spendPub = spendPub, po_viewPub = viewPub, po_seal = so,
               po_commitment = commitment hN (os_value spec) (os_salt spec) spendPub\<rparr>)))))"

definition planConsumerOutputs ::
  "hashN \<Rightarrow> perm4 \<Rightarrow> kem_draws \<Rightarrow> int \<Rightarrow> int \<Rightarrow> output_spec list \<Rightarrow> consumer_op_error + planned_output list" where
  "planConsumerOutputs hN perm encaps ephemeral nonce specs =
     traverse (plan_output hN perm encaps ephemeral nonce) (zip [0..<length specs] specs)"

record consumer_outputs =
  co_commitments :: "int list"
  co_values :: "int list"
  co_salts :: "int list"
  co_owners :: "point list"
  co_views :: "point list"
  co_kemSs :: "(int \<times> int) list"

definition outputSide :: "planned_output list \<Rightarrow> consumer_outputs" where
  "outputSide outs =
     \<lparr>co_commitments = map po_commitment outs, co_values = map po_value outs, co_salts = map po_salt outs,
      co_owners = map po_spendPub outs, co_views = map po_viewPub outs, co_kemSs = map (\<lambda>o'. so_kemSs (po_seal o')) outs\<rparr>"

text \<open>\<open>sealMeta\<close>: the KEM ciphertexts and the view tags.\<close>

definition sealMeta :: "planned_output list \<Rightarrow> string list \<times> int list" where
  "sealMeta outs = (map (\<lambda>o'. kemBytesToHex (so_kemCiphertext (po_seal o'))) outs, map (\<lambda>o'. so_viewTag (po_seal o')) outs)"

subsection \<open>Requests\<close>

record consumer_input =
  cs_assembled :: assembled_inputs
  cs_ownerPrivateKey :: int
  cs_ecdhPrivateKey :: int
  cs_encryptionNonce :: int
  cs_outputs :: consumer_outputs

datatype consumer_request =
    DepositPrivRequest int int consumer_outputs
  | TransferPrivRequest consumer_input
  | Transfer10x2PrivRequest consumer_input
  | WithdrawPrivRequest consumer_input int

record consumer_meta = spend_meta +
  cm_kemCiphertexts :: "string list"
  cm_viewTags :: "int list"

definition consumerSpendMeta :: "assembled_inputs \<Rightarrow> int \<Rightarrow> int \<Rightarrow> planned_output list \<Rightarrow> consumer_meta" where
  "consumerSpendMeta ins amount change outs =
     spend_meta.extend (spendMeta ins amount change (map po_commitment outs) (map po_value outs))
       \<lparr>cm_kemCiphertexts = fst (sealMeta outs), cm_viewTags = snd (sealMeta outs)\<rparr>"

definition consumer_witness :: "keypair \<Rightarrow> assembled_inputs \<Rightarrow> consumer_crypto \<Rightarrow> planned_output list \<Rightarrow> consumer_input" where
  "consumer_witness self ins c outs =
     \<lparr>cs_assembled = ins, cs_ownerPrivateKey = formattedPrivateKey self, cs_ecdhPrivateKey = cc_ecdhPrivateKey c,
      cs_encryptionNonce = cc_encryptionNonce c, cs_outputs = outputSide outs\<rparr>"

text \<open>The request, with its \<open>ConsumerDepositMeta\<close> as (amount, KEM ciphertexts, view tags).\<close>

definition buildConsumerDepositRequest ::
  "hashN \<Rightarrow> perm4 \<Rightarrow> kem_draws \<Rightarrow> (consumer_recipient \<times> string) list \<Rightarrow> consumer_deposit_crypto \<Rightarrow>
     consumer_op_error + (consumer_request \<times> int \<times> string list \<times> int list)" where
  "buildConsumerDepositRequest hN perm encaps outputs c =
     (if length outputs \<noteq> 2 then Inl OutputCount
      else case traverse (\<lambda>o'. case js_BigInt (snd o') of None \<Rightarrow> Inl (SpendSide BadNumber) | Some v \<Rightarrow> Inr v) outputs of
        Inl e \<Rightarrow> Inl e
      | Inr vals \<Rightarrow>
          (case List.find (\<lambda>i. vals ! i < 0) [0..<length vals] of
             Some i \<Rightarrow> Inl (NegativeOutput i)
           | None \<Rightarrow>
               if vals ! 0 + vals ! 1 \<le> 0 then Inl (SpendSide AmountNotPositive)
               else (case planConsumerOutputs hN perm encaps (cd_ecdhPrivateKey c) (cd_encryptionNonce c)
                        (map (\<lambda>i. \<lparr>os_recipient = fst (outputs ! i), os_value = vals ! i,
                                   os_salt = [cd_salt0 c, cd_salt1 c] ! i\<rparr>) [0..<2]) of
                       Inl e \<Rightarrow> Inl e
                     | Inr outs \<Rightarrow>
                         Inr (DepositPrivRequest (cd_ecdhPrivateKey c) (cd_encryptionNonce c) (outputSide outs),
                              vals ! 0 + vals ! 1, fst (sealMeta outs), snd (sealMeta outs)))))"

definition consumerTransferParts ::
  "hash2 \<Rightarrow> hashN \<Rightarrow> perm4 \<Rightarrow> kem_draws \<Rightarrow> consumer_identity \<Rightarrow> input_note list \<Rightarrow> membership list \<Rightarrow> consumer_recipient \<Rightarrow>
     string \<Rightarrow> consumer_crypto \<Rightarrow> nat \<Rightarrow> consumer_op_error + (consumer_input \<times> consumer_meta)" where
  "consumerTransferParts h hN perm encaps identity inputs memberships recipient amount c arity =
     (case cc_payeeSalt c of
        None \<Rightarrow> Inl (SpendSide NoPayeeSalt)
      | Some payeeSalt \<Rightarrow>
     (case assembleInputs h hN (wi_keypair identity) inputs memberships (cc_padSalts c) arity of
        Inl e \<Rightarrow> Inl (SpendSide e)
      | Inr ins \<Rightarrow>
     (case parse_amount amount (as_inputTotal ins) of
        Inl e \<Rightarrow> Inl (SpendSide e)
      | Inr payVal \<Rightarrow>
     (let changeVal = as_inputTotal ins - payVal in
      case planConsumerOutputs hN perm encaps (cc_ecdhPrivateKey c) (cc_encryptionNonce c)
             [\<lparr>os_recipient = recipient, os_value = payVal, os_salt = payeeSalt\<rparr>,
              \<lparr>os_recipient = selfConsumerRecipient identity, os_value = changeVal, os_salt = cc_changeSalt c\<rparr>] of
        Inl e \<Rightarrow> Inl e
      | Inr outs \<Rightarrow> Inr (consumer_witness (wi_keypair identity) ins c outs, consumerSpendMeta ins payVal changeVal outs)))))"

definition tag_consumer where
  "tag_consumer f r = (case r of Inl e \<Rightarrow> Inl e | Inr (w, m) \<Rightarrow> Inr (f w, m))"

definition buildConsumerTransferRequest where
  "buildConsumerTransferRequest h hN perm encaps identity inputs memberships recipient amount c =
     tag_consumer TransferPrivRequest (consumerTransferParts h hN perm encaps identity inputs memberships recipient amount c 2)"

definition buildConsumerTransfer10x2Request where
  "buildConsumerTransfer10x2Request h hN perm encaps identity inputs memberships recipient amount c =
     tag_consumer Transfer10x2PrivRequest
       (consumerTransferParts h hN perm encaps identity inputs memberships recipient amount c TRANSFER10_ARITY)"

definition buildConsumerWithdrawRequest ::
  "hash2 \<Rightarrow> hashN \<Rightarrow> perm4 \<Rightarrow> kem_draws \<Rightarrow> consumer_identity \<Rightarrow> input_note list \<Rightarrow> membership list \<Rightarrow>
     string \<Rightarrow> consumer_crypto \<Rightarrow> string \<Rightarrow> consumer_op_error + (consumer_request \<times> consumer_meta)" where
  "buildConsumerWithdrawRequest h hN perm encaps identity inputs memberships amount c recipient =
     (case js_BigInt recipient of
        None \<Rightarrow> Inl (SpendSide BadNumber)
      | Some recipientBig \<Rightarrow>
          if recipientBig = 0 \<or> drop_bit 253 recipientBig \<noteq> 0 then Inl (SpendSide BadRecipient)
          else (case assembleInputs h hN (wi_keypair identity) inputs memberships (cc_padSalts c) 2 of
             Inl e \<Rightarrow> Inl (SpendSide e)
           | Inr ins \<Rightarrow>
          (case parse_amount amount (as_inputTotal ins) of
             Inl e \<Rightarrow> Inl (SpendSide e)
           | Inr out \<Rightarrow>
          (let changeVal = as_inputTotal ins - out in
           case planConsumerOutputs hN perm encaps (cc_ecdhPrivateKey c) (cc_encryptionNonce c)
                  [\<lparr>os_recipient = selfConsumerRecipient identity, os_value = changeVal, os_salt = cc_changeSalt c\<rparr>] of
             Inl e \<Rightarrow> Inl e
           | Inr outs \<Rightarrow>
               Inr (WithdrawPrivRequest (consumer_witness (wi_keypair identity) ins c outs) recipientBig,
                    consumerSpendMeta ins out changeVal outs)))))"

subsection \<open>The enterprise deposit\<close>

record ('w, 'e, 'c) deposit_io =
  dio_ensureChain :: "('w, 'e leg_error, unit) eff"
  dio_assertPoolKemEpoch :: "('w, 'e leg_error, unit) eff"
  dio_isUnlocked :: "'w \<Rightarrow> bool"
  dio_unlock :: "string \<Rightarrow> ('w, 'e leg_error, wallet_identity) eff"
  dio_readTokenState :: "('w, 'e leg_error, int \<times> int) eff"
  dio_approveToken :: "int \<Rightarrow> ('w, 'e leg_error, unit) eff"
  dio_prove :: "proving_request \<Rightarrow> ('w, 'e leg_error, 'c) eff"
  dio_submitDeposit :: "'c \<Rightarrow> string \<Rightarrow> ('w, 'e leg_error, spend_outcome) eff"
  dio_rand :: "'w \<Rightarrow> 'w \<times> int"
  dio_drawKem :: "'w \<Rightarrow> 'w \<times> (int \<times> int) \<times> string"

definition deposit_build ::
  "hashN \<Rightarrow> point \<Rightarrow> ('w, 'e, 'c) deposit_io \<Rightarrow> wallet_identity \<Rightarrow> string \<Rightarrow>
     ('w, 'e leg_error, ('w, 'e, proving_request, 'c) built_deposit) eff" where
  "deposit_build hN arbiter io identity amount w =
     (let (w1, crypto) = freshDepositCrypto arbiter (dio_rand io) (dio_drawKem io) w
      in case buildDepositRequest hN identity amount crypto of
           Inl e \<Rightarrow> (w1, Inl (BuildFailed e))
         | Inr (req, m) \<Rightarrow>
             (w1, Inr \<lparr>bd_request = req, bd_submit = (\<lambda>calldata. dio_submitDeposit io calldata (dc_kemCiphertext crypto))\<rparr>))"

definition runDeposit ::
  "hashN \<Rightarrow> point \<Rightarrow> ('w, 'e, 'c) deposit_io \<Rightarrow> string \<Rightarrow> string \<Rightarrow> (deposit_stage \<Rightarrow> 'w \<Rightarrow> 'w) \<Rightarrow>
     ('w, 'e run_error, deposit_outcome) eff" where
  "runDeposit hN arbiter io sessionPubkey amount onStage =
     runGuardedDeposit amount
       \<lparr>df_ensureChain = dio_ensureChain io, df_guardPool = Some (dio_assertPoolKemEpoch io), df_precheck = None,
        df_isUnlocked = dio_isUnlocked io, df_unlock = dio_unlock io sessionPubkey, df_refineIdentity = Inr,
        df_readTokenState = dio_readTokenState io, df_approveToken = dio_approveToken io,
        df_buildDeposit = deposit_build hN arbiter io, df_prove = dio_prove io\<rparr> onStage"

subsection \<open>The consumer deposit\<close>

text \<open>What an unlock answers: a synthetic enterprise identity, or a full one with its view and KEM keys.\<close>

datatype session_identity = EnterpriseOnly wallet_identity | FullIdentity consumer_identity

datatype 'e consumer_edge = AtEdge 'e | ConsumerBuild consumer_op_error | NoViewIdentity | NoRecipientTriple

type_synonym 'e consumer_leg_error = "'e consumer_edge leg_error"

fun asConsumerIdentity :: "session_identity \<Rightarrow> 'e consumer_leg_error + consumer_identity" where
  "asConsumerIdentity (EnterpriseOnly i) = Inl (Edge NoViewIdentity)"
| "asConsumerIdentity (FullIdentity i) = Inr i"

record ('w, 'e, 'c) consumer_deposit_io =
  cdio_ensureChain :: "('w, 'e consumer_leg_error, unit) eff"
  cdio_isUnlocked :: "'w \<Rightarrow> bool"
  cdio_unlock :: "string \<Rightarrow> ('w, 'e consumer_leg_error, session_identity) eff"
  cdio_readTokenState :: "('w, 'e consumer_leg_error, int \<times> int) eff"
  cdio_approveToken :: "int \<Rightarrow> ('w, 'e consumer_leg_error, unit) eff"
  cdio_prove :: "consumer_request \<Rightarrow> ('w, 'e consumer_leg_error, 'c) eff"
  cdio_submitDepositPriv :: "'c \<Rightarrow> string list \<Rightarrow> ('w, 'e consumer_leg_error, spend_outcome) eff"
  cdio_rand :: "'w \<Rightarrow> 'w \<times> int"
  cdio_drawEncaps :: "'w \<Rightarrow> 'w \<times> kem_draws"

definition consumer_precheck :: "consumer_recipient option \<Rightarrow> ('w, 'e consumer_leg_error, unit) eff" where
  "consumer_precheck recipient =
     (case recipient of
        None \<Rightarrow> ret ()
      | Some r \<Rightarrow> lift_result (case assertConsumerRecipient r of Inl e \<Rightarrow> Inl (Edge (ConsumerBuild e)) | Inr u \<Rightarrow> Inr u))"

definition consumer_deposit_build ::
  "hashN \<Rightarrow> perm4 \<Rightarrow> ('w, 'e, 'c) consumer_deposit_io \<Rightarrow> consumer_recipient option \<Rightarrow> consumer_identity \<Rightarrow> string \<Rightarrow>
     ('w, 'e consumer_leg_error, ('w, 'e consumer_edge, consumer_request, 'c) built_deposit) eff" where
  "consumer_deposit_build hN perm io recipient identity amount w =
     (let (w1, crypto) = freshConsumerDepositCrypto (cdio_rand io) w;
          self = selfConsumerRecipient identity;
          (w2, encaps) = cdio_drawEncaps io w1
      in case buildConsumerDepositRequest hN perm encaps
                [(case recipient of None \<Rightarrow> self | Some r \<Rightarrow> r, amount), (self, ''0'')] crypto of
           Inl e \<Rightarrow> (w2, Inl (Edge (ConsumerBuild e)))
         | Inr (req, V, cts, tags) \<Rightarrow>
             (w2, Inr \<lparr>bd_request = req, bd_submit = (\<lambda>calldata. cdio_submitDepositPriv io calldata cts)\<rparr>))"

definition consumerRunDeposit ::
  "hashN \<Rightarrow> perm4 \<Rightarrow> ('w, 'e, 'c) consumer_deposit_io \<Rightarrow> string \<Rightarrow> string \<Rightarrow> consumer_recipient option \<Rightarrow>
     (deposit_stage \<Rightarrow> 'w \<Rightarrow> 'w) \<Rightarrow> ('w, 'e consumer_edge run_error, deposit_outcome) eff" where
  "consumerRunDeposit hN perm io sessionPubkey amount recipient onStage =
     runGuardedDeposit amount
       \<lparr>df_ensureChain = cdio_ensureChain io, df_guardPool = None, df_precheck = Some (consumer_precheck recipient),
        df_isUnlocked = cdio_isUnlocked io, df_unlock = cdio_unlock io sessionPubkey, df_refineIdentity = asConsumerIdentity,
        df_readTokenState = cdio_readTokenState io, df_approveToken = cdio_approveToken io,
        df_buildDeposit = consumer_deposit_build hN perm io recipient, df_prove = cdio_prove io\<rparr> onStage"

subsection \<open>The consumer chain\<close>

record consumer_action =
  ca_circuit :: consumer_circuit
  ca_inputs :: "input_note list"
  ca_to :: consumer_recipient
  ca_amount :: string

record consumer_args =
  cg_to :: "consumer_recipient option"
  cg_amount :: string
  cg_withdrawTo :: "string option"

record ('w, 'e, 'c) consumer_io =
  cio_ensureChain :: "('w, 'e consumer_leg_error, unit) eff"
  cio_isUnlocked :: "'w \<Rightarrow> bool"
  cio_unlock :: "string \<Rightarrow> ('w, 'e consumer_leg_error, session_identity) eff"
  cio_getHead :: "('w, 'e consumer_leg_error, int) eff"
  cio_getPath :: "nat \<Rightarrow> ('w, 'e consumer_leg_error, int list) eff"
  cio_prove :: "consumer_request \<Rightarrow> ('w, 'e consumer_leg_error, 'c) eff"
  cio_submitTransferPriv :: "'c \<Rightarrow> string list \<Rightarrow> ('w, 'e consumer_leg_error, spend_outcome) eff"
  cio_submitTransfer10x2Priv :: "'c \<Rightarrow> string list \<Rightarrow> ('w, 'e consumer_leg_error, spend_outcome) eff"
  cio_submitWithdrawPriv :: "'c \<Rightarrow> string list \<Rightarrow> ('w, 'e consumer_leg_error, spend_outcome) eff"
  cio_reloadNotes :: "('w, 'e consumer_leg_error, note_view list) eff"
  cio_rand :: "'w \<Rightarrow> 'w \<times> int"
  cio_drawEncaps :: "'w \<Rightarrow> 'w \<times> kem_draws"
  cio_sleep :: "nat \<Rightarrow> 'w \<Rightarrow> 'w"
  cio_intervalMs :: nat
  cio_capMs :: nat

record consumer_context =
  ccx_address :: string
  ccx_sessionPubkey :: string
  ccx_notes :: "selectable_note list"

fun consumerLegAction :: "spend_leg \<Rightarrow> input_note list \<Rightarrow> consumer_identity \<Rightarrow> consumer_args \<Rightarrow> consumer_action" where
  "consumerLegAction (MergeLeg ins mergedValue) inputs identity args =
     \<lparr>ca_circuit = CTransfer10x2Priv, ca_inputs = inputs, ca_to = selfConsumerRecipient identity,
      ca_amount = js_toString mergedValue\<rparr>"
| "consumerLegAction (TerminalLeg c ins) inputs identity args =
     \<lparr>ca_circuit = consumerCircuitOf c, ca_inputs = inputs,
      ca_to = (case cg_to args of None \<Rightarrow> selfConsumerRecipient identity | Some t \<Rightarrow> t), ca_amount = cg_amount args\<rparr>"

definition buildConsumerLeg ::
  "hash2 \<Rightarrow> hashN \<Rightarrow> perm4 \<Rightarrow> kem_draws \<Rightarrow> consumer_action \<Rightarrow> consumer_identity \<Rightarrow> membership list \<Rightarrow> consumer_crypto \<Rightarrow>
     string \<Rightarrow> consumer_op_error + (consumer_request \<times> consumer_meta)" where
  "buildConsumerLeg h hN perm encaps a identity memberships c withdrawRecipient =
     (case ca_circuit a of
        CWithdrawPriv \<Rightarrow>
          buildConsumerWithdrawRequest h hN perm encaps identity (ca_inputs a) memberships (ca_amount a) c withdrawRecipient
      | CTransfer10x2Priv \<Rightarrow>
          buildConsumerTransfer10x2Request h hN perm encaps identity (ca_inputs a) memberships (ca_to a) (ca_amount a) c
      | CTransferPriv \<Rightarrow>
          buildConsumerTransferRequest h hN perm encaps identity (ca_inputs a) memberships (ca_to a) (ca_amount a) c)"

definition consumer_submit ::
  "('w, 'e, 'c) consumer_io \<Rightarrow> consumer_circuit \<Rightarrow> string list \<Rightarrow> 'c \<Rightarrow> ('w, 'e consumer_leg_error, spend_outcome) eff" where
  "consumer_submit io circuit cts calldata =
     (case circuit of
        CWithdrawPriv \<Rightarrow> cio_submitWithdrawPriv io calldata cts
      | CTransfer10x2Priv \<Rightarrow> cio_submitTransfer10x2Priv io calldata cts
      | CTransferPriv \<Rightarrow> cio_submitTransferPriv io calldata cts)"

definition consumer_build ::
  "hash2 \<Rightarrow> hashN \<Rightarrow> perm4 \<Rightarrow> ('w, 'e, 'c) consumer_io \<Rightarrow> consumer_context \<Rightarrow> consumer_args \<Rightarrow> spend_leg \<Rightarrow>
     input_note list \<Rightarrow> consumer_identity \<Rightarrow> membership list \<Rightarrow>
     ('w, 'e consumer_leg_error, ('w, 'e consumer_edge, consumer_request, 'c) built_leg) eff" where
  "consumer_build h hN perm io cx args step inputs identity memberships w =
     (let action = consumerLegAction step inputs identity args;
          (w1, crypto) = freshConsumerSpendCrypto (cio_rand io) w;
          (w2, encaps) = cio_drawEncaps io w1
      in case buildConsumerLeg h hN perm encaps action identity memberships crypto
                (case cg_withdrawTo args of Some t \<Rightarrow> t | None \<Rightarrow> ccx_address cx) of
           Inl e \<Rightarrow> (w2, Inl (Edge (ConsumerBuild e)))
         | Inr (req, m) \<Rightarrow>
             (w2, Inr \<lparr>bl_request = req, bl_membershipOk = sm_membershipOk m,
                bl_payeeSalt = (case cc_payeeSalt crypto of None \<Rightarrow> '''' | Some s \<Rightarrow> js_toString s),
                bl_submit = consumer_submit io (ca_circuit action) (cm_kemCiphertexts m)\<rparr>))"

definition consumerFamily ::
  "hash2 \<Rightarrow> hashN \<Rightarrow> perm4 \<Rightarrow> ('w, 'e, 'c) consumer_io \<Rightarrow> consumer_context \<Rightarrow> consumer_args \<Rightarrow>
     ('w, 'e consumer_edge, session_identity, consumer_identity, consumer_request, 'c) leg_family" where
  "consumerFamily h hN perm io cx args =
     \<lparr>lf_ensureChain = cio_ensureChain io, lf_guardPool = None, lf_isUnlocked = cio_isUnlocked io,
      lf_unlock = cio_unlock io (ccx_sessionPubkey cx), lf_refineIdentity = asConsumerIdentity,
      lf_publicKey = (\<lambda>i. publicKey (wi_keypair i)), lf_getHead = cio_getHead io, lf_readPath = (\<lambda>_. cio_getPath io),
      lf_buildLeg = consumer_build h hN perm io cx args, lf_prove = cio_prove io, lf_reloadNotes = cio_reloadNotes io,
      lf_sleep = cio_sleep io, lf_intervalMs = cio_intervalMs io, lf_capMs = cio_capMs io\<rparr>"

definition consumerRunSpendChain ::
  "hash2 \<Rightarrow> hashN \<Rightarrow> perm4 \<Rightarrow> ('w, 'e, 'c) consumer_io \<Rightarrow> consumer_context \<Rightarrow> spend_kind \<Rightarrow> consumer_args \<Rightarrow> 'w on_stage \<Rightarrow>
     ('w, 'e consumer_edge run_error, spend_outcome) eff" where
  "consumerRunSpendChain h hN perm io cx kind args onStage w =
     (if kind = Transfer \<and> cg_to args = None then (w, Inl (Raw (Edge NoRecipientTriple)))
      else case planSpendChain kind (ccx_notes cx) (cg_amount args) of
             Inl e \<Rightarrow> (w, Inl (Raw (PlanFailed e)))
           | Inr plan \<Rightarrow>
               (case runLegChain hN (consumerFamily h hN perm io cx args) onStage plan (length plan) w of
                  (w1, Inl e) \<Rightarrow> (w1, Inl e)
                | (w1, Inr run) \<Rightarrow> (w1, Inr (last (lr_outcomes run)))))"

end
