(* ===== verification/Self_Scan.thy ===== *)
theory Self_Scan
  imports Consumer_Ops Feed_Store Kem_Chunks
begin

text \<open>
  Discovery from the public feed: the scan pass of \<open>packages/client/src/scan/selfscan/engine.ts\<close>, the
  resumable scan of \<open>selfscan/run.ts\<close>, and the reference discovery \<open>trialDecryptEvents\<close> of
  \<open>scan/balance.ts\<close>.

  The reads of a scan are effects of the caller (\<open>Leg_Driver\<close>'s); the parallel re-reads of the pending
  entries are made in their order. Decimal strings are integers, as everywhere. The JSON codec of the
  state is the standard library's and is not modelled.
\<close>

subsection \<open>Data\<close>

text \<open>A feed event as the client reads it: the entry, with the chunk transport of its batch.\<close>

record client_event = feed_entry +
  ce_kem :: "kem_projection option"

datatype note_family = ConsumerNote | EnterpriseNote

record scan_candidate =
  dn_value :: int
  dn_salt :: int
  dn_leafIndex :: nat
  dn_commitment :: int
  dn_nullifier :: int
  dn_txHash :: string
  dn_seq :: nat
  dn_kind :: event_kind
  dn_family :: note_family

record scan_note = scan_candidate +
  sn_spent :: bool

datatype discovery_status = KemState kem_status | DisclosureIncomplete | EnterpriseBatchGated

record pending_discovery =
  pd_seq :: nat
  pd_txHash :: string
  pd_batchId :: "nat option"
  pd_status :: discovery_status

record scan_stats =
  consumerSlices :: nat
  tagMatches :: nat
  decapsulations :: nat
  enterpriseDecrypts :: nat

definition no_stats :: scan_stats where
  "no_stats = \<lparr>consumerSlices = 0, tagMatches = 0, decapsulations = 0, enterpriseDecrypts = 0\<rparr>"

definition add_stats :: "scan_stats \<Rightarrow> scan_stats \<Rightarrow> scan_stats" where
  "add_stats a b =
     \<lparr>consumerSlices = consumerSlices a + consumerSlices b, tagMatches = tagMatches a + tagMatches b,
      decapsulations = decapsulations a + decapsulations b, enterpriseDecrypts = enterpriseDecrypts a + enterpriseDecrypts b\<rparr>"

text \<open>What an event, or a run of them, adds to a pass.\<close>

record scan_found =
  sf_accepted :: "scan_candidate list"
  sf_candidates :: "scan_candidate list"
  sf_pending :: "pending_discovery list"
  sf_stats :: scan_stats

record scan_pass = scan_found +
  sp_cursor :: int

datatype scan_error = EventKey | EventOpen consumer_error | EventKemHex | FractionalIndex

definition nothing_found :: scan_found where
  "nothing_found = \<lparr>sf_accepted = [], sf_candidates = [], sf_pending = [], sf_stats = no_stats\<rparr>"

definition join_found :: "scan_found \<Rightarrow> scan_found \<Rightarrow> scan_found" where
  "join_found a b =
     \<lparr>sf_accepted = sf_accepted a @ sf_accepted b, sf_candidates = sf_candidates a @ sf_candidates b,
      sf_pending = sf_pending a @ sf_pending b, sf_stats = add_stats (sf_stats a) (sf_stats b)\<rparr>"

text \<open>A loop that collects what its body finds and stops at the first throw.\<close>

fun collect_found :: "('a \<Rightarrow> scan_error + scan_found) \<Rightarrow> 'a list \<Rightarrow> scan_error + scan_found" where
  "collect_found f [] = Inr nothing_found"
| "collect_found f (x # xs) =
     (case f x of
        Inl e \<Rightarrow> Inl e
      | Inr a \<Rightarrow> (case collect_found f xs of Inl e \<Rightarrow> Inl e | Inr b \<Rightarrow> Inr (join_found a b)))"

definition CONSUMER_EVENT_KINDS :: "event_kind list" where
  "CONSUMER_EVENT_KINDS = [KDepositPriv, KTransferPriv, KTransfer10x2Priv, KWithdrawPriv, KDisbursePriv]"

definition CONSUMER_CT_LEN :: nat where
  "CONSUMER_CT_LEN = 4"

definition draftOf :: "client_event \<Rightarrow> note_family \<Rightarrow> nat \<Rightarrow> int \<Rightarrow> int \<Rightarrow> int \<Rightarrow> int \<Rightarrow> scan_candidate" where
  "draftOf ev family leafIndex value salt c nf =
     \<lparr>dn_value = value, dn_salt = salt, dn_leafIndex = leafIndex, dn_commitment = c, dn_nullifier = nf,
      dn_txHash = fe_txHash ev, dn_seq = fe_seq ev, dn_kind = fe_kind ev, dn_family = family\<rparr>"

definition pend :: "client_event \<Rightarrow> discovery_status \<Rightarrow> scan_found" where
  "pend ev st =
     nothing_found\<lparr>sf_pending := [\<lparr>pd_seq = fe_seq ev, pd_txHash = fe_txHash ev, pd_batchId = fe_batchId ev, pd_status = st\<rparr>]\<rparr>"

subsection \<open>The consumer pipeline\<close>

text \<open>An array read at \<open>offset / 4\<close>: a fraction indexes nothing.\<close>

definition at_quarter :: "'a list \<Rightarrow> nat \<Rightarrow> 'a option" where
  "at_quarter xs offset =
     (if offset mod CONSUMER_CT_LEN = 0 \<and> offset div CONSUMER_CT_LEN < length xs then Some (xs ! (offset div CONSUMER_CT_LEN)) else None)"

text \<open>The keys a scan holds.\<close>

abbreviation view_priv :: "consumer_identity \<Rightarrow> int" where
  "view_priv i \<equiv> formattedPrivateKey (ci_viewKeypair i)"

abbreviation spend_priv :: "consumer_identity \<Rightarrow> int" where
  "spend_priv i \<equiv> formattedPrivateKey (wi_keypair i)"

abbreviation spend_pub :: "consumer_identity \<Rightarrow> point" where
  "spend_pub i \<equiv> publicKey (wi_keypair i)"

definition slice_ct :: "client_event \<Rightarrow> slice \<Rightarrow> int list" where
  "slice_ct ev s = take (sl_elts s) (drop (sl_offset s) (fe_ciphertext ev))"

definition scan_consumer_slice ::
  "hashN \<Rightarrow> perm4 \<Rightarrow> (bytes \<Rightarrow> bytes \<Rightarrow> bytes) \<Rightarrow> consumer_identity \<Rightarrow> client_event \<Rightarrow> point \<Rightarrow> int \<Rightarrow> int \<Rightarrow> int list \<Rightarrow>
     string list \<Rightarrow> slice \<Rightarrow> scan_error + scan_found" where
  "scan_consumer_slice hN perm decaps identity ev eph nonce myTag vtags kemCts s =
     (case sl_leafIndex s of
        None \<Rightarrow> Inr nothing_found
      | Some leafIndex \<Rightarrow>
          if sl_elts s \<noteq> CONSUMER_CT_LEN then Inr nothing_found
          else
            (let visited = no_stats\<lparr>consumerSlices := 1\<rparr>; matched = visited\<lparr>tagMatches := 1\<rparr>; opened = matched\<lparr>decapsulations := 1\<rparr> in
             if at_quarter vtags (sl_offset s) \<noteq> Some myTag then Inr (nothing_found\<lparr>sf_stats := visited\<rparr>)
             else case at_quarter kemCts (sl_offset s) of
               None \<Rightarrow> Inr (nothing_found\<lparr>sf_stats := matched\<rparr>)
             | Some kemHex \<Rightarrow>
                 (case kemHexToBytes kemHex of
                    None \<Rightarrow> Inl EventKemHex
                  | Some kemCiphertext \<Rightarrow>
                 (case openConsumerOutput hN perm decaps (slice_ct ev s) eph (view_priv identity) (ci_kemDk identity)
                         kemCiphertext nonce (sl_offset s div CONSUMER_CT_LEN) of
                    Inl e \<Rightarrow> Inl (EventOpen e)
                  | Inr (value, salt, viewTag) \<Rightarrow>
                 (let c = commitment hN value salt (spend_pub identity);
                      nf = nullifier hN value salt (spend_priv identity);
                      draft = draftOf ev ConsumerNote leafIndex value salt c nf
                  in if fe_kind ev = KDisbursePriv
                     then Inr (nothing_found\<lparr>sf_stats := opened, sf_accepted :=
                            (case Option.bind (fe_outputCommitments ev) (\<lambda>cs. at_quarter cs (sl_offset s)) of
                               None \<Rightarrow> []
                             | Some leaf \<Rightarrow> if leaf = c then [draft] else [])\<rparr>)
                     else Inr (nothing_found\<lparr>sf_stats := opened, sf_candidates := [draft]\<rparr>))))))"

text \<open>The ciphertexts to decapsulate, or what to report instead.\<close>

definition kem_transport_of :: "client_event \<Rightarrow> int \<Rightarrow> int list \<Rightarrow> scan_found + string list" where
  "kem_transport_of ev myTag vtags =
     (if fe_kind ev \<noteq> KDisbursePriv
      then (case fe_kemCiphertexts ev of None \<Rightarrow> Inl nothing_found | Some cts \<Rightarrow> Inr cts)
      else if fe_outputCommitments ev = None \<or> fe_slices ev = [] then Inl (pend ev DisclosureIncomplete)
      else case ce_kem ev of
             None \<Rightarrow> Inl (if myTag \<in> set vtags then pend ev (KemState KPending) else nothing_found)
           | Some k \<Rightarrow>
               (case (kp_status k, kp_kemCiphertexts k) of
                  (KComplete, Some cts) \<Rightarrow> Inr cts
                | _ \<Rightarrow> Inl (if myTag \<in> set vtags then pend ev (KemState (kp_status k)) else nothing_found)))"

definition scan_consumer_event ::
  "hashN \<Rightarrow> perm4 \<Rightarrow> (bytes \<Rightarrow> bytes \<Rightarrow> bytes) \<Rightarrow> consumer_identity \<Rightarrow> client_event \<Rightarrow> point \<Rightarrow> int \<Rightarrow> int list \<Rightarrow>
     scan_error + scan_found" where
  "scan_consumer_event hN perm decaps identity ev eph nonce vtags =
     (case ecdhSharedSecret (view_priv identity) eph of
        None \<Rightarrow> Inl EventKey
      | Some shared \<Rightarrow>
     (case consumerViewTag hN shared of
        Inl e \<Rightarrow> Inl (EventOpen e)
      | Inr myTag \<Rightarrow>
     (case kem_transport_of ev myTag vtags of
        Inl f \<Rightarrow> Inr f
      | Inr kemCts \<Rightarrow> collect_found (scan_consumer_slice hN perm decaps identity ev eph nonce myTag vtags kemCts) (fe_slices ev))))"

subsection \<open>The enterprise twin\<close>

text \<open>
  The two nonces of a slice. Decrypting four elements never throws, so the source's \<open>catch\<close> is not
  reached.
\<close>

definition slice_nonces :: "int \<Rightarrow> nat \<Rightarrow> int list" where
  "slice_nonces nonce ctIndex = (if ctIndex = 0 then [nonce] else [nonce, nonce + int ctIndex])"

definition enterprise_draft ::
  "hashN \<Rightarrow> perm4 \<Rightarrow> consumer_identity \<Rightarrow> client_event \<Rightarrow> point \<Rightarrow> nat \<Rightarrow> int list \<Rightarrow> int \<Rightarrow> scan_candidate" where
  "enterprise_draft hN perm identity ev shared leafIndex ct tryNonce =
     (let m = poseidonDecrypt perm ct shared tryNonce 2; value = m ! 0; salt = m ! 1
      in draftOf ev EnterpriseNote leafIndex value salt (commitment hN value salt (spend_pub identity))
           (nullifier hN value salt (spend_priv identity)))"

definition scan_enterprise_slice ::
  "hashN \<Rightarrow> perm4 \<Rightarrow> consumer_identity \<Rightarrow> client_event \<Rightarrow> point \<Rightarrow> int \<Rightarrow> slice \<Rightarrow> scan_error + scan_found" where
  "scan_enterprise_slice hN perm identity ev shared nonce s =
     (case sl_leafIndex s of
        None \<Rightarrow> Inr nothing_found
      | Some leafIndex \<Rightarrow>
          if sl_elts s \<noteq> 4 \<or> length (slice_ct ev s) \<noteq> 4 then Inr nothing_found
          else if sl_offset s mod 4 \<noteq> 0 then Inl FractionalIndex
          else
            (let ns = slice_nonces nonce (sl_offset s div 4)
             in Inr (nothing_found\<lparr>sf_candidates := map (enterprise_draft hN perm identity ev shared leafIndex (slice_ct ev s)) ns,
                                   sf_stats := no_stats\<lparr>enterpriseDecrypts := length ns\<rparr>\<rparr>)))"

definition scan_enterprise_event ::
  "hashN \<Rightarrow> perm4 \<Rightarrow> consumer_identity \<Rightarrow> client_event \<Rightarrow> point \<Rightarrow> int \<Rightarrow> scan_error + scan_found" where
  "scan_enterprise_event hN perm identity ev eph nonce =
     (case ecdhSharedSecret (spend_priv identity) eph of
        None \<Rightarrow> Inl EventKey
      | Some shared \<Rightarrow> collect_found (scan_enterprise_slice hN perm identity ev shared nonce) (fe_slices ev))"

subsection \<open>The pass\<close>

definition scan_event ::
  "hashN \<Rightarrow> perm4 \<Rightarrow> (bytes \<Rightarrow> bytes \<Rightarrow> bytes) \<Rightarrow> consumer_identity \<Rightarrow> client_event \<Rightarrow> scan_error + scan_found" where
  "scan_event hN perm decaps identity ev =
     (if fe_kind ev = KDisbursePriv \<and> fe_batchId ev \<noteq> None \<and>
         (fe_viewTags ev = None \<or> fe_outputCommitments ev = None \<or> fe_slices ev = [])
      then Inr (pend ev DisclosureIncomplete)
      else case (fe_ecdhPublicKey ev, fe_encryptionNonce ev) of
        (Some eph, Some nonce) \<Rightarrow>
          (if fe_kind ev \<in> set CONSUMER_EVENT_KINDS
           then (case fe_viewTags ev of
                   None \<Rightarrow> Inr nothing_found
                 | Some vtags \<Rightarrow> scan_consumer_event hN perm decaps identity ev eph nonce vtags)
           else scan_enterprise_event hN perm identity ev eph nonce)
      | _ \<Rightarrow> Inr nothing_found)"

definition max_seq :: "int \<Rightarrow> client_event list \<Rightarrow> int" where
  "max_seq start evs = fold (\<lambda>e m. max m (int (fe_seq e))) evs start"

definition scanEventsPass ::
  "hashN \<Rightarrow> perm4 \<Rightarrow> (bytes \<Rightarrow> bytes \<Rightarrow> bytes) \<Rightarrow> consumer_identity \<Rightarrow> client_event list \<Rightarrow> scan_error + scan_pass" where
  "scanEventsPass hN perm decaps identity evs =
     (case collect_found (scan_event hN perm decaps identity) evs of
        Inl e \<Rightarrow> Inl e
      | Inr f \<Rightarrow> Inr (scan_found.extend f \<lparr>sp_cursor = max_seq (-1) evs\<rparr>))"

record path_result =
  pr_siblings :: "int list"
  pr_root :: int

definition pathConfirmsLeaf :: "hash2 \<Rightarrow> int \<Rightarrow> path_result \<Rightarrow> nat \<Rightarrow> bool" where
  "pathConfirmsLeaf h c p leafIndex \<longleftrightarrow> foldToRoot h c (pr_siblings p) leafIndex = pr_root p"

fun merge_fresh :: "int set \<Rightarrow> scan_candidate list \<Rightarrow> scan_note list" where
  "merge_fresh known [] = []"
| "merge_fresh known (c # cs) =
     (if dn_commitment c \<in> known then merge_fresh known cs
      else scan_candidate.extend c \<lparr>sn_spent = False\<rparr> # merge_fresh (insert (dn_commitment c) known) cs)"

definition mergeNotes :: "scan_note list \<Rightarrow> scan_candidate list \<Rightarrow> scan_note list" where
  "mergeNotes prev found = prev @ merge_fresh (set (map dn_commitment prev)) found"

definition applySpent :: "scan_note list \<Rightarrow> int set \<Rightarrow> scan_note list" where
  "applySpent ns spent = map (\<lambda>n. n\<lparr>sn_spent := dn_nullifier n \<in> spent\<rparr>) ns"

subsection \<open>The resumable scan\<close>

record self_scan_state =
  ss_cursor :: int
  ss_scannedNextLeafIndex :: nat
  ss_notes :: "scan_note list"
  ss_pending :: "pending_discovery list"

definition EMPTY_SCAN_STATE :: self_scan_state where
  "EMPTY_SCAN_STATE = \<lparr>ss_cursor = -1, ss_scannedNextLeafIndex = 0, ss_notes = [], ss_pending = []\<rparr>"

text \<open>The reads: \<open>si_events cursor\<close> is a page, \<open>si_event seq\<close> a page of one entry.\<close>

record ('w, 'e) self_scan_io =
  si_events :: "int \<Rightarrow> ('w, 'e, client_event list) eff"
  si_event :: "int \<Rightarrow> ('w, 'e, client_event list) eff"
  si_nullifiers :: "('w, 'e, int list) eff"
  si_head :: "('w, 'e, nat) eff"
  si_path :: "nat \<Rightarrow> ('w, 'e, path_result) eff"

datatype 'e scan_failure = ReadFailed 'e | PassFailed scan_error

definition attempt :: "('w, 'e, 'a) eff \<Rightarrow> ('w, 'f, 'a option) eff" where
  "attempt m w = (case m w of (w1, Inl e) \<Rightarrow> (w1, Inr None) | (w1, Inr x) \<Rightarrow> (w1, Inr (Some x)))"

definition read_or_fail :: "('w, 'e, 'a) eff \<Rightarrow> ('w, 'e scan_failure, 'a) eff" where
  "read_or_fail m w = (case m w of (w1, Inl e) \<Rightarrow> (w1, Inl (ReadFailed e)) | (w1, Inr x) \<Rightarrow> (w1, Inr x))"

fun dedupe_pending :: "nat set \<Rightarrow> pending_discovery list \<Rightarrow> pending_discovery list" where
  "dedupe_pending known [] = []"
| "dedupe_pending known (p # ps) =
     (if pd_seq p \<in> known then dedupe_pending known ps else p # dedupe_pending (insert (pd_seq p) known) ps)"

definition dedupePending :: "pending_discovery list \<Rightarrow> pending_discovery list" where
  "dedupePending ps = dedupe_pending {} ps"

text \<open>The events past the cursor, and whether the feed was exhausted within the pages allowed.\<close>

fun drain :: "('w, 'e) self_scan_io \<Rightarrow> nat \<Rightarrow> int \<Rightarrow> client_event list \<Rightarrow> ('w, 'e scan_failure, client_event list \<times> bool) eff" where
  "drain io 0 at acc = ret (acc, False)"
| "drain io (Suc pages) at acc =
     andThen (read_or_fail (si_events io at)) (\<lambda>answer.
     (let page = filter (\<lambda>e. int (fe_seq e) > at) answer; next = max_seq at page in
      if next = at then ret (acc, True) else drain io pages next (acc @ page)))"

fun reread_pending :: "('w, 'e) self_scan_io \<Rightarrow> pending_discovery list \<Rightarrow> ('w, 'e scan_failure, client_event option list) eff" where
  "reread_pending io [] = ret []"
| "reread_pending io (p # ps) =
     andThen (attempt (si_event io (int (pd_seq p) - 1))) (\<lambda>answer.
     andThen (reread_pending io ps) (\<lambda>rest'.
     ret (Option.bind answer (List.find (\<lambda>e. fe_seq e = pd_seq p)) # rest')))"

text \<open>The path confirmation of the candidates: the confirmed ones and the gated batches.\<close>

definition gated_entry :: "scan_candidate \<Rightarrow> pending_discovery" where
  "gated_entry c = \<lparr>pd_seq = dn_seq c, pd_txHash = dn_txHash c, pd_batchId = None, pd_status = EnterpriseBatchGated\<rparr>"

definition confirm_verdict :: "hash2 \<Rightarrow> scan_candidate \<Rightarrow> path_result option \<Rightarrow> scan_candidate list \<times> pending_discovery list" where
  "confirm_verdict h c p =
     (case p of
        Some path' \<Rightarrow> if pathConfirmsLeaf h (dn_commitment c) path' (dn_leafIndex c) then ([c], []) else ([], [])
      | None \<Rightarrow> if dn_family c = EnterpriseNote \<and> dn_kind c = KDisburse then ([], [gated_entry c]) else ([], []))"

fun confirm_all ::
  "hash2 \<Rightarrow> ('w, 'e) self_scan_io \<Rightarrow> (nat \<Rightarrow> path_result option option) \<Rightarrow> scan_candidate list \<Rightarrow>
     ('w, 'e scan_failure, scan_candidate list \<times> pending_discovery list) eff" where
  "confirm_all h io cache [] = ret ([], [])"
| "confirm_all h io cache (c # cs) =
     andThen (case cache (dn_leafIndex c) of Some p \<Rightarrow> ret p | None \<Rightarrow> attempt (si_path io (dn_leafIndex c))) (\<lambda>p.
     andThen (confirm_all h io (cache(dn_leafIndex c \<mapsto> p)) cs) (\<lambda>(confirmed, gated).
     ret (fst (confirm_verdict h c p) @ confirmed, snd (confirm_verdict h c p) @ gated)))"

definition covered_leaf :: "nat \<Rightarrow> client_event list \<Rightarrow> nat" where
  "covered_leaf start evs =
     fold (\<lambda>e m. fold (\<lambda>sl mm. case sl_leafIndex sl of None \<Rightarrow> mm | Some l \<Rightarrow> max mm (l + 1)) (fe_slices e) m) evs start"

definition runSelfScan ::
  "hash2 \<Rightarrow> hashN \<Rightarrow> perm4 \<Rightarrow> (bytes \<Rightarrow> bytes \<Rightarrow> bytes) \<Rightarrow> ('w, 'e) self_scan_io \<Rightarrow> consumer_identity \<Rightarrow> self_scan_state \<Rightarrow> nat \<Rightarrow>
     ('w, 'e scan_failure, self_scan_state) eff" where
  "runSelfScan h hN perm decaps io identity prev maxPages =
     andThen (read_or_fail (si_head io)) (\<lambda>nextLeafIndex.
     andThen (drain io maxPages (ss_cursor prev) []) (\<lambda>(drained, exhausted).
     andThen (reread_pending io (ss_pending prev)) (\<lambda>reread.
     (let kept = map fst (filter (\<lambda>(p, r). r = None) (zip (ss_pending prev) reread));
          window = map the (filter (\<lambda>r. r \<noteq> None) reread) @ drained
      in case scanEventsPass hN perm decaps identity window of
           Inl e \<Rightarrow> throw (PassFailed e)
         | Inr found \<Rightarrow>
     andThen (confirm_all h io Map.empty (sf_candidates found)) (\<lambda>(confirmed, gated).
     andThen (read_or_fail (si_nullifiers io)) (\<lambda>spent.
     ret \<lparr>ss_cursor = max (ss_cursor prev) (sp_cursor found),
          ss_scannedNextLeafIndex =
            (if exhausted then max (ss_scannedNextLeafIndex prev) nextLeafIndex
             else covered_leaf (ss_scannedNextLeafIndex prev) drained),
          ss_notes = applySpent (mergeNotes (ss_notes prev) (sf_accepted found @ confirmed)) (set spent),
          ss_pending = dedupePending (kept @ sf_pending found @ gated)\<rparr>))))))"

subsection \<open>Activity and snapshot\<close>

datatype history_kind = HReceived | HSent | HWithdraw | HDeposit

record activity_item =
  ai_kind :: history_kind
  ai_amount :: int
  ai_txHash :: string
  ai_seq :: nat

fun activity_kind :: "event_kind \<Rightarrow> history_kind" where
  "activity_kind KDepositPriv = HDeposit"
| "activity_kind KWithdrawPriv = HWithdraw"
| "activity_kind _ = HReceived"

definition activity_row :: "(nat \<times> activity_item) list \<Rightarrow> scan_note \<Rightarrow> (nat \<times> activity_item) list" where
  "activity_row rows n =
     (let row = (case map_of rows (dn_seq n) of
           Some r \<Rightarrow> r
         | None \<Rightarrow> \<lparr>ai_kind = activity_kind (dn_kind n), ai_amount = 0, ai_txHash = dn_txHash n, ai_seq = dn_seq n\<rparr>)
      in AList.update (dn_seq n) (row\<lparr>ai_amount := ai_amount row + dn_value n\<rparr>) rows)"

definition deriveScanActivity :: "scan_note list \<Rightarrow> activity_item list" where
  "deriveScanActivity ns = rev (sort_key ai_seq (map snd (fold (\<lambda>n rows. activity_row rows n) ns [])))"

record snapshot_note =
  wn_owner :: point
  wn_value :: int
  wn_salt :: int
  wn_leafIndex :: nat
  wn_commitment :: int
  wn_txHash :: string
  wn_spent :: bool

record owner_snapshot =
  os_notes :: "snapshot_note list"
  os_history :: "activity_item list"
  os_historyNextBefore :: "nat option"

definition selfScanSnapshot :: "self_scan_state \<Rightarrow> string \<Rightarrow> addr_error + owner_snapshot" where
  "selfScanSnapshot st ownerCompressed =
     (case unpackPubkey ownerCompressed of
        Inl e \<Rightarrow> Inl e
      | Inr owner \<Rightarrow>
          Inr \<lparr>os_notes = map (\<lambda>n. \<lparr>wn_owner = owner, wn_value = dn_value n, wn_salt = dn_salt n, wn_leafIndex = dn_leafIndex n,
                   wn_commitment = dn_commitment n, wn_txHash = dn_txHash n, wn_spent = sn_spent n\<rparr>) (ss_notes st),
               os_history = deriveScanActivity (ss_notes st), os_historyNextBefore = None\<rparr>)"

subsection \<open>The reference discovery\<close>

record trial_context =
  tc_leafCommitments :: "nat \<Rightarrow> int option"
  tc_spentNullifiers :: "int set"

text \<open>The nonces of a slice in order, up to the first whose note is the leaf.\<close>

fun trial_nonces ::
  "hashN \<Rightarrow> perm4 \<Rightarrow> keypair \<Rightarrow> trial_context \<Rightarrow> client_event \<Rightarrow> point \<Rightarrow> nat \<Rightarrow> int list \<Rightarrow> int list \<Rightarrow> scan_note option" where
  "trial_nonces hN perm kp ctx ev shared leafIndex ct [] = None"
| "trial_nonces hN perm kp ctx ev shared leafIndex ct (n # ns) =
     (let m = poseidonDecrypt perm ct shared n 2; value = m ! 0; salt = m ! 1;
          c = commitment hN value salt (publicKey kp); nf = nullifier hN value salt (formattedPrivateKey kp)
      in if tc_leafCommitments ctx leafIndex \<noteq> Some c then trial_nonces hN perm kp ctx ev shared leafIndex ct ns
         else Some (scan_candidate.extend (draftOf ev EnterpriseNote leafIndex value salt c nf)
                      \<lparr>sn_spent = nf \<in> tc_spentNullifiers ctx\<rparr>))"

definition trial_slice ::
  "hashN \<Rightarrow> perm4 \<Rightarrow> keypair \<Rightarrow> trial_context \<Rightarrow> client_event \<Rightarrow> point \<Rightarrow> int \<Rightarrow> slice \<Rightarrow> scan_error + scan_note list" where
  "trial_slice hN perm kp ctx ev shared nonce s =
     (case sl_leafIndex s of
        None \<Rightarrow> Inr []
      | Some leafIndex \<Rightarrow>
          if sl_elts s \<noteq> 4 \<or> length (slice_ct ev s) \<noteq> 4 then Inr []
          else if sl_offset s mod 4 \<noteq> 0 then Inl FractionalIndex
          else Inr (case trial_nonces hN perm kp ctx ev shared leafIndex (slice_ct ev s) (slice_nonces nonce (sl_offset s div 4)) of
                      None \<Rightarrow> [] | Some n \<Rightarrow> [n]))"

definition trial_event :: "hashN \<Rightarrow> perm4 \<Rightarrow> keypair \<Rightarrow> trial_context \<Rightarrow> client_event \<Rightarrow> scan_error + scan_note list" where
  "trial_event hN perm kp ctx ev =
     (case (fe_ecdhPublicKey ev, fe_encryptionNonce ev) of
        (Some eph, Some nonce) \<Rightarrow>
          (case ecdhSharedSecret (formattedPrivateKey kp) eph of
             None \<Rightarrow> Inl EventKey
           | Some shared \<Rightarrow> map_sum id concat (traverse (trial_slice hN perm kp ctx ev shared nonce) (fe_slices ev)))
      | _ \<Rightarrow> Inr [])"

definition trialDecryptEvents ::
  "hashN \<Rightarrow> perm4 \<Rightarrow> client_event list \<Rightarrow> keypair \<Rightarrow> trial_context \<Rightarrow> scan_error + scan_note list" where
  "trialDecryptEvents hN perm evs kp ctx = map_sum id concat (traverse (trial_event hN perm kp ctx) evs)"

end
