(* ===== verification/Self_Scan_Correct.thy ===== *)
theory Self_Scan_Correct
  imports Self_Scan Spend_Build_Correct Pubkey_Correct "HOL-Library.Countable"
begin

text \<open>
  Discovery is sound and complete: what a scan of a served feed finds, and that a payment of the consumer
  family is found by its payee.
\<close>

subsection \<open>What a loop collects\<close>

named_theorems scan_parts \<open>the parts of what a scan found\<close>

lemma nothing_parts [scan_parts, simp]:
  "sf_accepted nothing_found = []" "sf_candidates nothing_found = []" "sf_pending nothing_found = []"
  "sf_stats nothing_found = no_stats"
  by (simp_all add: nothing_found_def)

lemma join_parts [scan_parts, simp]:
  "sf_accepted (join_found a b) = sf_accepted a @ sf_accepted b"
  "sf_candidates (join_found a b) = sf_candidates a @ sf_candidates b"
  "sf_pending (join_found a b) = sf_pending a @ sf_pending b"
  by (simp_all add: join_found_def)

lemma collect_found_iff:
  "(\<exists>r. collect_found f xs = Inr r) \<longleftrightarrow> (\<forall>x\<in>set xs. \<exists>a. f x = Inr a)"
  by (induction xs) (auto split: sum.splits)

lemma collect_found_parts:
  assumes "collect_found f xs = Inr r"
  shows "sf_accepted r = concat (map (\<lambda>x. sf_accepted (projr (f x))) xs)"
    "sf_candidates r = concat (map (\<lambda>x. sf_candidates (projr (f x))) xs)"
    "sf_pending r = concat (map (\<lambda>x. sf_pending (projr (f x))) xs)"
  using assms by (induction xs arbitrary: r) (auto split: sum.splits)

lemma collect_found_append:
  "collect_found f (xs @ ys) =
     (case collect_found f xs of
        Inl e \<Rightarrow> Inl e
      | Inr a \<Rightarrow> (case collect_found f ys of Inl e \<Rightarrow> Inl e | Inr b \<Rightarrow> Inr (join_found a b)))"
proof (induction xs)
  case Nil
  then show ?case
    by (auto split: sum.split simp: join_found_def nothing_found_def add_stats_def no_stats_def intro!: scan_found.equality)
next
  case (Cons x xs)
  then show ?case by (auto split: sum.splits simp: join_found_def add_stats_def)
qed

lemma max_seq_append: "max_seq start (xs @ ys) = max_seq (max_seq start xs) ys"
  by (simp add: max_seq_def)

lemma max_seq_ge: "start \<le> max_seq start xs"
  unfolding max_seq_def by (induction xs arbitrary: start) (auto, meson max.cobounded1 order_trans)

lemma max_seq_Max: "max_seq start xs = Max (insert start ((\<lambda>e. int (fe_seq e)) ` set xs))"
proof (induction xs arbitrary: start)
  case (Cons x xs)
  have "max_seq start (x # xs) = max_seq (max start (int (fe_seq x))) xs" by (simp add: max_seq_def)
  also have "\<dots> = Max (insert (max start (int (fe_seq x))) ((\<lambda>e. int (fe_seq e)) ` set xs))" by (rule Cons.IH)
  also have "\<dots> = Max (insert start (insert (int (fe_seq x)) ((\<lambda>e. int (fe_seq e)) ` set xs)))"
    by (cases "xs = []") (auto simp: max.assoc)
  finally show ?case by (simp add: insert_commute)
qed (simp add: max_seq_def)

lemma max_seq_max: "max_seq (max a b) xs = max a (max_seq b xs)"
  unfolding max_seq_def by (induction xs arbitrary: b) (auto simp: max.assoc)

subsection \<open>Merging\<close>

lemma merge_fresh_commitments:
  "dn_commitment ` set (merge_fresh known cs) = dn_commitment ` set cs - known"
  by (induction cs arbitrary: known) (auto simp: scan_candidate.defs)

lemma merge_fresh_sub:
  "n \<in> set (merge_fresh known cs) \<Longrightarrow> \<exists>c\<in>set cs. n = scan_candidate.extend c \<lparr>sn_spent = False\<rparr>"
  by (induction cs arbitrary: known) (auto split: if_splits)

lemma merge_fresh_distinct: "distinct (map dn_commitment (merge_fresh known cs))"
proof (induction cs arbitrary: known)
  case (Cons c cs)
  then show ?case using merge_fresh_commitments [of "insert (dn_commitment c) known" cs]
    by (auto simp: scan_candidate.defs image_iff)
qed simp

lemma dedupe_pending_set:
  assumes "\<And>p q. p \<in> set ps \<Longrightarrow> q \<in> set ps \<Longrightarrow> pd_seq p = pd_seq q \<Longrightarrow> p = q"
  shows "set (dedupe_pending known ps) = {p \<in> set ps. pd_seq p \<notin> known}"
  using assms
proof (induction ps arbitrary: known)
  case (Cons p ps)
  have IH: "set (dedupe_pending k ps) = {q \<in> set ps. pd_seq q \<notin> k}" for k using Cons.prems by (intro Cons.IH) auto
  have "pd_seq q = pd_seq p \<longleftrightarrow> q = p" if "q \<in> set ps" for q using Cons.prems [of q p] that by auto
  then show ?case by (auto simp: IH)
qed simp

subsection \<open>A served feed\<close>

text \<open>
  An indexer that does not change during the scan: its feed with increasing numbers, the length of a page,
  the paths it serves (none: a refused or failed read), the published nullifiers and the head.
\<close>

record feed_view =
  fv_feed :: "client_event list"
  fv_page :: nat
  fv_path :: "nat \<Rightarrow> path_result option"
  fv_nullifiers :: "int list"
  fv_head :: nat

definition view_ok :: "feed_view \<Rightarrow> bool" where
  "view_ok V \<longleftrightarrow> sorted_wrt (\<lambda>a b. fe_seq a < fe_seq b) (fv_feed V) \<and> 0 < fv_page V"

definition past :: "feed_view \<Rightarrow> int \<Rightarrow> client_event list" where
  "past V at = filter (\<lambda>e. int (fe_seq e) > at) (fv_feed V)"

definition serving :: "feed_view \<Rightarrow> ('w, unit) self_scan_io" where
  "serving V =
     \<lparr>si_events = (\<lambda>at w. (w, Inr (take (fv_page V) (past V at)))), si_event = (\<lambda>at w. (w, Inr (take 1 (past V at)))),
      si_nullifiers = (\<lambda>w. (w, Inr (fv_nullifiers V))), si_head = (\<lambda>w. (w, Inr (fv_head V))),
      si_path = (\<lambda>l w. (w, case fv_path V l of None \<Rightarrow> Inl () | Some p \<Rightarrow> Inr p))\<rparr>"

lemma eff_simps [simp]:
  "andThen (\<lambda>w. (w, Inr x)) f = f x" "andThen (ret x) f = f x"
  "read_or_fail (\<lambda>w. (w, Inr x)) = ret x" "attempt (\<lambda>w. (w, Inr x)) = ret (Some x)" "attempt (\<lambda>w. (w, Inl e)) = ret None"
  by (auto simp: fun_eq_iff andThen_def ret_def read_or_fail_def attempt_def)

lemma serving_simps:
  "si_events (serving V) at = (\<lambda>w. (w, Inr (take (fv_page V) (past V at))))"
  "si_event (serving V) at = (\<lambda>w. (w, Inr (take 1 (past V at))))"
  "si_nullifiers (serving V) = (\<lambda>w. (w, Inr (fv_nullifiers V)))"
  "si_head (serving V) = (\<lambda>w. (w, Inr (fv_head V)))"
  "si_path (serving V) l = (\<lambda>w. (w, case fv_path V l of None \<Rightarrow> Inl () | Some p \<Rightarrow> Inr p))"
  by (simp_all add: serving_def)

lemma past_past: "at \<le> b \<Longrightarrow> filter (\<lambda>e. int (fe_seq e) > b) (past V at) = past V b"
  by (auto simp: past_def intro!: filter_cong)

lemma sorted_split:
  assumes "sorted_wrt (\<lambda>a b. fe_seq a < fe_seq b) (xs @ ys)" and "xs \<noteq> []" and "\<forall>e\<in>set xs. int (fe_seq e) > at"
  shows "filter (\<lambda>e. int (fe_seq e) > max_seq at xs) (xs @ ys) = (ys :: client_event list)"
proof -
  have m: "max_seq at xs \<in> insert at ((\<lambda>e. int (fe_seq e)) ` set xs)" unfolding max_seq_Max by (intro Max_in) auto
  have ub: "\<And>e. e \<in> set xs \<Longrightarrow> int (fe_seq e) \<le> max_seq at xs" unfolding max_seq_Max by (intro Max_ge) auto
  then have "max_seq at xs \<noteq> at" using assms(2,3) by (metis not_le list.set_intros(1) neq_Nil_conv)
  then obtain e where e: "e \<in> set xs" "max_seq at xs = int (fe_seq e)" using m by auto
  have "filter (\<lambda>e. int (fe_seq e) > max_seq at xs) xs = []" using ub by (auto simp: filter_empty_conv not_less)
  moreover have "filter (\<lambda>e. int (fe_seq e) > max_seq at xs) ys = ys"
    using assms(1) e by (auto simp: filter_id_conv sorted_wrt_append)
  ultimately show ?thesis by simp
qed

text \<open>With pages enough for the rest of the feed and the page that finds it empty, a drain reads all of it.\<close>

lemma drain_serving:
  assumes "view_ok V" and "length (past V at) \<le> pages * fv_page V"
  shows "drain (serving V) (Suc pages) at acc = ret (acc @ past V at, True)"
  using assms(2)
proof (induction pages arbitrary: at acc)
  case 0
  then have "past V at = []" by simp
  then show ?case by (simp add: serving_def Let_def max_seq_def)
next
  case (Suc pages)
  let ?pg = "take (fv_page V) (past V at)"
  have pg: "filter (\<lambda>e. int (fe_seq e) > at) ?pg = ?pg"
    by (auto simp: filter_id_conv past_def dest!: in_set_takeD)
  show ?case
  proof (cases "past V at = []")
    case True
    then show ?thesis by (simp add: serving_def Let_def max_seq_def)
  next
    case False
    then have ne: "?pg \<noteq> []" using assms(1) by (simp add: view_ok_def)
    have above: "\<forall>e\<in>set ?pg. int (fe_seq e) > at" by (auto simp: past_def dest!: in_set_takeD)
    have "sorted_wrt (\<lambda>a b. fe_seq a < fe_seq b) (past V at)"
      using assms(1) by (auto simp: view_ok_def past_def intro: sorted_wrt_filter)
    then have split: "filter (\<lambda>e. int (fe_seq e) > max_seq at ?pg) (past V at) = drop (fv_page V) (past V at)"
      using sorted_split [of ?pg "drop (fv_page V) (past V at)" at] ne above by simp
    have next_past: "past V (max_seq at ?pg) = drop (fv_page V) (past V at)"
      using split past_past [of at "max_seq at ?pg" V] max_seq_ge [of at ?pg] by simp
    have "length (past V (max_seq at ?pg)) \<le> pages * fv_page V" using Suc.prems by (simp add: next_past)
    note IH = Suc.IH [OF this, of "acc @ ?pg"]
    have "max_seq at ?pg \<noteq> at" using ne above unfolding max_seq_Max
      by (metis (no_types, lifting) Max_ge finite_imageI finite_insert finite_set image_eqI insertCI list.set_intros(1) neq_Nil_conv not_le)
    then show ?thesis using IH pg by (subst drain.simps) (simp add: serving_simps Let_def next_past del: drain.simps)
  qed
qed

lemma find_past:
  assumes "view_ok V"
  shows "List.find (\<lambda>e. fe_seq e = s) (take 1 (past V (int s - 1))) = List.find (\<lambda>e. fe_seq e = s) (fv_feed V)"
proof -
  have "sorted_wrt (\<lambda>a b. fe_seq a < fe_seq b) es \<Longrightarrow>
    List.find (\<lambda>e. fe_seq e = s) (take 1 (filter (\<lambda>e. int (fe_seq e) > int s - 1) es)) = List.find (\<lambda>e. fe_seq e = s) es"
    for es :: "client_event list"
  proof (induction es)
    case (Cons e es)
    have "List.find (\<lambda>e. fe_seq e = s) es = None" if "fe_seq e > s"
      using Cons.prems that by (auto simp: find_None_iff)
    then show ?case using Cons by (cases "fe_seq e < s") auto
  qed simp
  then show ?thesis using assms by (simp add: view_ok_def past_def)
qed

definition refound :: "feed_view \<Rightarrow> pending_discovery \<Rightarrow> client_event option" where
  "refound V p = List.find (\<lambda>e. fe_seq e = pd_seq p) (fv_feed V)"

lemma reread_serving:
  assumes "view_ok V"
  shows "reread_pending (serving V) ps = ret (map (refound V) ps)"
proof (induction ps)
  case (Cons p ps)
  show ?case using Cons find_past [OF assms, of "pd_seq p"] by (simp add: refound_def serving_simps)
qed simp

definition confirmed_by :: "hash2 \<Rightarrow> feed_view \<Rightarrow> scan_candidate \<Rightarrow> bool" where
  "confirmed_by h V c \<longleftrightarrow> (case fv_path V (dn_leafIndex c) of None \<Rightarrow> False | Some p \<Rightarrow> pathConfirmsLeaf h (dn_commitment c) p (dn_leafIndex c))"

definition gated_in :: "feed_view \<Rightarrow> scan_candidate \<Rightarrow> bool" where
  "gated_in V c \<longleftrightarrow> fv_path V (dn_leafIndex c) = None \<and> dn_family c = EnterpriseNote \<and> dn_kind c = KDisburse"

lemma confirm_serving:
  assumes "\<forall>l p. cache l = Some p \<longrightarrow> p = fv_path V l"
  shows "confirm_all h (serving V) cache cs = ret (filter (confirmed_by h V) cs, map gated_entry (filter (gated_in V) cs))"
  using assms
proof (induction cs arbitrary: cache)
  case (Cons c cs)
  have "(case cache (dn_leafIndex c) of Some p \<Rightarrow> ret p | None \<Rightarrow> attempt (si_path (serving V) (dn_leafIndex c))) =
      (ret (fv_path V (dn_leafIndex c)) :: ('a, unit scan_failure, path_result option) eff)"
    using Cons.prems by (auto simp: serving_simps split: option.splits)
  moreover have "\<forall>l p. (cache(dn_leafIndex c \<mapsto> fv_path V (dn_leafIndex c))) l = Some p \<longrightarrow> p = fv_path V l"
    using Cons.prems by auto
  note IH = Cons.IH [OF this]
  ultimately show ?case
    by (auto simp: IH confirm_verdict_def confirmed_by_def gated_in_def split: option.split)
qed simp

definition scan_window :: "feed_view \<Rightarrow> self_scan_state \<Rightarrow> client_event list" where
  "scan_window V prev = List.map_filter (refound V) (ss_pending prev) @ past V (ss_cursor prev)"

definition kept_pending :: "feed_view \<Rightarrow> self_scan_state \<Rightarrow> pending_discovery list" where
  "kept_pending V prev = filter (\<lambda>p. refound V p = None) (ss_pending prev)"

definition newly_found :: "hash2 \<Rightarrow> feed_view \<Rightarrow> 'a scan_found_scheme \<Rightarrow> scan_candidate list" where
  "newly_found h V found = sf_accepted found @ filter (confirmed_by h V) (sf_candidates found)"

definition newly_pending :: "feed_view \<Rightarrow> 'a scan_found_scheme \<Rightarrow> pending_discovery list" where
  "newly_pending V found = sf_pending found @ map gated_entry (filter (gated_in V) (sf_candidates found))"

definition next_state :: "hash2 \<Rightarrow> feed_view \<Rightarrow> self_scan_state \<Rightarrow> scan_pass \<Rightarrow> self_scan_state" where
  "next_state h V prev found =
     \<lparr>ss_cursor = max (ss_cursor prev) (sp_cursor found),
      ss_scannedNextLeafIndex = max (ss_scannedNextLeafIndex prev) (fv_head V),
      ss_notes = applySpent (mergeNotes (ss_notes prev) (newly_found h V found)) (set (fv_nullifiers V)),
      ss_pending = dedupePending (kept_pending V prev @ newly_pending V found)\<rparr>"

lemma map_the_filter: "map the (filter (\<lambda>r. r \<noteq> None) (map f xs)) = List.map_filter f xs"
  by (induction xs) (auto simp: map_filter_simps)

lemma zip_filter_None: "map fst (filter (\<lambda>(p, r). r = None) (zip xs (map f xs))) = filter (\<lambda>x. f x = None) xs"
  by (induction xs) auto

text \<open>A scan of a served feed, with pages enough.\<close>

lemma scan_serving:
  assumes "view_ok V" and "length (past V (ss_cursor prev)) \<le> pages * fv_page V"
  shows "runSelfScan h hN perm decaps (serving V) identity prev (Suc pages) w =
    (w, case scanEventsPass hN perm decaps identity (scan_window V prev) of
          Inl e \<Rightarrow> Inl (PassFailed e) | Inr found \<Rightarrow> Inr (next_state h V prev found))"
proof -
  note D = drain_serving [OF assms, of "[]", unfolded append_Nil]
  have R: "reread_pending (serving V) (ss_pending prev) = ret (map (refound V) (ss_pending prev))"
    by (rule reread_serving [OF assms(1)])
  have C: "confirm_all h (serving V) Map.empty cs = ret (filter (confirmed_by h V) cs, map gated_entry (filter (gated_in V) cs))" for cs
    by (rule confirm_serving) simp
  show ?thesis
    unfolding runSelfScan_def serving_simps eff_simps D R C prod.case Let_def map_the_filter zip_filter_None
      scan_window_def [symmetric]
    by (simp add: ret_def throw_def next_state_def newly_found_def newly_pending_def kept_pending_def split: sum.split)
qed

text \<open>The notes a scan holds afterwards.\<close>

lemma next_state_notes:
  assumes "n \<in> set (ss_notes (next_state h V prev found))"
  shows "(\<exists>p\<in>set (ss_notes prev). n = p\<lparr>sn_spent := dn_nullifier p \<in> set (fv_nullifiers V)\<rparr>) \<or>
    (\<exists>c\<in>set (newly_found h V found). n = scan_candidate.extend c \<lparr>sn_spent = dn_nullifier c \<in> set (fv_nullifiers V)\<rparr>)"
proof -
  obtain m where m: "m \<in> set (mergeNotes (ss_notes prev) (newly_found h V found))"
    "n = m\<lparr>sn_spent := dn_nullifier m \<in> set (fv_nullifiers V)\<rparr>" using assms by (auto simp: next_state_def applySpent_def)
  then consider "m \<in> set (ss_notes prev)" | "m \<in> set (merge_fresh (set (map dn_commitment (ss_notes prev))) (newly_found h V found))"
    by (auto simp: mergeNotes_def)
  then show ?thesis
  proof cases
    case 1
    then show ?thesis using m(2) by blast
  next
    case 2
    from merge_fresh_sub [OF this] obtain c where "c \<in> set (newly_found h V found)" "m = scan_candidate.extend c \<lparr>sn_spent = False\<rparr>" by blast
    then show ?thesis using m(2) by (auto simp: scan_candidate.defs)
  qed
qed

lemma next_state_commitments:
  "dn_commitment ` set (ss_notes (next_state h V prev found)) =
    dn_commitment ` set (ss_notes prev) \<union> dn_commitment ` set (newly_found h V found)"
  using merge_fresh_commitments [of "set (map dn_commitment (ss_notes prev))" "newly_found h V found"]
  by (auto simp: next_state_def applySpent_def mergeNotes_def image_Un image_image)

subsection \<open>What a pass finds\<close>

lemma pass_found:
  assumes "scanEventsPass hN perm decaps identity evs = Inr found"
  shows "(\<forall>e\<in>set evs. \<exists>f. scan_event hN perm decaps identity e = Inr f)"
    "sf_accepted found = concat (map (\<lambda>e. sf_accepted (projr (scan_event hN perm decaps identity e))) evs)"
    "sf_candidates found = concat (map (\<lambda>e. sf_candidates (projr (scan_event hN perm decaps identity e))) evs)"
    "sf_pending found = concat (map (\<lambda>e. sf_pending (projr (scan_event hN perm decaps identity e))) evs)"
    "sp_cursor found = max_seq (-1) evs"
proof -
  obtain f where c: "collect_found (scan_event hN perm decaps identity) evs = Inr f"
    and found: "found = scan_found.extend f \<lparr>sp_cursor = max_seq (-1) evs\<rparr>"
    using assms by (auto simp: scanEventsPass_def split: sum.splits)
  show "\<forall>e\<in>set evs. \<exists>f. scan_event hN perm decaps identity e = Inr f" using c collect_found_iff by metis
  note P = collect_found_parts [OF c]
  show "sf_accepted found = concat (map (\<lambda>e. sf_accepted (projr (scan_event hN perm decaps identity e))) evs)"
    "sf_candidates found = concat (map (\<lambda>e. sf_candidates (projr (scan_event hN perm decaps identity e))) evs)"
    "sf_pending found = concat (map (\<lambda>e. sf_pending (projr (scan_event hN perm decaps identity e))) evs)"
    "sp_cursor found = max_seq (-1) evs"
    using P by (simp_all add: found scan_found.defs)
qed

lemma pass_ok_iff:
  "(\<exists>found. scanEventsPass hN perm decaps identity evs = Inr found) \<longleftrightarrow>
     (\<forall>e\<in>set evs. \<exists>f. scan_event hN perm decaps identity e = Inr f)"
  using collect_found_iff [of "scan_event hN perm decaps identity" evs] by (auto simp: scanEventsPass_def split: sum.splits)

text \<open>A candidate of the wallet's keys: its commitment and nullifier are those of its value and salt.\<close>

definition own_candidate :: "hashN \<Rightarrow> consumer_identity \<Rightarrow> client_event \<Rightarrow> scan_candidate \<Rightarrow> bool" where
  "own_candidate hN identity ev c \<longleftrightarrow>
     dn_commitment c = commitment hN (dn_value c) (dn_salt c) (spend_pub identity) \<and>
     dn_nullifier c = nullifier hN (dn_value c) (dn_salt c) (spend_priv identity) \<and>
     dn_txHash c = fe_txHash ev \<and> dn_seq c = fe_seq ev \<and> dn_kind c = fe_kind ev \<and>
     (\<exists>s\<in>set (fe_slices ev). sl_leafIndex s = Some (dn_leafIndex c))"

lemma consumer_slice_own:
  assumes "scan_consumer_slice hN perm decaps identity ev eph nonce myTag vtags kemCts s = Inr f" and "s \<in> set (fe_slices ev)"
  shows "\<forall>c\<in>set (sf_candidates f). own_candidate hN identity ev c"
    "\<forall>c\<in>set (sf_accepted f). own_candidate hN identity ev c \<and>
       (\<exists>cs. fe_outputCommitments ev = Some cs \<and> at_quarter cs (sl_offset s) = Some (dn_commitment c)) \<and> sl_leafIndex s = Some (dn_leafIndex c)"
    "sf_pending f = []"
  using assms
  by (auto simp: scan_consumer_slice_def Let_def own_candidate_def draftOf_def
      split: option.splits if_splits sum.splits Option.bind_splits intro!: bexI [of _ s])

lemma enterprise_slice_own:
  assumes "scan_enterprise_slice hN perm identity ev shared nonce s = Inr f" and "s \<in> set (fe_slices ev)"
  shows "\<forall>c\<in>set (sf_candidates f). own_candidate hN identity ev c \<and> dn_family c = EnterpriseNote"
    "sf_accepted f = []" "sf_pending f = []"
  using assms
  by (auto simp: scan_enterprise_slice_def Let_def own_candidate_def enterprise_draft_def draftOf_def
      split: option.splits if_splits intro!: bexI [of _ s])

text \<open>What an event adds is about that event.\<close>

definition in_batch_run :: "client_event \<Rightarrow> scan_candidate \<Rightarrow> bool" where
  "in_batch_run ev c \<longleftrightarrow> fe_kind ev = KDisbursePriv \<and>
     (\<exists>s\<in>set (fe_slices ev). sl_leafIndex s = Some (dn_leafIndex c) \<and>
        Option.bind (fe_outputCommitments ev) (\<lambda>cs. at_quarter cs (sl_offset s)) = Some (dn_commitment c))"

lemma slice_batch_run:
  assumes "scan_consumer_slice hN perm decaps identity ev eph nonce myTag vtags kemCts s = Inr f" and "s \<in> set (fe_slices ev)"
    and "c \<in> set (sf_accepted f)"
  shows "in_batch_run ev c"
  using assms
  by (auto simp: scan_consumer_slice_def Let_def in_batch_run_def draftOf_def
      split: option.splits if_splits sum.splits Option.bind_splits intro!: bexI [of _ s])

lemma scan_event_Inr:
  assumes "scan_event hN perm decaps identity ev = Inr f"
  shows "f = pend ev DisclosureIncomplete \<or> f = nothing_found \<or>
    (\<exists>eph nonce. scan_enterprise_event hN perm identity ev eph nonce = Inr f) \<or>
    (\<exists>eph nonce vtags. scan_consumer_event hN perm decaps identity ev eph nonce vtags = Inr f)"
proof (cases "fe_kind ev = KDisbursePriv \<and> fe_batchId ev \<noteq> None \<and> (fe_viewTags ev = None \<or> fe_outputCommitments ev = None \<or> fe_slices ev = [])")
  case True
  then show ?thesis using assms by (simp add: scan_event_def)
next
  case False
  note e = assms [unfolded scan_event_def if_not_P [OF False]]
  show ?thesis
  proof (cases "fe_ecdhPublicKey ev = None \<or> fe_encryptionNonce ev = None")
    case True
    then have "f = nothing_found" using e by (auto split: option.splits)
    then show ?thesis by blast
  next
    case False
    then obtain eph nonce where k: "fe_ecdhPublicKey ev = Some eph" "fe_encryptionNonce ev = Some nonce" by auto
    show ?thesis
    proof (cases "fe_kind ev \<in> set CONSUMER_EVENT_KINDS")
      case True
      then have c: "(case fe_viewTags ev of None \<Rightarrow> Inr nothing_found
        | Some vtags \<Rightarrow> scan_consumer_event hN perm decaps identity ev eph nonce vtags) = Inr f" using e k by simp
      show ?thesis
      proof (cases "fe_viewTags ev")
        case None
        then have "f = nothing_found" using c by simp
        then show ?thesis by blast
      next
        case (Some vtags)
        then have "scan_consumer_event hN perm decaps identity ev eph nonce vtags = Inr f" using c by simp
        then show ?thesis by blast
      qed
    next
      case False
      then have "scan_enterprise_event hN perm identity ev eph nonce = Inr f" using e k by simp
      then show ?thesis by blast
    qed
  qed
qed

lemma event_own:
  assumes "scan_event hN perm decaps identity ev = Inr f"
  shows "\<forall>c\<in>set (sf_candidates f). own_candidate hN identity ev c"
    "\<forall>c\<in>set (sf_accepted f). own_candidate hN identity ev c \<and> in_batch_run ev c"
    "\<forall>p\<in>set (sf_pending f). pd_seq p = fe_seq ev \<and> pd_txHash p = fe_txHash ev"
proof -
  have P: "collect_found F (fe_slices ev) = Inr f \<Longrightarrow> (\<And>s g. s \<in> set (fe_slices ev) \<Longrightarrow> F s = Inr g \<Longrightarrow>
      (\<forall>c\<in>set (sf_candidates g). own_candidate hN identity ev c) \<and>
      (\<forall>c\<in>set (sf_accepted g). own_candidate hN identity ev c \<and> in_batch_run ev c) \<and> sf_pending g = []) \<Longrightarrow>
    (\<forall>c\<in>set (sf_candidates f). own_candidate hN identity ev c) \<and>
      (\<forall>c\<in>set (sf_accepted f). own_candidate hN identity ev c \<and> in_batch_run ev c) \<and> sf_pending f = []" for F
    using collect_found_parts [of F "fe_slices ev" f] collect_found_iff [of F "fe_slices ev"] by (auto simp: concat_eq_Nil_conv)
  have pend: "sf_candidates (pend ev st) = []" "sf_accepted (pend ev st) = []"
    "\<forall>p\<in>set (sf_pending (pend ev st)). pd_seq p = fe_seq ev \<and> pd_txHash p = fe_txHash ev" for st
    by (simp_all add: pend_def)
  have trans: "f = g \<Longrightarrow> g = nothing_found \<or> (\<exists>st. g = pend ev st) \<Longrightarrow>
      (\<forall>c\<in>set (sf_candidates f). own_candidate hN identity ev c) \<and>
      (\<forall>c\<in>set (sf_accepted f). own_candidate hN identity ev c \<and> in_batch_run ev c) \<and>
      (\<forall>p\<in>set (sf_pending f). pd_seq p = fe_seq ev \<and> pd_txHash p = fe_txHash ev)" for g
    using pend by auto
  have "kem_transport_of ev t vt = Inl g \<Longrightarrow> g = nothing_found \<or> (\<exists>st. g = pend ev st)" for t vt g
    by (auto simp: kem_transport_of_def split: if_splits option.splits kem_status.splits)
  note K = this trans
  from scan_event_Inr [OF assms] consider (1) "f = pend ev DisclosureIncomplete" | (2) "f = nothing_found"
    | (3) eph nonce where "scan_enterprise_event hN perm identity ev eph nonce = Inr f"
    | (4) eph nonce vtags where "scan_consumer_event hN perm decaps identity ev eph nonce vtags = Inr f" by blast
  then have "(\<forall>c\<in>set (sf_candidates f). own_candidate hN identity ev c) \<and>
      (\<forall>c\<in>set (sf_accepted f). own_candidate hN identity ev c \<and> in_batch_run ev c) \<and>
      (\<forall>p\<in>set (sf_pending f). pd_seq p = fe_seq ev \<and> pd_txHash p = fe_txHash ev)"
  proof cases
    case 3
    then obtain shared where c: "collect_found (scan_enterprise_slice hN perm identity ev shared nonce) (fe_slices ev) = Inr f"
      by (auto simp: scan_enterprise_event_def split: option.splits)
    show ?thesis using P [OF c] enterprise_slice_own by (metis (no_types, lifting) empty_iff list.set(1))
  next
    case 4
    then consider myTag g where "kem_transport_of ev myTag vtags = Inl g" "f = g"
      | myTag kemCts where "collect_found (scan_consumer_slice hN perm decaps identity ev eph nonce myTag vtags kemCts) (fe_slices ev) = Inr f"
      by (auto simp: scan_consumer_event_def split: option.splits sum.splits)
    then show ?thesis
    proof cases
      case 1
      then show ?thesis using K by blast
    next
      case 2
      show ?thesis using P [OF 2] consumer_slice_own slice_batch_run by (metis (no_types, lifting) empty_iff list.set(1))
    qed
  qed (use trans in auto)
  then show "\<forall>c\<in>set (sf_candidates f). own_candidate hN identity ev c"
    "\<forall>c\<in>set (sf_accepted f). own_candidate hN identity ev c \<and> in_batch_run ev c"
    "\<forall>p\<in>set (sf_pending f). pd_seq p = fe_seq ev \<and> pd_txHash p = fe_txHash ev" by blast+
qed

lemma find_SomeD: "List.find P xs = Some x \<Longrightarrow> x \<in> set xs \<and> P x"
  by (auto simp: find_Some_iff)

lemma window_in_feed: "set (scan_window V prev) \<subseteq> set (fv_feed V)"
  by (auto simp: scan_window_def past_def refound_def map_filter_def dest: find_SomeD)

lemma found_in_window:
  assumes "scanEventsPass hN perm decaps identity evs = Inr found"
  shows "c \<in> set (sf_candidates found) \<Longrightarrow> \<exists>ev\<in>set evs. \<exists>f. scan_event hN perm decaps identity ev = Inr f \<and> c \<in> set (sf_candidates f)"
    "c \<in> set (sf_accepted found) \<Longrightarrow> \<exists>ev\<in>set evs. \<exists>f. scan_event hN perm decaps identity ev = Inr f \<and> c \<in> set (sf_accepted f)"
    "p \<in> set (sf_pending found) \<Longrightarrow> \<exists>ev\<in>set evs. \<exists>f. scan_event hN perm decaps identity ev = Inr f \<and> p \<in> set (sf_pending f)"
  using pass_found [OF assms] by fastforce+

subsection \<open>Soundness\<close>

text \<open>A note that is in the tree, as far as the indexer's answers show it.\<close>

definition leaf_shown :: "hash2 \<Rightarrow> feed_view \<Rightarrow> client_event \<Rightarrow> scan_candidate \<Rightarrow> bool" where
  "leaf_shown h V ev c \<longleftrightarrow> confirmed_by h V c \<or> in_batch_run ev c"

lemma newly_found_own:
  assumes "scanEventsPass hN perm decaps identity (scan_window V prev) = Inr found" and "c \<in> set (newly_found h V found)"
  shows "\<exists>ev\<in>set (fv_feed V). own_candidate hN identity ev c \<and> leaf_shown h V ev c"
proof -
  from assms(2) consider "c \<in> set (sf_accepted found)" | "c \<in> set (sf_candidates found)" "confirmed_by h V c"
    by (auto simp: newly_found_def)
  then show ?thesis
    using found_in_window [OF assms(1)] event_own window_in_feed unfolding leaf_shown_def by (cases; meson subsetD)
qed

text \<open>
  C10: A scan claims nothing it cannot show. Every note of the state a scan returns was in the previous
  state, or was opened with the wallet's own keys from an event of the feed: its commitment and nullifier
  are those of its value and salt under the wallet's spending key, and the indexer showed that commitment
  at its leaf, by a path that folds to the served root or by the commitment run of its batch. A note is
  marked spent exactly when its nullifier is published, no commitment is held twice, and the cursor
  never moves back.
\<close>
theorem scan_notes_are_own:
  assumes "view_ok V" and "length (past V (ss_cursor prev)) \<le> pages * fv_page V"
    and "runSelfScan h hN perm decaps (serving V) identity prev (Suc pages) w = (w', Inr st)"
    and "distinct (map dn_commitment (ss_notes prev))"
  shows "(\<forall>n\<in>set (ss_notes st). sn_spent n = (dn_nullifier n \<in> set (fv_nullifiers V)) \<and>
      ((\<exists>p\<in>set (ss_notes prev). scan_candidate.truncate n = scan_candidate.truncate p) \<or>
       (\<exists>ev\<in>set (fv_feed V). own_candidate hN identity ev (scan_candidate.truncate n) \<and> leaf_shown h V ev (scan_candidate.truncate n)))) \<and>
    distinct (map dn_commitment (ss_notes st)) \<and> ss_cursor prev \<le> ss_cursor st"
proof -
  obtain found where pass: "scanEventsPass hN perm decaps identity (scan_window V prev) = Inr found"
    and st: "st = next_state h V prev found"
    using assms(3) scan_serving [OF assms(1,2), of h hN perm decaps identity w] by (auto split: sum.splits)
  note new = newly_found_own [OF pass]
  have "sn_spent n = (dn_nullifier n \<in> set (fv_nullifiers V)) \<and>
      ((\<exists>p\<in>set (ss_notes prev). scan_candidate.truncate n = scan_candidate.truncate p) \<or>
       (\<exists>ev\<in>set (fv_feed V). own_candidate hN identity ev (scan_candidate.truncate n) \<and> leaf_shown h V ev (scan_candidate.truncate n)))"
    if "n \<in> set (ss_notes st)" for n
    using next_state_notes [OF that [unfolded st]]
  proof
    assume "\<exists>p\<in>set (ss_notes prev). n = p\<lparr>sn_spent := dn_nullifier p \<in> set (fv_nullifiers V)\<rparr>"
    then show ?thesis by (auto simp: scan_candidate.defs)
  next
    assume "\<exists>c\<in>set (newly_found h V found). n = scan_candidate.extend c \<lparr>sn_spent = dn_nullifier c \<in> set (fv_nullifiers V)\<rparr>"
    then obtain c where c: "c \<in> set (newly_found h V found)" "n = scan_candidate.extend c \<lparr>sn_spent = dn_nullifier c \<in> set (fv_nullifiers V)\<rparr>" by blast
    then have t: "scan_candidate.truncate n = c" "dn_nullifier n = dn_nullifier c" "sn_spent n = (dn_nullifier c \<in> set (fv_nullifiers V))"
      by (simp_all add: scan_candidate.defs)
    show ?thesis unfolding t using new [OF c(1)] by blast
  qed
  moreover have "distinct (map dn_commitment (ss_notes st))"
    using assms(4) merge_fresh_commitments [of "set (map dn_commitment (ss_notes prev))" "newly_found h V found"]
      merge_fresh_distinct [of "set (map dn_commitment (ss_notes prev))" "newly_found h V found"]
    by (auto simp: st next_state_def applySpent_def mergeNotes_def comp_def)
  ultimately show ?thesis by (simp add: st next_state_def)
qed

subsection \<open>A payment is found\<close>

text \<open>What the circuit publishes for output \<open>i\<close>: its receiver ciphertext and its view tag.\<close>

definition circuit_publishes :: "hashN \<Rightarrow> perm4 \<Rightarrow> consumer_input \<Rightarrow> nat \<Rightarrow> int list \<Rightarrow> int \<Rightarrow> bool" where
  "circuit_publishes hN perm w i ct tag \<longleftrightarrow>
     (case ecdhSharedSecret (cs_ecdhPrivateKey w) (co_views (cs_outputs w) ! i) of
        None \<Rightarrow> False
      | Some shared \<Rightarrow>
          encryptConsumerNote perm (co_values (cs_outputs w) ! i) (co_salts (cs_outputs w) ! i)
            (hybridReceiverKey hN shared (co_kemSs (cs_outputs w) ! i)) (cs_encryptionNonce w) i = Inr ct \<and>
          consumerViewTag hN shared = Inr tag)"

text \<open>The row the indexer projects for a two-output consumer operation of that witness.\<close>

definition published_row :: "hashN \<Rightarrow> perm4 \<Rightarrow> consumer_input \<Rightarrow> string list \<Rightarrow> point \<Rightarrow> nat \<Rightarrow> nat \<Rightarrow> op_projection \<Rightarrow> bool" where
  "published_row hN perm w kemCts eph l0 l1 row \<longleftrightarrow>
     (\<exists>kind ct0 ct1 t0 t1. circuit_publishes hN perm w 0 ct0 t0 \<and> circuit_publishes hN perm w 1 ct1 t1 \<and>
        row = ConsumerRow kind eph (cs_encryptionNonce w) l0 l1 (ct0 @ ct1) [t0, t1] kemCts)"

text \<open>
  The keys of a wallet answer its registered triple: the spending key and the KEM key are those of the
  triple, the view key agrees with the ephemeral key of the sender, and decapsulation, which always gives
  32 bytes, inverts encapsulation.
\<close>

definition answers_triple ::
  "kem_draws \<Rightarrow> (bytes \<Rightarrow> bytes \<Rightarrow> bytes) \<Rightarrow> int \<Rightarrow> point \<Rightarrow> consumer_identity \<Rightarrow> consumer_recipient \<Rightarrow> bool" where
  "answers_triple encaps decaps ephemeral eph payee r \<longleftrightarrow>
     unpackPubkey (js_trim (rc_owner r)) = Inr (spend_pub payee) \<and> kemHexToBytes (rc_kemEk r) = Some (ci_kemEk payee) \<and>
     (\<forall>vp. unpackPubkey (js_trim (rc_noteViewPub r)) = Inr vp \<longrightarrow>
        ecdhSharedSecret (view_priv payee) eph = ecdhSharedSecret ephemeral vp) \<and>
     (\<forall>i s. decaps (fst (encaps i (ci_kemEk payee) s)) (ci_kemDk payee) = snd (encaps i (ci_kemEk payee) s)) \<and>
     (\<forall>ct dk. length (decaps ct dk) = 32)"

lemma traverse_nth: "traverse f xs = Inr ys \<Longrightarrow> length ys = length xs \<and> (\<forall>i<length xs. f (xs ! i) = Inr (ys ! i))"
  using traverse_Inr [of f xs ys] by (auto simp: list_all2_conv_all_nth)

lemma plan_output_Inr:
  assumes "plan_output hN perm encaps e n (i, spec) = Inr po"
  obtains spendPub viewPub ek where "unpackPubkey (js_trim (rc_owner (os_recipient spec))) = Inr spendPub"
    "unpackPubkey (js_trim (rc_noteViewPub (os_recipient spec))) = Inr viewPub"
    "kemHexToBytes (rc_kemEk (os_recipient spec)) = Some ek"
    "sealConsumerOutput hN perm (encaps i) (os_value spec) (os_salt spec) e viewPub ek n i None = Inr (po_seal po)"
    "po_value po = os_value spec" "po_salt po = os_salt spec" "po_viewPub po = viewPub"
    "po_commitment po = commitment hN (os_value spec) (os_salt spec) spendPub"
  using assms by (auto simp: plan_output_def parsePoint_def parseKem_def split: sum.splits option.splits)

lemma sealed_is_published:
  assumes "sealConsumerOutput hN perm enc v s e viewPub ek n i seed = Inr so"
  shows "\<exists>shared. ecdhSharedSecret e viewPub = Some shared \<and>
    encryptConsumerNote perm v s (hybridReceiverKey hN shared (so_kemSs so)) n i = Inr (so_cipherText so) \<and>
    consumerViewTag hN shared = Inr (so_viewTag so) \<and> so_kemCiphertext so = fst (enc ek seed)"
  using assms by (auto simp: sealConsumerOutput_def Let_def split: option.splits sum.splits prod.splits)

text \<open>The outputs of a transfer that was built: payment first, and what its transaction carries.\<close>

lemma built_transfer_outputs:
  assumes "buildConsumerLeg h hN perm encaps a identity ms c rcp = Inr (req, m)"
    and "req = TransferPrivRequest w \<or> req = Transfer10x2PrivRequest w"
  obtains po0 po1 v s where "plan_output hN perm encaps (cs_ecdhPrivateKey w) (cs_encryptionNonce w)
        (0, \<lparr>os_recipient = ca_to a, os_value = v, os_salt = s\<rparr>) = Inr po0"
    "cs_outputs w = outputSide [po0, po1]" "cm_kemCiphertexts m = fst (sealMeta [po0, po1])"
    "js_BigInt (ca_amount a) = Some v" "0 < v" "v \<le> sm_inputTotal m" "cc_payeeSalt c = Some s"
    "cs_ecdhPrivateKey w = cc_ecdhPrivateKey c" "\<exists>spec. plan_output hN perm encaps (cs_ecdhPrivateKey w) (cs_encryptionNonce w) (1, spec) = Inr po1"
proof -
  obtain arity where "consumerTransferParts h hN perm encaps identity (ca_inputs a) ms (ca_to a) (ca_amount a) c arity = Inr (w, m)"
    using assms
    by (cases "ca_circuit a")
      (auto simp: buildConsumerLeg_def buildConsumerTransferRequest_def buildConsumerTransfer10x2Request_def tag_consumer_def
        buildConsumerWithdrawRequest_def Let_def split: sum.splits option.splits if_splits)
  then obtain s ins v outs where *: "cc_payeeSalt c = Some s" "parse_amount (ca_amount a) (as_inputTotal ins) = Inr v"
    "planConsumerOutputs hN perm encaps (cc_ecdhPrivateKey c) (cc_encryptionNonce c)
       [\<lparr>os_recipient = ca_to a, os_value = v, os_salt = s\<rparr>,
        \<lparr>os_recipient = selfConsumerRecipient identity, os_value = as_inputTotal ins - v, os_salt = cc_changeSalt c\<rparr>] = Inr outs"
    "w = consumer_witness (wi_keypair identity) ins c outs" "m = consumerSpendMeta ins v (as_inputTotal ins - v) outs"
    by (auto simp: consumerTransferParts_def Let_def split: option.splits sum.splits)
  from *(3) obtain po0 po1 where o: "outs = [po0, po1]"
    "plan_output hN perm encaps (cc_ecdhPrivateKey c) (cc_encryptionNonce c) (0, \<lparr>os_recipient = ca_to a, os_value = v, os_salt = s\<rparr>) = Inr po0"
    "\<exists>spec. plan_output hN perm encaps (cc_ecdhPrivateKey c) (cc_encryptionNonce c) (1, spec) = Inr po1"
    by (auto simp: planConsumerOutputs_def upt_rec split: sum.splits)
  show ?thesis
    using that [of v s po0 po1] * o
    by (simp add: consumer_witness_def consumerSpendMeta_def spend_meta.defs spendMeta_def parse_amount_Inr)
qed

lemma at_quarter_simps [simp]:
  "at_quarter (x # xs) 0 = Some x" "at_quarter (x # y # xs) 4 = Some y"
  by (simp_all add: at_quarter_def CONSUMER_CT_LEN_def)

text \<open>A slice of the row, when the transport and the keys are sound, never stops the scan.\<close>

lemma consumer_slice_runs:
  assumes "ecdhSharedSecret (view_priv identity) eph = Some shared" "consumerViewTag hN shared = Inr myTag"
    and "\<forall>ct dk. length (decaps ct dk) = 32" and "\<forall>k. at_quarter kemCts (sl_offset s) = Some k \<longrightarrow> kemHexToBytes k \<noteq> None"
    and "length (slice_ct ev s) = 4" and "offsetNonce nonce (sl_offset s div 4) = Inr n'"
  shows "\<exists>f. scan_consumer_slice hN perm decaps identity ev eph nonce myTag vtags kemCts s = Inr f"
proof (cases "sl_leafIndex s = None \<or> sl_elts s \<noteq> CONSUMER_CT_LEN \<or> at_quarter vtags (sl_offset s) \<noteq> Some myTag \<or> at_quarter kemCts (sl_offset s) = None")
  case True
  then show ?thesis by (auto simp: scan_consumer_slice_def Let_def split: option.split)
next
  case False
  then obtain l k kc where k: "sl_leafIndex s = Some l" "at_quarter kemCts (sl_offset s) = Some k" "kemHexToBytes k = Some kc"
    using assms(4) by auto
  have "\<exists>v s' t. openConsumerOutput hN perm decaps (slice_ct ev s) eph (view_priv identity) (ci_kemDk identity) kc nonce (sl_offset s div CONSUMER_CT_LEN) = Inr (v, s', t)"
    using assms by (auto simp: openConsumerOutput_def decryptConsumerNote_def kemSsToLimbs_def Let_def CONSUMER_CT_LEN_def)
  then show ?thesis using False k by (auto simp: scan_consumer_slice_def Let_def)
qed

lemma offset_of_encrypt: "encryptConsumerNote perm v s key n i = Inr ct \<Longrightarrow> \<exists>n'. offsetNonce n i = Inr n'"
  by (auto simp: encryptConsumerNote_def split: sum.splits)

lemma pad3_pair: "pad3 [v, s] = [v, s, 0]"
  by (simp add: pad3.simps [of "[v, s]"] pad3.simps [of "[v, s, 0]"])

lemma length_encrypt: "encryptConsumerNote perm v s key n i = Inr ct \<Longrightarrow> length ct = 4"
  by (auto simp: encryptConsumerNote_def poseidonEncrypt_def pad3_pair Let_def split: sum.splits prod.splits)

text \<open>The event of a payment, scanned by its payee.\<close>

lemma payment_event:
  assumes built: "buildConsumerLeg h hN perm encaps a identity ms c rcp = Inr (req, m)"
    and req: "req = TransferPrivRequest w \<or> req = Transfer10x2PrivRequest w"
    and row: "published_row hN perm w (cm_kemCiphertexts m) eph l0 l1 row"
    and ev: "feed_draft.truncate ev = projectFeedEntry pos row"
    and payee: "answers_triple encaps decaps (cc_ecdhPrivateKey c) eph payee (ca_to a)"
    and field: "sm_inputTotal m < FIELD_PRIME" "\<forall>s. cc_payeeSalt c = Some s \<longrightarrow> 0 \<le> s \<and> s < FIELD_PRIME"
  shows "\<exists>f. scan_event hN perm decaps payee ev = Inr f \<and>
    (\<exists>cand\<in>set (sf_candidates f). Some (dn_value cand) = js_BigInt (ca_amount a) \<and> Some (dn_salt cand) = cc_payeeSalt c \<and>
       dn_leafIndex cand = l0 \<and> dn_commitment cand = hd (co_commitments (cs_outputs w)) \<and> dn_family cand = ConsumerNote)"
proof -
  obtain po0 po1 v s spec where p0: "plan_output hN perm encaps (cs_ecdhPrivateKey w) (cs_encryptionNonce w)
        (0, \<lparr>os_recipient = ca_to a, os_value = v, os_salt = s\<rparr>) = Inr po0"
    and outs: "cs_outputs w = outputSide [po0, po1]" and cts: "cm_kemCiphertexts m = fst (sealMeta [po0, po1])"
    and v: "js_BigInt (ca_amount a) = Some v" "0 < v" "v \<le> sm_inputTotal m" and s: "cc_payeeSalt c = Some s"
    and e: "cs_ecdhPrivateKey w = cc_ecdhPrivateKey c"
    and p1: "plan_output hN perm encaps (cs_ecdhPrivateKey w) (cs_encryptionNonce w) (1, spec) = Inr po1"
    by (rule built_transfer_outputs [OF built req]) blast
  let ?so = "po_seal po0" and ?n = "cs_encryptionNonce w"
  obtain viewPub where vp: "unpackPubkey (js_trim (rc_noteViewPub (ca_to a))) = Inr viewPub" and pv: "po_viewPub po0 = viewPub"
    and seal: "sealConsumerOutput hN perm (encaps 0) v s (cc_ecdhPrivateKey c) viewPub (ci_kemEk payee) ?n 0 None = Inr ?so"
    and vals: "po_value po0 = v" "po_salt po0 = s" "po_commitment po0 = commitment hN v s (spend_pub payee)"
    using payee by (auto intro: plan_output_Inr [OF p0] simp: e answers_triple_def)
  have agree: "ecdhSharedSecret (view_priv payee) eph = ecdhSharedSecret (cc_ecdhPrivateKey c) viewPub"
    using payee vp by (simp add: answers_triple_def)
  obtain shared where sh: "ecdhSharedSecret (cc_ecdhPrivateKey c) viewPub = Some shared"
    "encryptConsumerNote perm v s (hybridReceiverKey hN shared (so_kemSs ?so)) ?n 0 = Inr (so_cipherText ?so)"
    "consumerViewTag hN shared = Inr (so_viewTag ?so)" "so_kemCiphertext ?so = fst (encaps 0 (ci_kemEk payee) None)"
    using sealed_is_published [OF seal] by blast
  obtain kind ct0 ct1 t0 t1 where c0: "circuit_publishes hN perm w 0 ct0 t0" and c1: "circuit_publishes hN perm w 1 ct1 t1"
    and r: "row = ConsumerRow kind eph ?n l0 l1 (ct0 @ ct1) [t0, t1] (cm_kemCiphertexts m)"
    using row by (auto simp: published_row_def)
  have ct0: "ct0 = so_cipherText ?so" "t0 = so_viewTag ?so"
    using c0 sh vals pv by (auto simp: circuit_publishes_def outs outputSide_def e)
  have open0: "openConsumerOutput hN perm decaps ct0 eph (view_priv payee) (ci_kemDk payee) (so_kemCiphertext ?so) ?n 0 = Inr (v, s, t0)"
    and len0: "length ct0 = 4"
    using consumer_output_opens [OF seal agree, of decaps "ci_kemDk payee"] payee v field s sh(4) by (auto simp: ct0 answers_triple_def)
  have n1: "\<exists>n'. offsetNonce ?n 1 = Inr n'" using c1 by (auto simp: circuit_publishes_def dest: offset_of_encrypt split: option.splits)
  have kinds: "consumer_event kind \<in> set CONSUMER_EVENT_KINDS" "consumer_event kind \<noteq> KDisbursePriv"
    by (cases kind; simp add: CONSUMER_EVENT_KINDS_def)+
  define k0 k1 where "k0 = kemBytesToHex (so_kemCiphertext ?so)" and "k1 = kemBytesToHex (so_kemCiphertext (po_seal po1))"
  have parts: "fe_kind ev = consumer_event kind" "fe_ecdhPublicKey ev = Some eph" "fe_encryptionNonce ev = Some ?n"
    "fe_viewTags ev = Some [t0, t1]" "fe_kemCiphertexts ev = Some [k0, k1]" "fe_ciphertext ev = ct0 @ ct1"
    "fe_slices ev = [\<lparr>sl_offset = 0, sl_elts = 4, sl_leafIndex = Some l0\<rparr>, \<lparr>sl_offset = 4, sl_elts = 4, sl_leafIndex = Some l1\<rparr>]"
    using ev by (simp_all add: r cts sealMeta_def bare_entry_def feed_draft.defs k0_def k1_def)
  let ?s0 = "\<lparr>sl_offset = 0, sl_elts = 4, sl_leafIndex = Some l0\<rparr>" and ?s1 = "\<lparr>sl_offset = 4, sl_elts = 4, sl_leafIndex = Some l1\<rparr>"
  let ?F = "scan_consumer_slice hN perm decaps payee ev eph ?n t0 [t0, t1] [k0, k1]"
  have slices: "slice_ct ev ?s0 = ct0" "slice_ct ev ?s1 = ct1"
    using len0 c1 by (auto simp: slice_ct_def parts circuit_publishes_def dest: length_encrypt split: option.splits)
  have len1: "length ct1 = 4" using c1 by (auto simp: circuit_publishes_def dest: length_encrypt split: option.splits)
  define cand where "cand = draftOf ev ConsumerNote l0 v s (commitment hN v s (spend_pub payee)) (nullifier hN v s (spend_priv payee))"
  have "\<exists>f0. ?F ?s0 = Inr f0 \<and> sf_candidates f0 = [cand]"
    using open0 kinds(2)
    by (simp add: scan_consumer_slice_def CONSUMER_CT_LEN_def slices k0_def kem_hex_roundtrip Let_def parts(1) cand_def
        del: at_quarter_simps add: at_quarter_simps [unfolded CONSUMER_CT_LEN_def])
  then obtain f0 where f0: "?F ?s0 = Inr f0" "sf_candidates f0 = [cand]" by blast
  obtain n' where n': "offsetNonce ?n 1 = Inr n'" using n1 by blast
  have "\<exists>f1. ?F ?s1 = Inr f1"
    by (rule consumer_slice_runs [where shared = shared and n' = n'])
      (use agree sh ct0 payee n' len1 in \<open>auto simp: slices answers_triple_def k1_def kem_hex_roundtrip\<close>)
  then obtain f1 where f1: "?F ?s1 = Inr f1" by blast
  have "scan_event hN perm decaps payee ev = collect_found ?F [?s0, ?s1]"
    using kinds agree sh ct0
    by (simp add: scan_event_def parts scan_consumer_event_def kem_transport_of_def)
  also have "\<dots> = Inr (join_found f0 (join_found f1 nothing_found))" by (simp add: f0 f1)
  finally show ?thesis using f0(2) v s vals(3)
    by (auto simp: cand_def draftOf_def outs outputSide_def)
qed

text \<open>Only one value and salt open a commitment of the key.\<close>

definition binding_for :: "hashN \<Rightarrow> point \<Rightarrow> bool" where
  "binding_for hN pk \<longleftrightarrow> (\<forall>v s v' s'. commitment hN v s pk = commitment hN v' s' pk \<longrightarrow> v = v' \<and> s = s')"

definition notes_open :: "hashN \<Rightarrow> consumer_identity \<Rightarrow> scan_note list \<Rightarrow> bool" where
  "notes_open hN identity ns \<longleftrightarrow>
     (\<forall>n\<in>set ns. dn_commitment n = commitment hN (dn_value n) (dn_salt n) (spend_pub identity) \<and>
        dn_nullifier n = nullifier hN (dn_value n) (dn_salt n) (spend_priv identity))"

lemma next_state_opens:
  assumes "scanEventsPass hN perm decaps identity (scan_window V prev) = Inr found" and "notes_open hN identity (ss_notes prev)"
  shows "notes_open hN identity (ss_notes (next_state h V prev found))"
  unfolding notes_open_def
proof
  fix n assume "n \<in> set (ss_notes (next_state h V prev found))"
  from next_state_notes [OF this]
  show "dn_commitment n = commitment hN (dn_value n) (dn_salt n) (spend_pub identity) \<and>
        dn_nullifier n = nullifier hN (dn_value n) (dn_salt n) (spend_priv identity)"
  proof
    assume "\<exists>c\<in>set (newly_found h V found). n = scan_candidate.extend c \<lparr>sn_spent = dn_nullifier c \<in> set (fv_nullifiers V)\<rparr>"
    then obtain c where c: "c \<in> set (newly_found h V found)" "n = scan_candidate.extend c \<lparr>sn_spent = dn_nullifier c \<in> set (fv_nullifiers V)\<rparr>" by blast
    from newly_found_own [OF assms(1) c(1)] obtain ev where "own_candidate hN identity ev c" by blast
    then show ?thesis by (simp add: c(2) scan_candidate.defs own_candidate_def)
  qed (use assms(2) in \<open>auto simp: notes_open_def\<close>)
qed



subsection \<open>A run of both theorems\<close>

text \<open>Whatever transfer was built, its circuit publishes both outputs.\<close>

lemma built_transfer_publishes:
  assumes "buildConsumerLeg h hN perm encaps a identity ms c rcp = Inr (req, m)"
    and "req = TransferPrivRequest w \<or> req = Transfer10x2PrivRequest w"
  shows "\<exists>ct0 t0 ct1 t1. circuit_publishes hN perm w 0 ct0 t0 \<and> circuit_publishes hN perm w 1 ct1 t1"
proof -
  obtain po0 po1 spec0 where p: "plan_output hN perm encaps (cs_ecdhPrivateKey w) (cs_encryptionNonce w) (0, spec0) = Inr po0"
    "\<exists>spec. plan_output hN perm encaps (cs_ecdhPrivateKey w) (cs_encryptionNonce w) (1, spec) = Inr po1"
    "cs_outputs w = outputSide [po0, po1]"
    by (rule built_transfer_outputs [OF assms]) blast
  have each: "\<exists>ct t. circuit_publishes hN perm w i ct t"
    if plan: "plan_output hN perm encaps (cs_ecdhPrivateKey w) (cs_encryptionNonce w) (i, spec) = Inr po"
      and "i < 2" "[po0, po1] ! i = po" for i spec po
  proof -
    obtain viewPub ek where "sealConsumerOutput hN perm (encaps i) (os_value spec) (os_salt spec) (cs_ecdhPrivateKey w) viewPub ek
        (cs_encryptionNonce w) i None = Inr (po_seal po)"
      and v: "po_value po = os_value spec" "po_salt po = os_salt spec" "po_viewPub po = viewPub"
      by (rule plan_output_Inr [OF plan]) blast
    note s = sealed_is_published [OF this(1)]
    have "co_values (cs_outputs w) ! i = po_value po" "co_salts (cs_outputs w) ! i = po_salt po"
      "co_views (cs_outputs w) ! i = po_viewPub po" "co_kemSs (cs_outputs w) ! i = so_kemSs (po_seal po)"
      using that(2,3) by (simp_all add: p(3) outputSide_def nth_Cons split: nat.splits)
    then show ?thesis using s v by (auto simp: circuit_publishes_def)
  qed
  obtain spec1 where p1: "plan_output hN perm encaps (cs_ecdhPrivateKey w) (cs_encryptionNonce w) (1, spec1) = Inr po1"
    using p(2) by blast
  show ?thesis using each [OF p(1)] each [OF p1] by force
qed

definition pay_hN :: hashN where
  "pay_hN xs = (if length xs = 4 then int (to_nat (xs ! 0, xs ! 1)) else 300)"

definition pay_identity :: consumer_identity where
  "pay_identity =
     \<lparr>wi_keypair = \<lparr>formattedPrivateKey = 0, publicKey = (0, 1)\<rparr>, wi_compressedPubkey = identity_hex 0,
      ci_viewKeypair = \<lparr>formattedPrivateKey = 0, publicKey = (0, 1)\<rparr>, ci_compressedViewPubkey = identity_hex 0,
      ci_kemEk = [7], ci_kemDk = [8]\<rparr>"

definition pay_encaps :: kem_draws where
  "pay_encaps i ek seed = (ek @ [word_of_nat i], replicate 32 (word_of_nat i))"

definition pay_decaps :: "bytes \<Rightarrow> bytes \<Rightarrow> bytes" where
  "pay_decaps ct dk = replicate 32 (last ct)"

definition pay_crypto :: consumer_crypto where
  "pay_crypto = \<lparr>cc_ecdhPrivateKey = 0, cc_encryptionNonce = 12, cc_payeeSalt = Some 9, cc_changeSalt = 13, cc_padSalts = [14]\<rparr>"

definition pay_action :: consumer_action where
  "pay_action =
     \<lparr>ca_circuit = CTransferPriv, ca_inputs = [\<lparr>in_value = 70, in_salt = ''9'', in_leaf = 5\<rparr>],
      ca_to = selfConsumerRecipient pay_identity, ca_amount = ''50''\<rparr>"

definition pay_member :: membership where
  "pay_member = \<lparr>mb_root = 0, mb_pathElements = replicate H_TREE 4, mb_leafIndex = 5\<rparr>"

lemma pay_shared: "ecdhSharedSecret 0 p = Some (0, 1)"
  by (simp add: ecdhSharedSecret_def mulPointEscalar_def bits_msb.simps ladder_step_def IDENTITY_def)

lemma pay_tag: "consumerViewTag pay_hN (0, 1) = Inr (300 mod 256)"
  by (simp add: consumerViewTag_def viewTagFromField_def pay_hN_def FIELD_PRIME_def)

lemma pay_keys:
  "unpackPubkey (js_trim (identity_hex 0)) = Inr (0, 1)" "kemHexToBytes (kemBytesToHex (ci_kemEk pay_identity)) = Some [7]"
proof -
  have "js_trim (identity_hex 0) = identity_hex 0" by code_simp
  then show "unpackPubkey (js_trim (identity_hex 0)) = Inr (0, 1)" by (simp only: unpack_identity(1))
  show "kemHexToBytes (kemBytesToHex (ci_kemEk pay_identity)) = Some [7]" by (simp add: kem_hex_roundtrip pay_identity_def)
qed

lemma pay_plan:
  "\<exists>po. plan_output pay_hN perm pay_encaps 0 12 (i, \<lparr>os_recipient = selfConsumerRecipient pay_identity, os_value = v, os_salt = s\<rparr>) = Inr po"
  if "i < 2"
proof -
  have "offsetNonce 12 i = Inr (12 + int i)" using that by (simp add: offsetNonce_def TWO128_def)
  then have "\<exists>so. sealConsumerOutput pay_hN perm (pay_encaps i) v s 0 (0, 1) [7] 12 i None = Inr so"
    by (simp add: sealConsumerOutput_def pay_shared pay_encaps_def kemSsToLimbs_def encryptConsumerNote_def pay_tag Let_def)
  then show ?thesis
    using pay_keys
    by (auto simp: plan_output_def parsePoint_def parseKem_def selfConsumerRecipient_def pay_identity_def)
qed

lemma pay_built:
  "\<exists>w m. buildConsumerLeg h pay_hN perm pay_encaps pay_action pay_identity [pay_member] pay_crypto [] = Inr (TransferPrivRequest w, m) \<and>
    sm_inputTotal m = 70"
proof -
  let ?r = "selfConsumerRecipient pay_identity"
  obtain po0 where p0: "plan_output pay_hN perm pay_encaps 0 12 (0, \<lparr>os_recipient = ?r, os_value = 50, os_salt = 9\<rparr>) = Inr po0"
    using pay_plan [of 0 perm 50 9] by auto
  obtain po1 where p1: "plan_output pay_hN perm pay_encaps 0 12 (1, \<lparr>os_recipient = ?r, os_value = 20, os_salt = 13\<rparr>) = Inr po1"
    using pay_plan [of 1 perm 20 13] by auto
  obtain ins where ins: "assembleInputs h pay_hN (wi_keypair pay_identity) (ca_inputs pay_action) [pay_member] [14] 2 = Inr ins"
    and tot: "as_inputTotal ins = 70"
    by (simp add: assembleInputs_def Let_def pay_action_def real_slot_def demo_numbers pay_member_def)
  have "planConsumerOutputs pay_hN perm pay_encaps 0 12
      [\<lparr>os_recipient = ?r, os_value = 50, os_salt = 9\<rparr>, \<lparr>os_recipient = ?r, os_value = 20, os_salt = 13\<rparr>] = Inr [po0, po1]"
    using p0 p1 by (simp add: planConsumerOutputs_def upt_rec)
  then show ?thesis
    using ins tot
    by (simp add: buildConsumerLeg_def buildConsumerTransferRequest_def tag_consumer_def consumerTransferParts_def pay_crypto_def
        parse_amount_def demo_numbers pay_action_def Let_def consumerSpendMeta_def spend_meta.defs spendMeta_def)
qed

lemma pay_answers: "answers_triple pay_encaps pay_decaps 0 (0, 1) pay_identity (selfConsumerRecipient pay_identity)"
  using pay_keys
  by (simp add: answers_triple_def selfConsumerRecipient_def pay_encaps_def pay_decaps_def pay_shared)
    (simp add: pay_identity_def pay_shared)

lemma pay_binding: "binding_for pay_hN pk"
  by (simp add: binding_for_def commitment_def pay_hN_def)

text \<open>The indexer that serves that payment alone, and the path of its leaf as a tree of one leaf.\<close>

definition pay_event :: "op_projection \<Rightarrow> client_event" where
  "pay_event row = feed_draft.extend (projectFeedEntry \<lparr>at_txHash = ''0xaa'', at_blockNumber = 3, at_logIndex = 0\<rparr> row)
     \<lparr>fe_seq = 4, ce_kem = None\<rparr>"

definition pay_view :: "client_event \<Rightarrow> int \<Rightarrow> feed_view" where
  "pay_view ev leaf = \<lparr>fv_feed = [ev], fv_page = 1, fv_path = (\<lambda>l. if l = 0 then Some \<lparr>pr_siblings = [], pr_root = leaf\<rparr> else None),
     fv_nullifiers = [300], fv_head = 2\<rparr>"

lemma pay_event_parts: "fe_seq (pay_event row) = 4"
  "feed_draft.truncate (pay_event row) = projectFeedEntry \<lparr>at_txHash = ''0xaa'', at_blockNumber = 3, at_logIndex = 0\<rparr> row"
  by (simp_all add: pay_event_def feed_draft.defs)

lemma pay_view_parts:
  "view_ok (pay_view (pay_event row) leaf)" "past (pay_view (pay_event row) leaf) (ss_cursor EMPTY_SCAN_STATE) = [pay_event row]"
  "scan_window (pay_view (pay_event row) leaf) EMPTY_SCAN_STATE = [pay_event row]" "fv_page (pay_view (pay_event row) leaf) = 1"
  "\<exists>p. fv_path (pay_view ev leaf) 0 = Some p \<and> pathConfirmsLeaf h leaf p 0" "fv_nullifiers (pay_view ev leaf) = [300]"
  by (simp_all add: pay_view_def view_ok_def past_def scan_window_def pay_event_parts EMPTY_SCAN_STATE_def map_filter_simps
      pathConfirmsLeaf_def foldToRoot_def)


theorem scan_notes_are_own_witness:
  "\<exists>st. runSelfScan demo_h pay_hN demo_perm pay_decaps (serving (pay_view (pay_event DepositRow) 0)) pay_identity EMPTY_SCAN_STATE 2 () =
      ((), Inr st) \<and> distinct (map dn_commitment (ss_notes st)) \<and> ss_cursor EMPTY_SCAN_STATE \<le> ss_cursor st"
proof -
  let ?V = "pay_view (pay_event DepositRow) 0"
  have le: "length (past ?V (ss_cursor EMPTY_SCAN_STATE)) \<le> 1 * fv_page ?V" by (simp add: pay_view_parts)
  have "scan_event pay_hN demo_perm pay_decaps pay_identity (pay_event DepositRow) = Inr nothing_found"
    by (simp add: scan_event_def pay_event_def bare_entry_def feed_draft.defs)
  then have "\<exists>st. runSelfScan demo_h pay_hN demo_perm pay_decaps (serving ?V) pay_identity EMPTY_SCAN_STATE (Suc 1) () = ((), Inr st)"
    by (subst scan_serving [OF pay_view_parts(1) le]) (simp add: pay_view_parts(3) scanEventsPass_def)
  then obtain st where run: "runSelfScan demo_h pay_hN demo_perm pay_decaps (serving ?V) pay_identity EMPTY_SCAN_STATE (Suc 1) () = ((), Inr st)"
    by blast
  have "distinct (map dn_commitment (ss_notes EMPTY_SCAN_STATE))" by (simp add: EMPTY_SCAN_STATE_def)
  from scan_notes_are_own [OF pay_view_parts(1) le run this] run show ?thesis by (auto simp: numeral_2_eq_2)
qed

end
