(* ===== verification/Scan_Resume.thy ===== *)
theory Scan_Resume
  imports Self_Scan_Correct
begin

text \<open>
  The resumability of the scan (\<open>packages/client/src/scan/selfscan/run.ts\<close>): a scan that continues from a
  stored state, on a feed that has grown and in which batches that could not be scanned have been
  completed, ends with the notes and the pending batches of one scan from the beginning.
\<close>

subsection \<open>A feed that grew\<close>

text \<open>
  The later feed repeats the numbers of the earlier one; an entry may have changed only if it could not
  be scanned before.
\<close>

definition grew_into ::
  "hashN \<Rightarrow> perm4 \<Rightarrow> (bytes \<Rightarrow> bytes \<Rightarrow> bytes) \<Rightarrow> consumer_identity \<Rightarrow> feed_view \<Rightarrow> feed_view \<Rightarrow> bool" where
  "grew_into hN perm decaps identity V1 V2 \<longleftrightarrow>
     (\<exists>G F2. fv_feed V2 = G @ F2 \<and>
        list_all2 (\<lambda>e g. fe_seq e = fe_seq g \<and> (e = g \<or> (\<exists>st. scan_event hN perm decaps identity e = Inr (pend e st))))
          (fv_feed V1) G)"

text \<open>What the indexer says about a leaf: whether it serves a path and whether it folds.\<close>

definition verdict_on :: "hash2 \<Rightarrow> feed_view \<Rightarrow> nat \<Rightarrow> int \<Rightarrow> bool option" where
  "verdict_on h V l c = map_option (\<lambda>p. pathConfirmsLeaf h c p l) (fv_path V l)"

definition same_verdicts :: "hash2 \<Rightarrow> feed_view \<Rightarrow> feed_view \<Rightarrow> bool" where
  "same_verdicts h V1 V2 \<longleftrightarrow>
     (\<forall>e\<in>set (fv_feed V1). \<forall>s\<in>set (fe_slices e). \<forall>l c. sl_leafIndex s = Some l \<longrightarrow> verdict_on h V1 l c = verdict_on h V2 l c)"

lemma verdict_simps:
  "confirmed_by h V c \<longleftrightarrow> verdict_on h V (dn_leafIndex c) (dn_commitment c) = Some True"
  "gated_in V c \<longleftrightarrow> verdict_on h V (dn_leafIndex c) (dn_commitment c) = None \<and> dn_family c = EnterpriseNote \<and> dn_kind c = KDisburse"
  by (auto simp: verdict_on_def confirmed_by_def gated_in_def split: option.splits)

subsection \<open>What one event adds, after its confirmation\<close>

definition event_notes ::
  "hash2 \<Rightarrow> hashN \<Rightarrow> perm4 \<Rightarrow> (bytes \<Rightarrow> bytes \<Rightarrow> bytes) \<Rightarrow> consumer_identity \<Rightarrow> feed_view \<Rightarrow> client_event \<Rightarrow> scan_candidate set" where
  "event_notes h hN perm decaps identity V ev = set (newly_found h V (projr (scan_event hN perm decaps identity ev)))"

definition event_pending ::
  "hashN \<Rightarrow> perm4 \<Rightarrow> (bytes \<Rightarrow> bytes \<Rightarrow> bytes) \<Rightarrow> consumer_identity \<Rightarrow> feed_view \<Rightarrow> client_event \<Rightarrow> pending_discovery set" where
  "event_pending hN perm decaps identity V ev = set (newly_pending V (projr (scan_event hN perm decaps identity ev)))"

lemma pass_parts:
  assumes "scanEventsPass hN perm decaps identity evs = Inr found"
  shows "set (newly_found h V found) = (\<Union>e\<in>set evs. event_notes h hN perm decaps identity V e)"
    "set (newly_pending V found) = (\<Union>e\<in>set evs. event_pending hN perm decaps identity V e)"
  using pass_found(2-4) [OF assms] by (auto simp: newly_found_def newly_pending_def event_notes_def event_pending_def)

lemma pended_parts:
  assumes "scan_event hN perm decaps identity ev = Inr (pend ev st)"
  shows "event_notes h hN perm decaps identity V ev = {}"
    "event_pending hN perm decaps identity V ev = {\<lparr>pd_seq = fe_seq ev, pd_txHash = fe_txHash ev, pd_batchId = fe_batchId ev, pd_status = st\<rparr>}"
  by (simp_all add: event_notes_def event_pending_def assms newly_found_def newly_pending_def pend_def)

text \<open>Same verdicts, same outcome.\<close>

lemma same_outcome:
  assumes "same_verdicts h V1 V2" and "ev \<in> set (fv_feed V1)" and "scan_event hN perm decaps identity ev = Inr f"
  shows "event_notes h hN perm decaps identity V1 ev = event_notes h hN perm decaps identity V2 ev"
    "event_pending hN perm decaps identity V1 ev = event_pending hN perm decaps identity V2 ev"
proof -
  have v: "verdict_on h V1 (dn_leafIndex c) (dn_commitment c) = verdict_on h V2 (dn_leafIndex c) (dn_commitment c)"
    if "c \<in> set (sf_candidates f)" for c
    using event_own(1) [OF assms(3)] that assms(1,2) by (auto simp: own_candidate_def same_verdicts_def)
  then show "event_notes h hN perm decaps identity V1 ev = event_notes h hN perm decaps identity V2 ev"
    by (auto simp: event_notes_def assms(3) newly_found_def verdict_simps(1))
  show "event_pending hN perm decaps identity V1 ev = event_pending hN perm decaps identity V2 ev"
    using v by (auto simp: event_pending_def assms(3) newly_pending_def verdict_simps(2) [of _ _ h] image_iff)
qed

lemma collect_no_pending:
  assumes "collect_found F xs = Inr f" and "\<forall>x\<in>set xs. \<forall>g. F x = Inr g \<longrightarrow> sf_pending g = []"
  shows "sf_pending f = []"
  using assms by (induction xs arbitrary: f) (auto split: sum.splits)

text \<open>An entry for an event names the event, and all of them are equal.\<close>

lemma event_pending_seq:
  assumes "scan_event hN perm decaps identity ev = Inr f" and "p \<in> event_pending hN perm decaps identity V ev"
  shows "pd_seq p = fe_seq ev"
  using assms(2) event_own(1,3) [OF assms(1)]
  by (auto simp: event_pending_def assms(1) newly_pending_def gated_entry_def own_candidate_def)

lemma event_pending_one:
  assumes "scan_event hN perm decaps identity ev = Inr f"
    and "p \<in> event_pending hN perm decaps identity V ev" and "q \<in> event_pending hN perm decaps identity V ev"
  shows "p = q"
proof -
  have "f = pend ev DisclosureIncomplete \<or> sf_pending f = [] \<or> (\<exists>st. f = pend ev st)"
    using scan_event_Inr [OF assms(1)]
  proof (elim disjE exE)
    fix eph nonce assume "scan_enterprise_event hN perm identity ev eph nonce = Inr f"
    then obtain shared where c: "collect_found (scan_enterprise_slice hN perm identity ev shared nonce) (fe_slices ev) = Inr f"
      by (auto simp: scan_enterprise_event_def split: option.splits)
    then show ?thesis using collect_no_pending [OF c] enterprise_slice_own(3) by blast
  next
    fix eph nonce vtags assume "scan_consumer_event hN perm decaps identity ev eph nonce vtags = Inr f"
    then consider myTag where "kem_transport_of ev myTag vtags = Inl f"
      | myTag kemCts where "collect_found (scan_consumer_slice hN perm decaps identity ev eph nonce myTag vtags kemCts) (fe_slices ev) = Inr f"
      by (auto simp: scan_consumer_event_def split: option.splits sum.splits)
    then show ?thesis
    proof cases
      case 1
      then show ?thesis by (auto simp: kem_transport_of_def split: if_splits option.splits kem_status.splits)
    next
      case 2
      then show ?thesis using collect_no_pending [OF 2] consumer_slice_own(3) by blast
    qed
  qed auto
  moreover have "sf_candidates (pend ev st) = []" for st by (simp add: pend_def)
  ultimately show ?thesis
    using assms(2,3) event_own(1) [OF assms(1)]
    by (auto simp: event_pending_def assms(1) newly_pending_def gated_entry_def own_candidate_def pend_def)
qed

subsection \<open>States as sets\<close>

lemma merge_inj:
  "inj_on dn_commitment (set cs) \<Longrightarrow>
    set (merge_fresh known cs) = (\<lambda>c. scan_candidate.extend c \<lparr>sn_spent = False\<rparr>) ` {c \<in> set cs. dn_commitment c \<notin> known}"
proof (induction cs arbitrary: known)
  case (Cons c cs)
  have "inj_on dn_commitment (set cs)" using Cons.prems by (simp add: inj_on_insert)
  moreover have "\<forall>q\<in>set cs. dn_commitment q = dn_commitment c \<longrightarrow> q = c" using Cons.prems by (auto simp: inj_on_def)
  ultimately show ?case using Cons.IH by auto
qed simp

text \<open>The notes of a candidate set under a view, as a state holds them.\<close>

definition as_notes :: "feed_view \<Rightarrow> scan_candidate set \<Rightarrow> scan_note set" where
  "as_notes V cs = (\<lambda>c. scan_candidate.extend c \<lparr>sn_spent = dn_nullifier c \<in> set (fv_nullifiers V)\<rparr>) ` cs"

lemma spend_again: "(\<lambda>n. n\<lparr>sn_spent := dn_nullifier n \<in> set (fv_nullifiers V)\<rparr>) ` as_notes V' cs = as_notes V cs"
  by (auto simp: as_notes_def image_image scan_candidate.defs)

lemma commitments_as_notes: "dn_commitment ` as_notes V cs = dn_commitment ` cs"
  by (auto simp: as_notes_def image_image scan_candidate.defs)

lemma next_notes:
  assumes "set (ss_notes prev) = as_notes V0 cs" and "inj_on dn_commitment (cs \<union> set (newly_found h V found))"
  shows "set (ss_notes (next_state h V prev found)) = as_notes V (cs \<union> set (newly_found h V found))"
proof -
  let ?N = "set (newly_found h V found)"
  have known: "set (map dn_commitment (ss_notes prev)) = dn_commitment ` cs"
    using assms(1) commitments_as_notes by (metis list.set_map)
  have "inj_on dn_commitment ?N" using assms(2) by (rule inj_on_subset) simp
  note m = merge_inj [OF this, of "dn_commitment ` cs"]
  have "{c \<in> ?N. dn_commitment c \<notin> dn_commitment ` cs} = ?N - cs"
    using assms(2) by (auto simp: inj_on_def)
  then have "set (ss_notes (next_state h V prev found)) =
      (\<lambda>n. n\<lparr>sn_spent := dn_nullifier n \<in> set (fv_nullifiers V)\<rparr>) ` (as_notes V0 cs \<union> as_notes V0 (?N - cs) )"
    using m by (auto simp: next_state_def applySpent_def mergeNotes_def known assms(1) image_Un spend_again)
      (auto simp: as_notes_def image_image scan_candidate.defs)
  also have "\<dots> = as_notes V (cs \<union> ?N)" unfolding image_Un spend_again by (auto simp: as_notes_def)
  finally show ?thesis .
qed

subsection \<open>Two runs are one run\<close>

lemma feed_seq_inj: "view_ok V \<Longrightarrow> inj_on fe_seq (set (fv_feed V))"
proof -
  have "sorted_wrt (\<lambda>a b. fe_seq a < fe_seq b) es \<Longrightarrow> inj_on fe_seq (set es)" for es :: "client_event list"
    by (induction es) auto
  then show "view_ok V \<Longrightarrow> inj_on fe_seq (set (fv_feed V))" by (simp add: view_ok_def)
qed

lemma refound_mem:
  assumes "view_ok V" and "g \<in> set (fv_feed V)" and "fe_seq g = pd_seq p"
  shows "refound V p = Some g"
proof (cases "refound V p")
  case None
  then show ?thesis using assms(2,3) by (auto simp: refound_def find_None_iff)
next
  case (Some x)
  then have "x \<in> set (fv_feed V)" "fe_seq x = pd_seq p" by (auto simp: refound_def dest: find_SomeD)
  then show ?thesis using Some assms feed_seq_inj [OF assms(1)] by (auto simp: inj_on_def)
qed

lemma empty_window: "scan_window V EMPTY_SCAN_STATE = fv_feed V" "past V (- 1) = fv_feed V"
  by (simp_all add: scan_window_def EMPTY_SCAN_STATE_def past_def map_filter_simps)

lemma past_length: "length (past V at) \<le> length (fv_feed V)"
  by (simp add: past_def)

text \<open>The pending entries of a window, without the repetitions: one for each event.\<close>

lemma window_pending:
  assumes "scanEventsPass hN perm decaps identity evs = Inr found" and "inj_on fe_seq (set evs)"
  shows "set (dedupePending (newly_pending V found)) = (\<Union>e\<in>set evs. event_pending hN perm decaps identity V e)"
proof -
  have ok: "\<exists>f. scan_event hN perm decaps identity e = Inr f" if "e \<in> set evs" for e using pass_found(1) [OF assms(1)] that by blast
  have "p = q" if p: "p \<in> set (newly_pending V found)" and q: "q \<in> set (newly_pending V found)" and s: "pd_seq p = pd_seq q" for p q
  proof -
    obtain a where a: "a \<in> set evs" "p \<in> event_pending hN perm decaps identity V a" using p pass_parts(2) [OF assms(1)] by blast
    obtain b where b: "b \<in> set evs" "q \<in> event_pending hN perm decaps identity V b" using q pass_parts(2) [OF assms(1)] by blast
    have "fe_seq a = fe_seq b" using s event_pending_seq a b ok by metis
    then have "a = b" using assms(2) a(1) b(1) by (auto simp: inj_on_def)
    then show ?thesis using event_pending_one a b ok by metis
  qed
  then have "set (dedupePending (newly_pending V found)) = set (newly_pending V found)"
    using dedupe_pending_set [of "newly_pending V found" "{}"] by (simp add: dedupePending_def)
  then show ?thesis using pass_parts(2) [OF assms(1)] by simp
qed

text \<open>The first scan of a feed.\<close>

lemma first_scan:
  assumes "view_ok V" and "length (fv_feed V) \<le> pages * fv_page V"
    and "runSelfScan h hN perm decaps (serving V) identity EMPTY_SCAN_STATE (Suc pages) w = (w', Inr st)"
    and "inj_on dn_commitment (\<Union>e\<in>set (fv_feed V). event_notes h hN perm decaps identity V e)"
  shows "set (ss_notes st) = as_notes V (\<Union>e\<in>set (fv_feed V). event_notes h hN perm decaps identity V e)"
    "set (ss_pending st) = (\<Union>e\<in>set (fv_feed V). event_pending hN perm decaps identity V e)"
    "ss_cursor st = max_seq (-1) (fv_feed V)" "ss_scannedNextLeafIndex st = fv_head V"
proof -
  have "length (past V (ss_cursor EMPTY_SCAN_STATE)) \<le> pages * fv_page V" using assms(2) past_length le_trans by blast
  from scan_serving [OF assms(1) this, of h hN perm decaps identity w]
  obtain found where pass: "scanEventsPass hN perm decaps identity (fv_feed V) = Inr found"
    and st: "st = next_state h V EMPTY_SCAN_STATE found"
    using assms(3) by (auto simp: empty_window split: sum.splits)
  have E: "ss_notes EMPTY_SCAN_STATE = []" "ss_pending EMPTY_SCAN_STATE = []" "ss_cursor EMPTY_SCAN_STATE = -1"
    "ss_scannedNextLeafIndex EMPTY_SCAN_STATE = 0" by (simp_all add: EMPTY_SCAN_STATE_def)
  have "inj_on dn_commitment ({} \<union> set (newly_found h V found))" using assms(4) pass_parts(1) [OF pass] by simp
  from next_notes [OF _ this, of EMPTY_SCAN_STATE V] pass_parts(1) [OF pass]
  show "set (ss_notes st) = as_notes V (\<Union>e\<in>set (fv_feed V). event_notes h hN perm decaps identity V e)"
    by (simp add: st E as_notes_def)
  have "kept_pending V EMPTY_SCAN_STATE = []" by (simp add: kept_pending_def E)
  then show "set (ss_pending st) = (\<Union>e\<in>set (fv_feed V). event_pending hN perm decaps identity V e)"
    using window_pending [OF pass feed_seq_inj [OF assms(1)], of V] by (simp add: st next_state_def)
  show "ss_cursor st = max_seq (-1) (fv_feed V)" using pass_found(5) [OF pass] max_seq_ge [of "-1" "fv_feed V"]
    by (simp add: st next_state_def E)
  show "ss_scannedNextLeafIndex st = fv_head V" by (simp add: st next_state_def E)
qed

lemma first_scan_runs:
  assumes "view_ok V" and "length (fv_feed V) \<le> pages * fv_page V"
    and "runSelfScan h hN perm decaps (serving V) identity EMPTY_SCAN_STATE (Suc pages) w = (w', Inr st)"
  shows "\<forall>e\<in>set (fv_feed V). \<exists>f. scan_event hN perm decaps identity e = Inr f"
proof -
  have "length (past V (ss_cursor EMPTY_SCAN_STATE)) \<le> pages * fv_page V" using assms(2) past_length le_trans by blast
  from scan_serving [OF assms(1) this, of h hN perm decaps identity w]
  have "\<exists>found. scanEventsPass hN perm decaps identity (fv_feed V) = Inr found"
    using assms(3) by (auto simp: empty_window split: sum.splits)
  then show ?thesis using pass_ok_iff by metis
qed

lemma max_seq_window:
  assumes "set W = S \<union> set ys" and "S \<subseteq> set xs"
  shows "max (max_seq (-1) xs) (max_seq (-1) W) = max_seq (-1) (xs @ ys)"
proof -
  have "insert (-1) ((\<lambda>e. int (fe_seq e)) ` set (xs @ ys)) =
      insert (-1) ((\<lambda>e. int (fe_seq e)) ` set xs) \<union> insert (-1) ((\<lambda>e. int (fe_seq e)) ` set W)" using assms by auto
  then show ?thesis unfolding max_seq_Max by (simp only:) (rule Max_Un [symmetric]; simp)
qed

text \<open>What a grown feed keeps.\<close>

lemma grown_feed:
  assumes "grew_into hN perm decaps identity V1 V2" and "view_ok V2"
  obtains G F2 where "fv_feed V2 = G @ F2" "fe_seq ` set G = fe_seq ` set (fv_feed V1)"
    "past V2 (max_seq (-1) (fv_feed V1)) = F2"
    "\<forall>e\<in>set (fv_feed V1). \<exists>g\<in>set G. fe_seq e = fe_seq g \<and> (e = g \<or> (\<exists>st. scan_event hN perm decaps identity e = Inr (pend e st)))"
    "\<forall>g\<in>set G. \<exists>e\<in>set (fv_feed V1). fe_seq e = fe_seq g \<and> (e = g \<or> (\<exists>st. scan_event hN perm decaps identity e = Inr (pend e st)))"
    "max_seq (-1) (fv_feed V1) = max_seq (-1) G"
proof -
  obtain G F2 where f: "fv_feed V2 = G @ F2" and
    r: "list_all2 (\<lambda>e g. fe_seq e = fe_seq g \<and> (e = g \<or> (\<exists>st. scan_event hN perm decaps identity e = Inr (pend e st)))) (fv_feed V1) G"
    using assms(1) by (auto simp: grew_into_def)
  have seqs: "map fe_seq (fv_feed V1) = map fe_seq G" using r by (induction rule: list_all2_induct) auto
  then have img: "fe_seq ` set G = fe_seq ` set (fv_feed V1)" by (metis list.set_map)
  have ms: "max_seq (-1) (fv_feed V1) = max_seq (-1) G"
    using arg_cong [OF img, of "image int"] by (simp add: max_seq_Max image_image)
  have sorted: "sorted_wrt (\<lambda>a b. fe_seq a < fe_seq b) (G @ F2)" using assms(2) f by (simp add: view_ok_def)
  have ub: "int (fe_seq e) \<le> max_seq (-1) G" if "e \<in> set G" for e unfolding max_seq_Max using that by (intro Max_ge) auto
  have "max_seq (-1) G \<in> insert (-1) ((\<lambda>e. int (fe_seq e)) ` set G)" unfolding max_seq_Max by (intro Max_in) auto
  then have lb: "int (fe_seq e) > max_seq (-1) G" if "e \<in> set F2" for e using that sorted by (auto simp: sorted_wrt_append)
  have "past V2 (max_seq (-1) (fv_feed V1)) = F2"
    using ub lb by (simp add: past_def f ms filter_empty_conv not_less)
  moreover have "\<forall>e\<in>set (fv_feed V1). \<exists>g\<in>set G. fe_seq e = fe_seq g \<and> (e = g \<or> (\<exists>st. scan_event hN perm decaps identity e = Inr (pend e st)))"
    "\<forall>g\<in>set G. \<exists>e\<in>set (fv_feed V1). fe_seq e = fe_seq g \<and> (e = g \<or> (\<exists>st. scan_event hN perm decaps identity e = Inr (pend e st)))"
    using r by (auto simp: list_all2_conv_all_nth set_conv_nth Bex_def) metis+
  ultimately show ?thesis using that f img ms by blast
qed

text \<open>The window of the second run: the pending events again, and what is new.\<close>

lemma second_window:
  assumes "view_ok V2" and "fv_feed V2 = G @ F2" and "past V2 (ss_cursor st1) = F2"
    and "pd_seq ` set (ss_pending st1) \<subseteq> fe_seq ` set G"
  shows "set (scan_window V2 st1) = {g \<in> set G. fe_seq g \<in> pd_seq ` set (ss_pending st1)} \<union> set F2"
    "kept_pending V2 st1 = []"
proof -
  have some: "\<exists>g\<in>set G. fe_seq g = pd_seq p \<and> refound V2 p = Some g" if "p \<in> set (ss_pending st1)" for p
  proof -
    have "pd_seq p \<in> fe_seq ` set G" using assms(4) that by blast
    then obtain g where g: "g \<in> set G" "fe_seq g = pd_seq p" by auto
    then have "g \<in> set (fv_feed V2)" by (simp add: assms(2))
    from refound_mem [OF assms(1) this g(2)] g show ?thesis by blast
  qed
  have all: "refound V2 p = Some g" if "p \<in> set (ss_pending st1)" "g \<in> set G" "fe_seq g = pd_seq p" for p g
    using that assms(2) refound_mem [OF assms(1)] by simp
  show "kept_pending V2 st1 = []" unfolding kept_pending_def filter_empty_conv using some by (metis option.distinct(1))
  have "set (List.map_filter (refound V2) (ss_pending st1)) = {g. \<exists>p\<in>set (ss_pending st1). refound V2 p = Some g}"
    by (force simp: map_filter_def)
  also have "\<dots> = {g \<in> set G. fe_seq g \<in> pd_seq ` set (ss_pending st1)}"
  proof (intro set_eqI iffI)
    fix g assume "g \<in> {g. \<exists>p\<in>set (ss_pending st1). refound V2 p = Some g}"
    then obtain p where p: "p \<in> set (ss_pending st1)" "refound V2 p = Some g" by blast
    then show "g \<in> {g \<in> set G. fe_seq g \<in> pd_seq ` set (ss_pending st1)}" using some [OF p(1)] by force
  next
    fix g assume "g \<in> {g \<in> set G. fe_seq g \<in> pd_seq ` set (ss_pending st1)}"
    then show "g \<in> {g. \<exists>p\<in>set (ss_pending st1). refound V2 p = Some g}" using all by force
  qed
  finally have "set (List.map_filter (refound V2) (ss_pending st1)) = {g \<in> set G. fe_seq g \<in> pd_seq ` set (ss_pending st1)}" .
  then show "set (scan_window V2 st1) = {g \<in> set G. fe_seq g \<in> pd_seq ` set (ss_pending st1)} \<union> set F2"
    by (simp add: scan_window_def assms(3))
qed

text \<open>Where the two runs look, event by event.\<close>

lemma covered_events:
  assumes grew: "\<forall>e\<in>set F1. \<exists>g\<in>set G. fe_seq e = fe_seq g \<and> (e = g \<or> (\<exists>st. scan_event hN perm decaps identity e = Inr (pend e st)))"
    "\<forall>g\<in>set G. \<exists>e\<in>set F1. fe_seq e = fe_seq g \<and> (e = g \<or> (\<exists>st. scan_event hN perm decaps identity e = Inr (pend e st)))"
    and same: "same_verdicts h V1 V2" and F1: "F1 = fv_feed V1"
    and ok: "\<forall>e\<in>set F1. \<exists>f. scan_event hN perm decaps identity e = Inr f"
    and P: "P = pd_seq ` (\<Union>e\<in>set F1. event_pending hN perm decaps identity V1 e)"
  shows "(\<Union>e\<in>set F1. event_notes h hN perm decaps identity V1 e) \<union>
      (\<Union>g\<in>{g \<in> set G. fe_seq g \<in> P}. event_notes h hN perm decaps identity V2 g) =
      (\<Union>g\<in>set G. event_notes h hN perm decaps identity V2 g)"
    "(\<Union>g\<in>{g \<in> set G. fe_seq g \<in> P}. event_pending hN perm decaps identity V2 g) =
      (\<Union>g\<in>set G. event_pending hN perm decaps identity V2 g)"
proof -
  have equal: "event_notes h hN perm decaps identity V1 e = event_notes h hN perm decaps identity V2 e"
    "event_pending hN perm decaps identity V1 e = event_pending hN perm decaps identity V2 e" if "e \<in> set F1" for e
    using same_outcome [OF same, of e] ok that F1 by blast+
  have skip: "e = g \<and> event_pending hN perm decaps identity V2 g = {}"
    if "g \<in> set G" "fe_seq g \<notin> P" "e \<in> set F1" "fe_seq e = fe_seq g" "e = g \<or> (\<exists>st. scan_event hN perm decaps identity e = Inr (pend e st))" for g e
  proof -
    have none: "event_pending hN perm decaps identity V1 e = {}"
    proof (rule ccontr)
      assume "event_pending hN perm decaps identity V1 e \<noteq> {}"
      then obtain q where q: "q \<in> event_pending hN perm decaps identity V1 e" by blast
      then have "pd_seq q = fe_seq e" using event_pending_seq ok that(3) by blast
      then have "fe_seq e \<in> P" using q that(3) unfolding P by force
      then show False using that(2,4) by simp
    qed
    then have "e = g" using that(5) pended_parts(2) by blast
    then show ?thesis using none equal(2) [OF that(3)] by simp
  qed
  have sub: "event_notes h hN perm decaps identity V1 e \<subseteq> (\<Union>g\<in>set G. event_notes h hN perm decaps identity V2 g)" if e: "e \<in> set F1" for e
  proof -
    obtain g where "g \<in> set G" "e = g \<or> (\<exists>st. scan_event hN perm decaps identity e = Inr (pend e st))" using grew(1) e by blast
    then consider "g \<in> set G" "e = g" | st where "scan_event hN perm decaps identity e = Inr (pend e st)" by blast
    then show ?thesis
    proof cases
      case 1
      then show ?thesis using equal(1) [OF e] by auto
    next
      case 2
      then show ?thesis using pended_parts(1) [OF 2] by simp
    qed
  qed
  have sup: "event_notes h hN perm decaps identity V2 g \<subseteq> (\<Union>e\<in>set F1. event_notes h hN perm decaps identity V1 e)"
    if g: "g \<in> set G" and np: "fe_seq g \<notin> P" for g
  proof -
    obtain e where e: "e \<in> set F1" "fe_seq e = fe_seq g" "e = g \<or> (\<exists>st. scan_event hN perm decaps identity e = Inr (pend e st))"
      using bspec [OF grew(2) g] by metis
    have "e = g" using skip [OF g np e] by blast
    have "event_notes h hN perm decaps identity V1 g = event_notes h hN perm decaps identity V2 g" "g \<in> set F1"
      using equal(1) [OF e(1)] e(1) by (simp_all add: \<open>e = g\<close>)
    then show ?thesis by (metis UN_upper)
  qed
  show "(\<Union>e\<in>set F1. event_notes h hN perm decaps identity V1 e) \<union>
      (\<Union>g\<in>{g \<in> set G. fe_seq g \<in> P}. event_notes h hN perm decaps identity V2 g) =
      (\<Union>g\<in>set G. event_notes h hN perm decaps identity V2 g)" (is "?L \<union> ?M = ?R")
  proof (intro equalityI Un_least)
    show "?L \<subseteq> ?R" using sub by (intro UN_least)
    show "?M \<subseteq> ?R" by (intro UN_mono) auto
    show "?R \<subseteq> ?L \<union> ?M"
    proof (rule UN_least)
      fix g assume g: "g \<in> set G"
      show "event_notes h hN perm decaps identity V2 g \<subseteq> ?L \<union> ?M"
      proof (cases "fe_seq g \<in> P")
        case True
        then have "event_notes h hN perm decaps identity V2 g \<subseteq> ?M" using g by (intro UN_upper) simp
        then show ?thesis by (rule le_supI2)
      next
        case False
        from sup [OF g this] show ?thesis by (rule le_supI1)
      qed
    qed
  qed
  show "(\<Union>g\<in>{g \<in> set G. fe_seq g \<in> P}. event_pending hN perm decaps identity V2 g) =
      (\<Union>g\<in>set G. event_pending hN perm decaps identity V2 g)"
  proof (intro equalityI UN_least)
    fix g assume g: "g \<in> set G"
    show "event_pending hN perm decaps identity V2 g \<subseteq> (\<Union>g\<in>{g \<in> set G. fe_seq g \<in> P}. event_pending hN perm decaps identity V2 g)"
    proof (cases "fe_seq g \<in> P")
      case False
      obtain e where "e \<in> set F1" "fe_seq e = fe_seq g" "e = g \<or> (\<exists>st. scan_event hN perm decaps identity e = Inr (pend e st))"
        using bspec [OF grew(2) g] by metis
      then have "event_pending hN perm decaps identity V2 g = {}" using skip [OF g False] by blast
      then show ?thesis by simp
    qed (use g in blast)
  qed blast
qed

text \<open>
  C8: A scan resumes. When a wallet that has scanned a feed scans again after the feed has grown, and
  batches that could not be scanned the first time have been completed by the indexer, it ends with
  the notes, the pending batches, the cursor and the freshness stamp of one scan of the whole later
  feed: nothing is lost and nothing is found twice. The indexer's verdicts on the leaves of the earlier
  feed have to be the same in both scans, and two different notes must not share a commitment. (The order
  of the notes may differ.)
\<close>
theorem scan_resumes:
  assumes "view_ok V1" and "view_ok V2" and "grew_into hN perm decaps identity V1 V2" and "same_verdicts h V1 V2"
    and "length (fv_feed V1) \<le> pages * fv_page V1" and "length (fv_feed V2) \<le> pages * fv_page V2" and "fv_head V1 \<le> fv_head V2"
    and "inj_on dn_commitment (\<Union>e\<in>set (fv_feed V2). event_notes h hN perm decaps identity V2 e)"
    and "runSelfScan h hN perm decaps (serving V1) identity EMPTY_SCAN_STATE (Suc pages) w = (w, Inr st1)"
    and "runSelfScan h hN perm decaps (serving V2) identity EMPTY_SCAN_STATE (Suc pages) w = (w, Inr once)"
  shows "\<exists>st2. runSelfScan h hN perm decaps (serving V2) identity st1 (Suc pages) w = (w, Inr st2) \<and>
    set (ss_notes st2) = set (ss_notes once) \<and> set (ss_pending st2) = set (ss_pending once) \<and>
    ss_cursor st2 = ss_cursor once \<and> ss_scannedNextLeafIndex st2 = ss_scannedNextLeafIndex once"
proof -
  let ?n = "event_notes h hN perm decaps identity" and ?p = "event_pending hN perm decaps identity"
  obtain G F2 where f: "fv_feed V2 = G @ F2" and seqs: "fe_seq ` set G = fe_seq ` set (fv_feed V1)"
    and past2: "past V2 (max_seq (-1) (fv_feed V1)) = F2" and m: "max_seq (-1) (fv_feed V1) = max_seq (-1) G"
    and grew: "\<forall>e\<in>set (fv_feed V1). \<exists>g\<in>set G. fe_seq e = fe_seq g \<and> (e = g \<or> (\<exists>st. scan_event hN perm decaps identity e = Inr (pend e st)))"
      "\<forall>g\<in>set G. \<exists>e\<in>set (fv_feed V1). fe_seq e = fe_seq g \<and> (e = g \<or> (\<exists>st. scan_event hN perm decaps identity e = Inr (pend e st)))"
    by (rule grown_feed [OF assms(3,2)])
  note once = first_scan [OF assms(2,6,10,8)]
  note ok1 = first_scan_runs [OF assms(1,5,9)] and ok2 = first_scan_runs [OF assms(2,6,10)]
  define P where "P = pd_seq ` (\<Union>e\<in>set (fv_feed V1). ?p V1 e)"
  note cover = covered_events [OF grew assms(4) refl ok1 P_def]
  have "(\<Union>e\<in>set (fv_feed V1). ?n V1 e) \<subseteq> (\<Union>e\<in>set (fv_feed V2). ?n V2 e)" using cover(1) by (auto simp: f)
  then have "inj_on dn_commitment (\<Union>e\<in>set (fv_feed V1). ?n V1 e)" using assms(8) inj_on_subset by blast
  note first = first_scan [OF assms(1,5,9) this]
  have P: "pd_seq ` set (ss_pending st1) = P" using first(2) by (simp add: P_def)
  have at: "past V2 (ss_cursor st1) = F2" using past2 first(3) by simp
  have "pd_seq ` set (ss_pending st1) \<subseteq> fe_seq ` set G"
  proof -
    have "pd_seq q \<in> fe_seq ` set (fv_feed V1)" if e: "e \<in> set (fv_feed V1)" "q \<in> ?p V1 e" for e q
    proof -
      obtain f where "scan_event hN perm decaps identity e = Inr f" using ok1 e(1) by blast
      from event_pending_seq [OF this e(2)] e(1) show ?thesis by blast
    qed
    then show ?thesis unfolding P P_def seqs by auto
  qed
  note W = second_window [OF assms(2) f at this, unfolded P]
  have sub: "set (scan_window V2 st1) \<subseteq> set (fv_feed V2)" by (rule window_in_feed)
  have "\<forall>e\<in>set (scan_window V2 st1). \<exists>f. scan_event hN perm decaps identity e = Inr f" using ok2 sub by blast
  then obtain found where pass: "scanEventsPass hN perm decaps identity (scan_window V2 st1) = Inr found"
    unfolding pass_ok_iff [symmetric] ..
  define st2 where "st2 = next_state h V2 st1 found"
  have "length (past V2 (ss_cursor st1)) \<le> pages * fv_page V2" using assms(6) past_length le_trans by blast
  then have run: "runSelfScan h hN perm decaps (serving V2) identity st1 (Suc pages) w = (w, Inr st2)"
    by (simp add: scan_serving [OF assms(2)] pass st2_def)
  have all: "(\<Union>e\<in>set (fv_feed V1). ?n V1 e) \<union> set (newly_found h V2 found) = (\<Union>e\<in>set (fv_feed V2). ?n V2 e)"
    unfolding pass_parts(1) [OF pass] W(1) UN_Un Un_assoc [symmetric] cover(1) by (simp add: f)
  have "set (ss_notes st2) = set (ss_notes once)"
    unfolding st2_def next_notes [OF first(1), of h V2 found, unfolded all, OF assms(8)] once(1) ..
  moreover have "set (ss_pending st2) = set (ss_pending once)"
  proof -
    have "set (ss_pending st2) = (\<Union>e\<in>set (scan_window V2 st1). ?p V2 e)"
      using window_pending [OF pass inj_on_subset [OF feed_seq_inj [OF assms(2)] sub], of V2] by (simp add: st2_def next_state_def W(2))
    then show ?thesis unfolding W(1) UN_Un cover(2) once(2) by (simp add: f)
  qed
  moreover have "ss_cursor st2 = ss_cursor once"
    using max_seq_window [OF W(1), of G] pass_found(5) [OF pass] first(3) once(3) m by (auto simp: st2_def next_state_def f)
  moreover have "ss_scannedNextLeafIndex st2 = ss_scannedNextLeafIndex once"
    using assms(7) first(4) once(4) by (simp add: st2_def next_state_def)
  ultimately show ?thesis using run by blast
qed

subsection \<open>A batch completed between two scans\<close>

definition early_batch :: client_event where
  "early_batch = feed_draft.extend ((bare_entry \<lparr>at_txHash = ''0xbb'', at_blockNumber = 2, at_logIndex = 0\<rparr> KDisbursePriv)\<lparr>fe_batchId := Some 0\<rparr>)
     \<lparr>fe_seq = 2, ce_kem = None\<rparr>"

definition late_batch :: client_event where
  "late_batch = early_batch\<lparr>fe_viewTags := Some [], fe_outputCommitments := Some [],
     fe_slices := [\<lparr>sl_offset = 0, sl_elts = 4, sl_leafIndex = Some 0\<rparr>]\<rparr>"

definition early_view :: feed_view where
  "early_view = \<lparr>fv_feed = [early_batch], fv_page = 5, fv_path = (\<lambda>l. None), fv_nullifiers = [], fv_head = 2\<rparr>"

definition late_view :: feed_view where
  "late_view = early_view\<lparr>fv_feed := [late_batch, pay_event DepositRow], fv_head := 3\<rparr>"

abbreviation resume_scan_event :: "client_event \<Rightarrow> scan_error + scan_found" where
  "resume_scan_event \<equiv> scan_event pay_hN demo_perm pay_decaps pay_identity"

lemma resume_events:
  "resume_scan_event early_batch = Inr (pend early_batch DisclosureIncomplete)" "resume_scan_event late_batch = Inr nothing_found"
  "resume_scan_event (pay_event DepositRow) = Inr nothing_found"
  "fe_seq early_batch = 2" "fe_seq late_batch = 2" "fe_slices early_batch = []"
  by (simp_all add: scan_event_def pay_event_def early_batch_def late_batch_def bare_entry_def feed_draft.defs)

lemma first_scan_exists:
  assumes "view_ok V" and "length (fv_feed V) \<le> pages * fv_page V"
    and "\<forall>e\<in>set (fv_feed V). \<exists>f. scan_event hN perm decaps identity e = Inr f"
  shows "\<exists>st. runSelfScan h hN perm decaps (serving V) identity EMPTY_SCAN_STATE (Suc pages) w = (w, Inr st)"
proof -
  have "length (past V (ss_cursor EMPTY_SCAN_STATE)) \<le> pages * fv_page V" using assms(2) past_length le_trans by blast
  moreover obtain found where "scanEventsPass hN perm decaps identity (fv_feed V) = Inr found" using assms(3) pass_ok_iff by metis
  ultimately show ?thesis using assms(1) by (simp add: scan_serving empty_window)
qed

lemma resume_views:
  "view_ok early_view" "view_ok late_view" "fv_feed early_view = [early_batch]" "fv_feed late_view = [late_batch, pay_event DepositRow]"
  "length (fv_feed early_view) \<le> 1 * fv_page early_view" "length (fv_feed late_view) \<le> 1 * fv_page late_view"
  by (simp_all add: view_ok_def late_view_def early_view_def resume_events pay_event_parts)

lemma resume_notes: "(\<Union>e\<in>set (fv_feed late_view). event_notes demo_h pay_hN demo_perm pay_decaps pay_identity late_view e) = {}"
  by (simp add: resume_views event_notes_def resume_events newly_found_def)

lemma resume_first:
  "\<exists>st. runSelfScan demo_h pay_hN demo_perm pay_decaps (serving early_view) pay_identity EMPTY_SCAN_STATE (Suc 1) () = ((), Inr st) \<and>
    ss_pending st \<noteq> []"
proof -
  obtain st where st: "runSelfScan demo_h pay_hN demo_perm pay_decaps (serving early_view) pay_identity EMPTY_SCAN_STATE (Suc 1) () = ((), Inr st)"
    using first_scan_exists [OF resume_views(1,5)] resume_events(1) by (fastforce simp: resume_views(3))
  have "set (ss_pending st) \<noteq> {}"
    using first_scan(2) [OF resume_views(1,5) st] by (simp add: resume_views(3) pended_parts [OF resume_events(1)])
  then show ?thesis using st by auto
qed

lemma resume_once:
  "\<exists>st. runSelfScan demo_h pay_hN demo_perm pay_decaps (serving late_view) pay_identity EMPTY_SCAN_STATE (Suc 1) () = ((), Inr st) \<and>
    ss_pending st = [] \<and> ss_cursor st = 4"
proof -
  obtain st where st: "runSelfScan demo_h pay_hN demo_perm pay_decaps (serving late_view) pay_identity EMPTY_SCAN_STATE (Suc 1) () = ((), Inr st)"
    using first_scan_exists [OF resume_views(2,6)] resume_events(2,3) by (fastforce simp: resume_views(4))
  have inj: "inj_on dn_commitment (\<Union>e\<in>set (fv_feed late_view). event_notes demo_h pay_hN demo_perm pay_decaps pay_identity late_view e)"
    by (simp only: resume_notes inj_on_empty)
  have "set (ss_pending st) = {}"
    using first_scan(2) [OF resume_views(2,6) st inj] by (simp add: resume_views(4) event_pending_def resume_events newly_pending_def)
  moreover have "ss_cursor st = 4"
    using first_scan(3) [OF resume_views(2,6) st inj] by (simp add: resume_views(4) max_seq_def resume_events pay_event_parts)
  ultimately show ?thesis using st by auto
qed

theorem scan_resumes_witness:
  "\<exists>st1 st2. runSelfScan demo_h pay_hN demo_perm pay_decaps (serving early_view) pay_identity EMPTY_SCAN_STATE (Suc 1) () = ((), Inr st1) \<and>
    ss_pending st1 \<noteq> [] \<and>
    runSelfScan demo_h pay_hN demo_perm pay_decaps (serving late_view) pay_identity st1 (Suc 1) () = ((), Inr st2) \<and>
    ss_pending st2 = [] \<and> ss_cursor st2 = 4"
proof -
  obtain st1 where one: "runSelfScan demo_h pay_hN demo_perm pay_decaps (serving early_view) pay_identity EMPTY_SCAN_STATE (Suc 1) () = ((), Inr st1)"
    "ss_pending st1 \<noteq> []" using resume_first by auto
  obtain once where o: "runSelfScan demo_h pay_hN demo_perm pay_decaps (serving late_view) pay_identity EMPTY_SCAN_STATE (Suc 1) () = ((), Inr once)"
    "ss_pending once = []" "ss_cursor once = 4" using resume_once by blast
  have "grew_into pay_hN demo_perm pay_decaps pay_identity early_view late_view"
    unfolding grew_into_def
    by (rule exI [of _ "[late_batch]"], rule exI [of _ "[pay_event DepositRow]"])
      (auto simp: early_view_def late_view_def resume_events)
  moreover have "same_verdicts demo_h early_view late_view" by (simp add: same_verdicts_def early_view_def resume_events)
  moreover have "inj_on dn_commitment (\<Union>e\<in>set (fv_feed late_view). event_notes demo_h pay_hN demo_perm pay_decaps pay_identity late_view e)"
    by (simp only: resume_notes inj_on_empty)
  ultimately have "\<exists>st2. runSelfScan demo_h pay_hN demo_perm pay_decaps (serving late_view) pay_identity st1 (Suc 1) () = ((), Inr st2) \<and>
    set (ss_notes st2) = set (ss_notes once) \<and> set (ss_pending st2) = set (ss_pending once) \<and>
    ss_cursor st2 = ss_cursor once \<and> ss_scannedNextLeafIndex st2 = ss_scannedNextLeafIndex once"
    by (intro scan_resumes [OF resume_views(1,2) _ _ resume_views(5,6) _ _ one(1) o(1)]) (simp_all add: early_view_def late_view_def)
  then show ?thesis using one o by auto
qed

end
