(* ===== verification/Key_Cache.thy ===== *)
theory Key_Cache
  imports Spend_Build Kem_Chunks
begin

text \<open>
  The wallet's lock: the class \<open>KeyCache\<close> of \<open>packages/client/src/keys/keyCache.ts\<close> with the session check
  of \<open>keys/identity.ts\<close>.

  The held key is one mutable object which \<open>unlockStealth\<close> compares by reference, so a hold has an
  identity of its own. \<open>unlock\<close> and \<open>unlockStealth\<close> await the wallet: each part between two awaits is an
  operation here, and other calls may come in between. The clock is read once in each part. The
  listeners are left out but for the number of notifications. The stealth keys are an opaque type.
\<close>

subsection \<open>State\<close>

definition IDLE_WIPE_MS :: int where
  "IDLE_WIPE_MS = 10 * 60 * 1000"

record 's held_key =
  hk_ref :: nat
  hk_identity :: wallet_identity
  hk_stealth :: "'s option"
  hk_account :: string
  hk_sessionPubkey :: string
  hk_lastUsedAt :: int

text \<open>\<open>disarm\<close> is the deadline of the armed timer.\<close>

record 's key_cache =
  kc_held :: "'s held_key option"
  kc_disarm :: "int option"
  kc_notified :: nat
  kc_nextRef :: nat

definition new_key_cache :: "'s key_cache" where
  "new_key_cache = \<lparr>kc_held = None, kc_disarm = None, kc_notified = 0, kc_nextRef = 0\<rparr>"

subsection \<open>Synchronous operations\<close>

definition norm_key :: "string \<Rightarrow> string" where
  "norm_key k = toLowerCase (js_trim k)"

definition assertSessionIdentity :: "string \<Rightarrow> string \<Rightarrow> bool" where
  "assertSessionIdentity derived session \<longleftrightarrow> norm_key derived = norm_key session"

definition expired :: "int \<Rightarrow> int \<Rightarrow> 's held_key \<Rightarrow> bool" where
  "expired idleMs now h \<longleftrightarrow> now - hk_lastUsedAt h \<ge> idleMs"

definition isUnlocked :: "int \<Rightarrow> int \<Rightarrow> 's key_cache \<Rightarrow> bool" where
  "isUnlocked idleMs now c \<longleftrightarrow> (case kc_held c of None \<Rightarrow> False | Some h \<Rightarrow> \<not> expired idleMs now h)"

definition key_peek :: "int \<Rightarrow> int \<Rightarrow> 's key_cache \<Rightarrow> string \<Rightarrow> wallet_identity option" where
  "key_peek idleMs now c session =
     (case kc_held c of
        None \<Rightarrow> None
      | Some h \<Rightarrow> if hk_sessionPubkey h \<noteq> session \<or> expired idleMs now h then None else Some (hk_identity h))"

definition notify :: "'s key_cache \<Rightarrow> 's key_cache" where
  "notify c = c\<lparr>kc_notified := kc_notified c + 1\<rparr>"

definition key_lock :: "'s key_cache \<Rightarrow> 's key_cache" where
  "key_lock c =
     (let c1 = c\<lparr>kc_disarm := None\<rparr> in if kc_held c1 = None then c1 else notify (c1\<lparr>kc_held := None\<rparr>))"

definition rearm :: "int \<Rightarrow> int \<Rightarrow> 's key_cache \<Rightarrow> 's key_cache" where
  "rearm idleMs now c = c\<lparr>kc_disarm := Some (now + idleMs)\<rparr>"

text \<open>\<open>this.held = \<dots>; this.rearm(); this.notify()\<close>\<close>

definition hold_key :: "int \<Rightarrow> int \<Rightarrow> 's key_cache \<Rightarrow> wallet_identity \<Rightarrow> string \<Rightarrow> string \<Rightarrow> 's key_cache" where
  "hold_key idleMs now c identity account session =
     notify (rearm idleMs now
       (c\<lparr>kc_held := Some \<lparr>hk_ref = kc_nextRef c, hk_identity = identity, hk_stealth = None, hk_account = account,
            hk_sessionPubkey = session, hk_lastUsedAt = now\<rparr>, kc_nextRef := kc_nextRef c + 1\<rparr>))"

definition seed :: "int \<Rightarrow> int \<Rightarrow> 's key_cache \<Rightarrow> wallet_identity \<Rightarrow> string \<Rightarrow> string \<Rightarrow> 's key_cache option" where
  "seed idleMs now c identity account session =
     (if assertSessionIdentity (wi_compressedPubkey identity) session
      then Some (hold_key idleMs now c identity (toLowerCase account) session) else None)"

text \<open>A use of the held key: \<open>held.lastUsedAt = now; rearm()\<close>\<close>

definition touch :: "int \<Rightarrow> int \<Rightarrow> 's key_cache \<Rightarrow> 's held_key \<Rightarrow> 's key_cache" where
  "touch idleMs now c h = rearm idleMs now (c\<lparr>kc_held := Some (h\<lparr>hk_lastUsedAt := now\<rparr>)\<rparr>)"

subsection \<open>\<open>unlock\<close>\<close>

datatype unlock_next = Refused | Reused wallet_identity | MustDerive

text \<open>From the answer of \<open>currentAccount\<close> to the return, the throw or the call of \<open>derive\<close>\<close>

definition unlock_asked :: "int \<Rightarrow> int \<Rightarrow> 's key_cache \<Rightarrow> string option \<Rightarrow> string \<Rightarrow> 's key_cache \<times> unlock_next" where
  "unlock_asked idleMs now c account session =
     (case kc_held c of
        None \<Rightarrow> (c, MustDerive)
      | Some h \<Rightarrow>
          if account \<noteq> None \<and> account \<noteq> Some (hk_account h) then (key_lock c, Refused)
          else if account = None \<or> hk_sessionPubkey h \<noteq> session \<or> expired idleMs now h then (key_lock c, MustDerive)
          else (touch idleMs now c h, Reused (hk_identity h)))"

text \<open>From the answer of \<open>derive\<close> to the end\<close>

definition unlock_derived ::
  "int \<Rightarrow> int \<Rightarrow> 's key_cache \<Rightarrow> string option \<Rightarrow> string \<Rightarrow> string \<Rightarrow> wallet_identity \<Rightarrow> 's key_cache option" where
  "unlock_derived idleMs now c account address session identity =
     (if assertSessionIdentity (wi_compressedPubkey identity) session
      then Some (hold_key idleMs now c identity (case account of None \<Rightarrow> toLowerCase address | Some a \<Rightarrow> a) session)
      else None)"

subsection \<open>\<open>unlockStealth\<close>\<close>

datatype 's stealth_next = StealthRefused | StealthReused 's | StealthDerive nat

text \<open>After \<open>unlock\<close> has returned\<close>

definition stealth_unlocked :: "int \<Rightarrow> int \<Rightarrow> 's key_cache \<Rightarrow> 's key_cache \<times> 's stealth_next" where
  "stealth_unlocked idleMs now c =
     (case kc_held c of
        None \<Rightarrow> (c, StealthRefused)
      | Some h \<Rightarrow>
          (case hk_stealth h of
             Some s \<Rightarrow> (touch idleMs now c h, StealthReused s)
           | None \<Rightarrow> (c, StealthDerive (hk_ref h))))"

text \<open>From the second answer of \<open>currentAccount\<close> to the end\<close>

definition stealth_derived ::
  "int \<Rightarrow> int \<Rightarrow> 's key_cache \<Rightarrow> nat \<Rightarrow> string option \<Rightarrow> 's \<Rightarrow> 's key_cache \<times> 's option" where
  "stealth_derived idleMs now c ref account stealth =
     (case kc_held c of
        None \<Rightarrow> (key_lock c, None)
      | Some h \<Rightarrow>
          if hk_ref h \<noteq> ref \<or> account = None \<or> account \<noteq> Some (hk_account h) then (key_lock c, None)
          else (touch idleMs now c (h\<lparr>hk_stealth := Some stealth\<rparr>), Some stealth))"

end
