(* ===== verification/Key_Correct.thy ===== *)
theory Key_Correct
  imports Key_Cache
begin

text \<open>
  The lock as a step relation: the calls in flight, the account the wallet has selected, and the clock.
  The selected account locks the cache when it changes (the watcher every application installs).
  In every interleaving the held key is the session's, the stealth keys are those of the account the
  key was derived under, and a key nobody uses is unreadable after the idle time, timers or not.
\<close>

subsection \<open>Calls in flight\<close>

text \<open>Whether the call is \<open>unlockStealth\<close>, its session and address, and where it waits.\<close>

datatype 's waiting =
    WaitAccount                    \<comment> \<open>\<open>unlock\<close> awaits \<open>currentAccount\<close>\<close>
  | WaitDerive "string option"     \<comment> \<open>\<open>unlock\<close> awaits \<open>derive\<close>, with the account read before\<close>
  | WaitUnlocked                   \<comment> \<open>\<open>unlockStealth\<close> awaits \<open>unlock\<close>\<close>
  | WaitStealth nat                \<comment> \<open>\<open>unlockStealth\<close> awaits \<open>deriveStealth\<close>, with the hold it started from\<close>
  | WaitRecheck nat 's             \<comment> \<open>\<open>unlockStealth\<close> awaits the second \<open>currentAccount\<close>\<close>

record 's call =
  ca_stealth :: bool
  ca_session :: string
  ca_address :: string
  ca_waiting :: "'s waiting"

record 's lock_world =
  lw_cache :: "'s key_cache"
  lw_now :: int
  lw_account :: "string option"
  lw_calls :: "'s call list"
  lw_keys :: "(string \<times> wallet_identity) list"    \<comment> \<open>keys handed out, with the session asked for\<close>
  lw_stealth :: "(string \<times> 's) list"             \<comment> \<open>stealth keys handed out, with the account selected\<close>

definition initial_lock :: "string option \<Rightarrow> 's lock_world" where
  "initial_lock account =
     \<lparr>lw_cache = new_key_cache, lw_now = 0, lw_account = account, lw_calls = [], lw_keys = [], lw_stealth = []\<rparr>"

text \<open>The call after \<open>unlock\<close> returned: the end of the call, or the stealth part.\<close>

definition after_unlock :: "'s call \<Rightarrow> 's call list" where
  "after_unlock k = (if ca_stealth k then [k\<lparr>ca_waiting := WaitUnlocked\<rparr>] else [])"

subsection \<open>Steps\<close>

text \<open>
  \<open>dv a\<close> and \<open>dvs a\<close> are what the wallet derives under account \<open>a\<close>: the signature is deterministic. A step is
  an attended one, in which the user acts or a prompt of the wallet answers, or an unattended one.
\<close>

inductive lock_step ::
  "int \<Rightarrow> (string \<Rightarrow> wallet_identity) \<Rightarrow> (string \<Rightarrow> 's) \<Rightarrow> bool \<Rightarrow> 's lock_world \<Rightarrow> 's lock_world \<Rightarrow> bool"
  for idleMs :: int and dv :: "string \<Rightarrow> wallet_identity" and dvs :: "string \<Rightarrow> 's" where
  tick: "0 \<le> d \<Longrightarrow> lock_step idleMs dv dvs False w (w\<lparr>lw_now := lw_now w + d\<rparr>)"
| timer_fires: "kc_disarm (lw_cache w) = Some t \<Longrightarrow> t \<le> lw_now w \<Longrightarrow>
    lock_step idleMs dv dvs False w (w\<lparr>lw_cache := key_lock (lw_cache w)\<rparr>)"
| log_out: "lock_step idleMs dv dvs False w (w\<lparr>lw_cache := key_lock (lw_cache w)\<rparr>)"
| account_changes: "lock_step idleMs dv dvs False w (w\<lparr>lw_account := a, lw_cache := key_lock (lw_cache w)\<rparr>)"
| peek_ok: "key_peek idleMs (lw_now w) (lw_cache w) session = Some i \<Longrightarrow>
    lock_step idleMs dv dvs False w (w\<lparr>lw_keys := lw_keys w @ [(session, i)]\<rparr>)"
| log_in: "lw_account w = Some a \<Longrightarrow> seed idleMs (lw_now w) (lw_cache w) (dv a) a session = Some c \<Longrightarrow>
    lock_step idleMs dv dvs True w (w\<lparr>lw_cache := c\<rparr>)"
| call: "lock_step idleMs dv dvs True w
    (w\<lparr>lw_calls := lw_calls w @ [\<lparr>ca_stealth = st, ca_session = session, ca_address = address, ca_waiting = WaitAccount\<rparr>]\<rparr>)"
| fail: "k \<in> set (lw_calls w) \<Longrightarrow> lock_step idleMs dv dvs False w (w\<lparr>lw_calls := remove1 k (lw_calls w)\<rparr>)"
| asked_refused: "k \<in> set (lw_calls w) \<Longrightarrow> ca_waiting k = WaitAccount \<Longrightarrow>
    unlock_asked idleMs (lw_now w) (lw_cache w) (lw_account w) (ca_session k) = (c, Refused) \<Longrightarrow>
    lock_step idleMs dv dvs True w (w\<lparr>lw_cache := c, lw_calls := remove1 k (lw_calls w)\<rparr>)"
| asked_reused: "k \<in> set (lw_calls w) \<Longrightarrow> ca_waiting k = WaitAccount \<Longrightarrow>
    unlock_asked idleMs (lw_now w) (lw_cache w) (lw_account w) (ca_session k) = (c, Reused i) \<Longrightarrow>
    lock_step idleMs dv dvs True w
      (w\<lparr>lw_cache := c, lw_calls := remove1 k (lw_calls w) @ after_unlock k, lw_keys := lw_keys w @ [(ca_session k, i)]\<rparr>)"
| asked_derive: "k \<in> set (lw_calls w) \<Longrightarrow> ca_waiting k = WaitAccount \<Longrightarrow>
    unlock_asked idleMs (lw_now w) (lw_cache w) (lw_account w) (ca_session k) = (c, MustDerive) \<Longrightarrow>
    lock_step idleMs dv dvs True w
      (w\<lparr>lw_cache := c, lw_calls := remove1 k (lw_calls w) @ [k\<lparr>ca_waiting := WaitDerive (lw_account w)\<rparr>]\<rparr>)"
| derived: "k \<in> set (lw_calls w) \<Longrightarrow> ca_waiting k = WaitDerive before \<Longrightarrow> lw_account w = Some a \<Longrightarrow>
    unlock_derived idleMs (lw_now w) (lw_cache w) before (ca_address k) (ca_session k) (dv a) = Some c \<Longrightarrow>
    lock_step idleMs dv dvs True w
      (w\<lparr>lw_cache := c, lw_calls := remove1 k (lw_calls w) @ after_unlock k, lw_keys := lw_keys w @ [(ca_session k, dv a)]\<rparr>)"
| stealth_refused: "k \<in> set (lw_calls w) \<Longrightarrow> ca_waiting k = WaitUnlocked \<Longrightarrow>
    stealth_unlocked idleMs (lw_now w) (lw_cache w) = (c, StealthRefused) \<Longrightarrow>
    lock_step idleMs dv dvs True w (w\<lparr>lw_cache := c, lw_calls := remove1 k (lw_calls w)\<rparr>)"
| stealth_reused: "k \<in> set (lw_calls w) \<Longrightarrow> ca_waiting k = WaitUnlocked \<Longrightarrow> kc_held (lw_cache w) = Some h \<Longrightarrow>
    stealth_unlocked idleMs (lw_now w) (lw_cache w) = (c, StealthReused s) \<Longrightarrow>
    lock_step idleMs dv dvs True w
      (w\<lparr>lw_cache := c, lw_calls := remove1 k (lw_calls w), lw_stealth := lw_stealth w @ [(hk_account h, s)]\<rparr>)"
| stealth_derive: "k \<in> set (lw_calls w) \<Longrightarrow> ca_waiting k = WaitUnlocked \<Longrightarrow>
    stealth_unlocked idleMs (lw_now w) (lw_cache w) = (c, StealthDerive ref) \<Longrightarrow>
    lock_step idleMs dv dvs True w
      (w\<lparr>lw_cache := c, lw_calls := remove1 k (lw_calls w) @ [k\<lparr>ca_waiting := WaitStealth ref\<rparr>]\<rparr>)"
| stealth_answer: "k \<in> set (lw_calls w) \<Longrightarrow> ca_waiting k = WaitStealth ref \<Longrightarrow> lw_account w = Some a \<Longrightarrow>
    lock_step idleMs dv dvs True w (w\<lparr>lw_calls := remove1 k (lw_calls w) @ [k\<lparr>ca_waiting := WaitRecheck ref (dvs a)\<rparr>]\<rparr>)"
| stealth_done: "k \<in> set (lw_calls w) \<Longrightarrow> ca_waiting k = WaitRecheck ref s \<Longrightarrow>
    stealth_derived idleMs (lw_now w) (lw_cache w) ref (lw_account w) s = (c, Some s') \<Longrightarrow> lw_account w = Some a \<Longrightarrow>
    lock_step idleMs dv dvs True w
      (w\<lparr>lw_cache := c, lw_calls := remove1 k (lw_calls w), lw_stealth := lw_stealth w @ [(a, s')]\<rparr>)"
| stealth_mismatch: "k \<in> set (lw_calls w) \<Longrightarrow> ca_waiting k = WaitRecheck ref s \<Longrightarrow>
    stealth_derived idleMs (lw_now w) (lw_cache w) ref (lw_account w) s = (c, None) \<Longrightarrow>
    lock_step idleMs dv dvs True w (w\<lparr>lw_cache := c, lw_calls := remove1 k (lw_calls w)\<rparr>)"

inductive lock_run ::
  "int \<Rightarrow> (string \<Rightarrow> wallet_identity) \<Rightarrow> (string \<Rightarrow> 's) \<Rightarrow> bool \<Rightarrow> 's lock_world \<Rightarrow> 's lock_world \<Rightarrow> bool"
  for idleMs :: int and dv :: "string \<Rightarrow> wallet_identity" and dvs :: "string \<Rightarrow> 's" and attended :: bool where
  no_step: "lock_run idleMs dv dvs attended w w"
| one_more: "lock_run idleMs dv dvs attended w w1 \<Longrightarrow> lock_step idleMs dv dvs b w1 w2 \<Longrightarrow> (b \<longrightarrow> attended) \<Longrightarrow>
    lock_run idleMs dv dvs attended w w2"

lemma attended_step: "lock_run idleMs dv dvs True w w1 \<Longrightarrow> lock_step idleMs dv dvs b w1 w2 \<Longrightarrow> lock_run idleMs dv dvs True w w2"
  by (rule one_more) simp_all

subsection \<open>The invariant\<close>

text \<open>The hold: the key is the session's, its timer is armed, and its stealth keys are its account's.\<close>

definition hold_ok :: "int \<Rightarrow> (string \<Rightarrow> 's) \<Rightarrow> 's key_cache \<Rightarrow> bool" where
  "hold_ok idleMs dvs c \<longleftrightarrow>
     (case kc_held c of
        None \<Rightarrow> kc_disarm c = None
      | Some h \<Rightarrow> assertSessionIdentity (wi_compressedPubkey (hk_identity h)) (hk_sessionPubkey h) \<and>
          kc_disarm c = Some (hk_lastUsedAt h + idleMs) \<and> hk_ref h < kc_nextRef c \<and>
          (\<forall>s. hk_stealth h = Some s \<longrightarrow> s = dvs (hk_account h)))"

text \<open>A derived stealth key that may still be stored was derived under the account still selected.\<close>

definition call_ok :: "(string \<Rightarrow> 's) \<Rightarrow> 's lock_world \<Rightarrow> 's call \<Rightarrow> bool" where
  "call_ok dvs w k \<longleftrightarrow>
     (case ca_waiting k of
        WaitStealth ref \<Rightarrow> ref < kc_nextRef (lw_cache w)
      | WaitRecheck ref s \<Rightarrow> ref < kc_nextRef (lw_cache w) \<and>
          (\<forall>h. kc_held (lw_cache w) = Some h \<longrightarrow> hk_ref h = ref \<longrightarrow> (\<exists>a. lw_account w = Some a \<and> s = dvs a))
      | _ \<Rightarrow> True)"

definition lock_inv :: "int \<Rightarrow> (string \<Rightarrow> 's) \<Rightarrow> 's lock_world \<Rightarrow> bool" where
  "lock_inv idleMs dvs w \<longleftrightarrow> hold_ok idleMs dvs (lw_cache w) \<and> (\<forall>k\<in>set (lw_calls w). call_ok dvs w k) \<and>
     (\<forall>(session, i)\<in>set (lw_keys w). assertSessionIdentity (wi_compressedPubkey i) session) \<and>
     (\<forall>(a, s)\<in>set (lw_stealth w). s = dvs a) \<and>
     (\<forall>h. kc_held (lw_cache w) = Some h \<longrightarrow> hk_lastUsedAt h \<le> lw_now w)"

named_theorems cache_ops \<open>the effect of the operations on the parts of the cache\<close>

lemma lock_parts [cache_ops]:
  "kc_held (key_lock c) = None" "kc_disarm (key_lock c) = None" "kc_nextRef (key_lock c) = kc_nextRef c"
  by (simp_all add: key_lock_def notify_def Let_def)

lemma touch_parts [cache_ops]:
  "kc_held (touch idleMs now c h) = Some (h\<lparr>hk_lastUsedAt := now\<rparr>)" "kc_disarm (touch idleMs now c h) = Some (now + idleMs)"
  "kc_nextRef (touch idleMs now c h) = kc_nextRef c"
  by (simp_all add: touch_def rearm_def)

lemma hold_parts [cache_ops]:
  "kc_held (hold_key idleMs now c i account session) = Some \<lparr>hk_ref = kc_nextRef c, hk_identity = i, hk_stealth = None,
     hk_account = account, hk_sessionPubkey = session, hk_lastUsedAt = now\<rparr>"
  "kc_disarm (hold_key idleMs now c i account session) = Some (now + idleMs)"
  "kc_nextRef (hold_key idleMs now c i account session) = kc_nextRef c + 1"
  by (simp_all add: hold_key_def notify_def rearm_def)

lemma initial_lock_inv: "lock_inv idleMs dvs (initial_lock a)"
  by (simp add: lock_inv_def initial_lock_def new_key_cache_def hold_ok_def)

text \<open>A step whose calls are old ones, or new ones that are fine, and whose cache keeps what the calls need.\<close>

definition keeps_calls :: "(string \<Rightarrow> 's) \<Rightarrow> 's lock_world \<Rightarrow> 's lock_world \<Rightarrow> bool" where
  "keeps_calls dvs w w' \<longleftrightarrow> (\<forall>k\<in>set (lw_calls w'). k \<in> set (lw_calls w) \<or> call_ok dvs w' k) \<and>
     kc_nextRef (lw_cache w) \<le> kc_nextRef (lw_cache w') \<and>
     (case kc_held (lw_cache w') of None \<Rightarrow> True
      | Some h' \<Rightarrow> kc_nextRef (lw_cache w) \<le> hk_ref h' \<or>
          lw_account w' = lw_account w \<and> (\<exists>h. kc_held (lw_cache w) = Some h \<and> hk_ref h = hk_ref h'))"

lemma keeps_calls_ok:
  assumes "\<forall>k\<in>set (lw_calls w). call_ok dvs w k" and "keeps_calls dvs w w'"
  shows "\<forall>k\<in>set (lw_calls w'). call_ok dvs w' k"
proof
  fix k assume k: "k \<in> set (lw_calls w')"
  show "call_ok dvs w' k"
  proof (cases "k \<in> set (lw_calls w)")
    case True
    then have "call_ok dvs w k" using assms(1) by blast
    then show ?thesis using assms(2)
      by (auto simp: call_ok_def keeps_calls_def split: waiting.splits option.splits)
  qed (use assms(2) k in \<open>auto simp: keeps_calls_def\<close>)
qed

lemma lock_step_parts:
  assumes "lock_step idleMs dv dvs b w w'" and "lock_inv idleMs dvs w"
  shows "keeps_calls dvs w w'" "hold_ok idleMs dvs (lw_cache w')"
    "\<forall>(session, i)\<in>set (lw_keys w'). assertSessionIdentity (wi_compressedPubkey i) session"
    "\<forall>(a, s)\<in>set (lw_stealth w'). s = dvs a" "\<forall>h. kc_held (lw_cache w') = Some h \<longrightarrow> hk_lastUsedAt h \<le> lw_now w'"
proof -
  have sub: "k' \<in> set (remove1 k ks) \<Longrightarrow> k' \<in> set ks" for k k' :: "'a call" and ks by (meson notin_set_remove1)
  show "keeps_calls dvs w w'"
    using assms
    by cases (auto simp: keeps_calls_def lock_inv_def hold_ok_def call_ok_def seed_def unlock_asked_def unlock_derived_def
        stealth_unlocked_def stealth_derived_def after_unlock_def cache_ops split: option.splits if_splits dest!: sub)
  show "hold_ok idleMs dvs (lw_cache w')"
    using assms
    by cases (auto simp: lock_inv_def hold_ok_def call_ok_def seed_def unlock_asked_def unlock_derived_def
        stealth_unlocked_def stealth_derived_def cache_ops split: option.splits if_splits waiting.splits)
  show "\<forall>(session, i)\<in>set (lw_keys w'). assertSessionIdentity (wi_compressedPubkey i) session"
    using assms
    by cases (auto simp: lock_inv_def hold_ok_def key_peek_def unlock_asked_def unlock_derived_def cache_ops split: option.splits if_splits)
  show "\<forall>(a, s)\<in>set (lw_stealth w'). s = dvs a"
    using assms
    by cases (auto simp: lock_inv_def hold_ok_def call_ok_def stealth_unlocked_def stealth_derived_def cache_ops
        split: option.splits if_splits waiting.splits)
  show "\<forall>h. kc_held (lw_cache w') = Some h \<longrightarrow> hk_lastUsedAt h \<le> lw_now w'"
    using assms
    by cases (auto simp: lock_inv_def hold_ok_def seed_def unlock_asked_def unlock_derived_def
        stealth_unlocked_def stealth_derived_def cache_ops split: option.splits if_splits)
qed

lemma lock_step_inv:
  assumes "lock_step idleMs dv dvs b w w'" and "lock_inv idleMs dvs w"
  shows "lock_inv idleMs dvs w'"
  using lock_step_parts [OF assms] keeps_calls_ok assms(2) unfolding lock_inv_def by blast

lemma lock_run_inv: "lock_run idleMs dv dvs attended w w' \<Longrightarrow> lock_inv idleMs dvs w \<Longrightarrow> lock_inv idleMs dvs w'"
  by (induction rule: lock_run.induct) (auto intro: lock_step_inv)

subsection \<open>The properties\<close>

text \<open>
  C35: The lock keeps keys to their session and account. In every interleaving of logins, actions, stealth
  actions, account switches, logouts, timers and background reads, every spending key that is handed out
  is the key of the session it was asked for, every stealth key that is handed out is the one of the
  account its hold was taken under, a held key is its session's, and the timer that drops it is armed at
  its last use plus the idle time.
\<close>
theorem lock_keeps_keys_apart:
  assumes "lock_run idleMs dv dvs True (initial_lock a0) w"
  shows "(\<forall>(session, i)\<in>set (lw_keys w). norm_key (wi_compressedPubkey i) = norm_key session) \<and>
    (\<forall>(a, s)\<in>set (lw_stealth w). s = dvs a) \<and>
    (case kc_held (lw_cache w) of
       None \<Rightarrow> kc_disarm (lw_cache w) = None
     | Some h \<Rightarrow> norm_key (wi_compressedPubkey (hk_identity h)) = norm_key (hk_sessionPubkey h) \<and>
         kc_disarm (lw_cache w) = Some (hk_lastUsedAt h + idleMs) \<and> (\<forall>s. hk_stealth h = Some s \<longrightarrow> s = dvs (hk_account h)))"
  using lock_run_inv [OF assms initial_lock_inv]
  by (auto simp: lock_inv_def hold_ok_def assertSessionIdentity_def split: option.splits)

text \<open>Without the user nothing is held that was not held before, and no deadline moves.\<close>

lemma unattended_step:
  assumes "lock_step idleMs dv dvs False w w'"
  shows "(kc_held (lw_cache w') = None \<or> kc_held (lw_cache w') = kc_held (lw_cache w)) \<and> lw_now w \<le> lw_now w'"
  using assms by cases (auto simp: cache_ops)

lemma unattended_run:
  assumes "lock_run idleMs dv dvs False w w'"
  shows "(kc_held (lw_cache w') = None \<or> kc_held (lw_cache w') = kc_held (lw_cache w)) \<and> lw_now w \<le> lw_now w'"
  using assms
proof (induction rule: lock_run.induct)
  case (one_more w w1 b w2)
  then have "lock_step idleMs dv dvs False w1 w2" by (cases b) auto
  from unattended_step [OF this] one_more.IH show ?case by auto
qed simp

text \<open>
  C36: An unattended wallet locks itself. Once the idle time has passed without a login, an action or an
  answered prompt, whatever background reads, account switches or timers there were in between, and even
  when no timer ever fired, the wallet reads as locked and no background read gets a key.
\<close>
theorem unattended_wallet_locks:
  assumes "lock_run idleMs dv dvs True (initial_lock a0) w" and "lock_run idleMs dv dvs False w w'"
    and "lw_now w + idleMs \<le> lw_now w'"
  shows "\<not> isUnlocked idleMs (lw_now w') (lw_cache w') \<and> key_peek idleMs (lw_now w') (lw_cache w') session = None"
proof -
  have "\<forall>h. kc_held (lw_cache w) = Some h \<longrightarrow> hk_lastUsedAt h \<le> lw_now w"
    using lock_run_inv [OF assms(1) initial_lock_inv] by (simp add: lock_inv_def)
  then have "\<forall>h. kc_held (lw_cache w') = Some h \<longrightarrow> expired idleMs (lw_now w') h"
    using unattended_run [OF assms(2)] assms(3) by (auto simp: expired_def)
  then show ?thesis by (auto simp: isUnlocked_def key_peek_def split: option.split)
qed

text \<open>
  C37: A logout is overtaken by an unlock that waits for the wallet. Whenever the account derives the
  session's key, there is a run in which the user starts an action on a locked wallet, logs out while
  the signature prompt is open, and then answers the prompt: with no call made after the logout the
  wallet is unlocked again and a background read gets the key of the session that was left.
\<close>
theorem logout_overtaken:
  fixes dvs :: "string \<Rightarrow> 's"
  assumes "0 < idleMs" and "assertSessionIdentity (wi_compressedPubkey (dv a)) session"
  shows "\<exists>w1 w2 w3. lock_run idleMs dv dvs True (initial_lock (Some a)) w1 \<and>
    lock_step idleMs dv dvs False w1 w2 \<and> lw_cache w2 = key_lock (lw_cache w1) \<and> lw_calls w2 = lw_calls w1 \<and>
    lock_step idleMs dv dvs True w2 w3 \<and> lw_calls w3 = [] \<and> lw_now w3 = lw_now w2 \<and>
    isUnlocked idleMs (lw_now w3) (lw_cache w3) \<and> key_peek idleMs (lw_now w3) (lw_cache w3) session = Some (dv a)"
proof -
  let ?w0 = "initial_lock (Some a) :: 's lock_world"
  let ?k = "\<lparr>ca_stealth = False, ca_session = session, ca_address = a, ca_waiting = WaitAccount\<rparr> :: 's call"
  define wc where "wc = ?w0\<lparr>lw_calls := lw_calls ?w0 @ [?k]\<rparr>"
  define w1 where "w1 = wc\<lparr>lw_cache := lw_cache wc, lw_calls := remove1 ?k (lw_calls wc) @ [?k\<lparr>ca_waiting := WaitDerive (lw_account wc)\<rparr>]\<rparr>"
  define w2 where "w2 = w1\<lparr>lw_cache := key_lock (lw_cache w1)\<rparr>"
  let ?kd = "?k\<lparr>ca_waiting := WaitDerive (lw_account wc)\<rparr>"
  have calls: "lw_calls wc = [?k]" "lw_calls w1 = [?kd]" "lw_calls w2 = [?kd]" "lw_account w2 = Some a"
    by (simp_all add: wc_def w1_def w2_def initial_lock_def)
  have s0: "lock_step idleMs dv dvs True ?w0 wc" unfolding wc_def by (rule lock_step.call)
  have s1: "lock_step idleMs dv dvs True wc w1" unfolding w1_def
    by (rule asked_derive) (simp_all add: calls, simp add: unlock_asked_def wc_def initial_lock_def new_key_cache_def)
  have run: "lock_run idleMs dv dvs True ?w0 w1" by (rule attended_step [OF attended_step [OF no_step s0] s1])
  have out: "lock_step idleMs dv dvs False w1 w2" unfolding w2_def by (rule log_out)
  obtain c where c: "unlock_derived idleMs (lw_now w2) (lw_cache w2) (lw_account wc) (ca_address ?kd) (ca_session ?kd) (dv a) = Some c"
    "isUnlocked idleMs (lw_now w2) c" "key_peek idleMs (lw_now w2) c session = Some (dv a)"
    using assms by (simp add: unlock_derived_def isUnlocked_def key_peek_def expired_def cache_ops)
  define w3 where "w3 = w2\<lparr>lw_cache := c, lw_calls := remove1 ?kd (lw_calls w2) @ after_unlock ?kd, lw_keys := lw_keys w2 @ [(ca_session ?kd, dv a)]\<rparr>"
  have "lock_step idleMs dv dvs True w2 w3" unfolding w3_def
    by (rule derived [where before = "lw_account wc" and a = a]) (use c(1) in \<open>simp_all add: calls\<close>)
  moreover have "lw_calls w3 = []" "lw_cache w3 = c" "lw_now w3 = lw_now w2" by (simp_all add: w3_def calls after_unlock_def)
  ultimately show ?thesis using run out c(2,3)
    by (intro exI [of _ w1] exI [of _ w2] exI [of _ w3]) (simp add: w2_def)
qed

subsection \<open>Runs of the properties\<close>

definition demo_dv :: "string \<Rightarrow> wallet_identity" where
  "demo_dv a = \<lparr>wi_keypair = \<lparr>formattedPrivateKey = 1, publicKey = (0, 1)\<rparr>, wi_compressedPubkey = a\<rparr>"

definition demo_logged_in :: "string lock_world" where
  "demo_logged_in = (initial_lock (Some ''0xa1''))\<lparr>lw_cache := hold_key IDLE_WIPE_MS 0 new_key_cache (demo_dv ''0xa1'') ''0xa1'' ''0xA1''\<rparr>"

lemma demo_log_in: "lock_run IDLE_WIPE_MS demo_dv id True (initial_lock (Some ''0xa1'')) demo_logged_in"
proof -
  have "norm_key ''0xa1'' = norm_key ''0xA1''" "toLowerCase ''0xa1'' = ''0xa1''" by code_simp+
  then have "seed IDLE_WIPE_MS 0 new_key_cache (demo_dv ''0xa1'') ''0xa1'' ''0xA1'' =
      Some (hold_key IDLE_WIPE_MS 0 new_key_cache (demo_dv ''0xa1'') ''0xa1'' ''0xA1'')"
    by (simp add: seed_def assertSessionIdentity_def demo_dv_def)
  then have "lock_step IDLE_WIPE_MS demo_dv id True (initial_lock (Some ''0xa1'')) demo_logged_in"
    unfolding demo_logged_in_def by (intro log_in [where a = "''0xa1''" and session = "''0xA1''"]) (simp_all add: initial_lock_def)
  then show ?thesis using one_more [OF no_step] by blast
qed

theorem lock_keeps_keys_apart_witness:
  "case kc_held (lw_cache demo_logged_in) of None \<Rightarrow> False
   | Some h \<Rightarrow> norm_key (wi_compressedPubkey (hk_identity h)) = norm_key (hk_sessionPubkey h) \<and>
       kc_disarm (lw_cache demo_logged_in) = Some (hk_lastUsedAt h + IDLE_WIPE_MS)"
  using lock_keeps_keys_apart [OF demo_log_in] by (auto simp: demo_logged_in_def cache_ops)

theorem unattended_wallet_locks_witness:
  "\<not> isUnlocked IDLE_WIPE_MS IDLE_WIPE_MS (lw_cache demo_logged_in) \<and> isUnlocked IDLE_WIPE_MS 1 (lw_cache demo_logged_in)"
proof -
  let ?w = "demo_logged_in\<lparr>lw_now := lw_now demo_logged_in + IDLE_WIPE_MS\<rparr>"
  have "lock_step IDLE_WIPE_MS demo_dv id False demo_logged_in ?w" by (rule tick) (simp add: IDLE_WIPE_MS_def)
  then have "lock_run IDLE_WIPE_MS demo_dv id False demo_logged_in ?w" using one_more [OF no_step] by blast
  from unattended_wallet_locks [OF demo_log_in this]
  have "\<not> isUnlocked IDLE_WIPE_MS IDLE_WIPE_MS (lw_cache demo_logged_in)" by (simp add: demo_logged_in_def initial_lock_def)
  moreover have "isUnlocked IDLE_WIPE_MS 1 (lw_cache demo_logged_in)"
    by (simp add: isUnlocked_def demo_logged_in_def cache_ops expired_def IDLE_WIPE_MS_def)
  ultimately show ?thesis ..
qed

theorem logout_overtaken_witness:
  "\<exists>w. lock_run IDLE_WIPE_MS demo_dv id True (initial_lock (Some ''0xa1'')) w \<and> isUnlocked IDLE_WIPE_MS (lw_now w) (lw_cache w)"
proof -
  have "assertSessionIdentity (wi_compressedPubkey (demo_dv ''0xa1'')) ''0xa1''" by (simp add: assertSessionIdentity_def demo_dv_def)
  from logout_overtaken [of IDLE_WIPE_MS demo_dv "''0xa1''" "''0xa1''" id, OF _ this] obtain w1 w2 w3 where
    "lock_run IDLE_WIPE_MS demo_dv id True (initial_lock (Some ''0xa1'')) w1" "lock_step IDLE_WIPE_MS demo_dv id False w1 w2"
    "lock_step IDLE_WIPE_MS demo_dv id True w2 w3" "isUnlocked IDLE_WIPE_MS (lw_now w3) (lw_cache w3)"
    by (auto simp: IDLE_WIPE_MS_def)
  note r = attended_step [OF attended_step [OF this(1,2)] this(3)] and u = this(4)
  show ?thesis using r u by blast
qed

end
