(* ===== verification/Scan_Session.thy ===== *)
theory Scan_Session
  imports Self_Scan
begin

text \<open>
  The scan session of a wallet (\<open>packages/client/src/scan/session.ts\<close>, the class \<open>ScanSession\<close>), the refresh
  policy over the snapshots it produces (\<open>scan/refresh.ts\<close>), the classifier of failed reads
  (\<open>packages/core/src/errors.ts\<close>) and the paging rule of the activity list (\<open>scan/activity.ts\<close>).

  A pass of the session awaits the scan: what it does before and after is an operation each. A thrown
  value is its message.
\<close>

subsection \<open>The session\<close>

type_synonym scan_store = "string \<Rightarrow> self_scan_state option"

record scan_session =
  sx_state :: "self_scan_state option"
  sx_owner :: "string option"

definition new_scan_session :: scan_session where
  "new_scan_session = \<lparr>sx_state = None, sx_owner = None\<rparr>"

datatype scan_strip = PendingNotice | LockedNotice

definition scanNotice :: "self_scan_state \<Rightarrow> bool \<Rightarrow> scan_strip option" where
  "scanNotice st identityHeld =
     (if length (ss_pending st) > 0 then Some PendingNotice else if identityHeld then None else Some LockedNotice)"

text \<open>The state a pass starts from: memory first, then the store.\<close>

definition scan_prev :: "scan_session \<Rightarrow> scan_store \<Rightarrow> string \<Rightarrow> self_scan_state" where
  "scan_prev s store owner =
     (case (if sx_owner s = Some owner then sx_state s else None) of
        Some st \<Rightarrow> st
      | None \<Rightarrow> (case store owner of Some st \<Rightarrow> st | None \<Rightarrow> EMPTY_SCAN_STATE))"

text \<open>The identity a pass scans with, when it may scan.\<close>

fun scan_identity :: "session_identity option \<Rightarrow> consumer_identity option" where
  "scan_identity (Some (FullIdentity i)) = Some i"
| "scan_identity _ = None"

definition scan_write :: "scan_store \<Rightarrow> string \<Rightarrow> self_scan_state \<Rightarrow> scan_session \<times> scan_store" where
  "scan_write store owner st = (\<lparr>sx_state = Some st, sx_owner = Some owner\<rparr>, store(owner \<mapsto> st))"

record scan_outcome =
  so_snapshot :: owner_snapshot
  so_scannedNextLeafIndex :: nat
  so_notice :: "scan_strip option"

definition outcome_of :: "self_scan_state \<Rightarrow> string \<Rightarrow> bool \<Rightarrow> addr_error + scan_outcome" where
  "outcome_of st owner identityHeld =
     (case selfScanSnapshot st owner of
        Inl e \<Rightarrow> Inl e
      | Inr snap \<Rightarrow> Inr \<lparr>so_snapshot = snap, so_scannedNextLeafIndex = ss_scannedNextLeafIndex st, so_notice = scanNotice st identityHeld\<rparr>)"

datatype 'e session_failure = ScanFailed "'e scan_failure" | SnapshotFailed addr_error

text \<open>A pass that nothing interrupts. What \<open>runSelfScan\<close> throws leaves session and store as they were.\<close>

definition session_scan ::
  "hash2 \<Rightarrow> hashN \<Rightarrow> perm4 \<Rightarrow> (bytes \<Rightarrow> bytes \<Rightarrow> bytes) \<Rightarrow> ('w, 'e) self_scan_io \<Rightarrow> nat \<Rightarrow> session_identity option \<Rightarrow> string \<Rightarrow>
     scan_session \<times> scan_store \<Rightarrow> 'w \<Rightarrow> 'w \<times> (scan_session \<times> scan_store) \<times> ('e session_failure + scan_outcome)" where
  "session_scan h hN perm decaps io maxPages held owner x w =
     (let prev = scan_prev (fst x) (snd x) owner;
          (w1, r) = (case scan_identity held of
             None \<Rightarrow> (w, Inr prev)
           | Some i \<Rightarrow> runSelfScan h hN perm decaps io i prev maxPages w)
      in case r of
           Inl e \<Rightarrow> (w1, x, Inl (ScanFailed e))
         | Inr st \<Rightarrow> (w1, scan_write (snd x) owner st, map_sum SnapshotFailed id (outcome_of st owner (held \<noteq> None))))"

definition session_notes :: "scan_session \<Rightarrow> scan_note list" where
  "session_notes s = (case sx_state s of None \<Rightarrow> [] | Some st \<Rightarrow> ss_notes st)"

definition detach :: "scan_session \<Rightarrow> scan_session" where
  "detach s = s\<lparr>sx_state := None\<rparr>"

definition end_session :: "scan_session \<Rightarrow> scan_session" where
  "end_session s = s\<lparr>sx_state := None, sx_owner := None\<rparr>"

definition forgetOwner :: "scan_session \<times> scan_store \<Rightarrow> scan_session \<times> scan_store" where
  "forgetOwner x = (end_session (fst x), case sx_owner (fst x) of None \<Rightarrow> snd x | Some o' \<Rightarrow> (snd x)(o' := None))"

subsection \<open>Reads and their failures\<close>

text \<open>\<open>/->\s*(\d{3})\b/\<close>: the first arrow with spaces and three digits that no word character follows\<close>

definition word_char :: "char \<Rightarrow> bool" where
  "word_char c \<longleftrightarrow> is_digit c \<or> c = CHR ''_'' \<or> (let x = of_char c :: nat in 65 \<le> x \<and> x \<le> 90 \<or> 97 \<le> x \<and> x \<le> 122)"

definition status_at :: "string \<Rightarrow> nat option" where
  "status_at s =
     (if take 2 s \<noteq> ''->'' then None
      else let r = dropWhile is_space (drop 2 s); ds = take 3 r in
        if length ds = 3 \<and> list_all is_digit ds \<and> (drop 3 r = [] \<or> \<not> word_char (hd (drop 3 r)))
        then Some (fold (\<lambda>c n. 10 * n + digit_value c) ds 0) else None)"

fun status_in :: "string \<Rightarrow> nat option" where
  "status_in [] = None"
| "status_in (c # cs) = (case status_at (c # cs) of Some n \<Rightarrow> Some n | None \<Rightarrow> status_in cs)"

datatype read_verdict = Unauthorized | WrongEndpoint nat | Unreachable "nat option" string

definition classifyIndexerRead :: "string \<Rightarrow> read_verdict" where
  "classifyIndexerRead msg =
     (let status = status_in msg in
      if status = Some 401 then Unauthorized
      else if status = Some 403 \<or> status = Some 404 then WrongEndpoint (the status)
      else Unreachable status msg)"

datatype read_failure = Expired | ReadTrouble read_verdict

definition classifyReadFailure :: "string \<Rightarrow> read_failure" where
  "classifyReadFailure msg =
     (case classifyIndexerRead msg of Unauthorized \<Rightarrow> Expired | v \<Rightarrow> ReadTrouble v)"

definition loadOwnerSnapshot ::
  "('w, 'e, snapshot_note list) eff \<Rightarrow> ('w, 'e, activity_item list \<times> nat option) eff \<Rightarrow> ('w, 'e, owner_snapshot) eff" where
  "loadOwnerSnapshot loadNotes loadHistory =
     andThen loadNotes (\<lambda>ns.
     andThen (attempt loadHistory) (\<lambda>page.
     ret (case page of
            Some (items, next) \<Rightarrow> \<lparr>os_notes = ns, os_history = items, os_historyNextBefore = next\<rparr>
          | None \<Rightarrow> \<lparr>os_notes = ns, os_history = [], os_historyNextBefore = None\<rparr>)))"

subsection \<open>Refresh\<close>

definition skipBaseline :: "bool \<Rightarrow> owner_snapshot \<Rightarrow> owner_snapshot option" where
  "skipBaseline applied snapshot = (if applied then Some snapshot else None)"

datatype refresh_plan = PlanRead | PlanNotice

text \<open>A session is its token and its compressed key.\<close>

definition refreshPlan :: "(string \<times> string) option \<Rightarrow> bool \<Rightarrow> refresh_plan" where
  "refreshPlan session authFree =
     (case session of
        None \<Rightarrow> PlanNotice
      | Some (token, _) \<Rightarrow> if authFree then PlanRead else if token = [] then PlanNotice else PlanRead)"

definition note_key :: "snapshot_note \<Rightarrow> int \<times> bool" where
  "note_key n = (wn_commitment n, wn_spent n)"

definition noteSetChanged :: "owner_snapshot \<Rightarrow> owner_snapshot \<Rightarrow> bool" where
  "noteSetChanged pre cur \<longleftrightarrow> list_ex (\<lambda>n. note_key n \<notin> note_key ` set (os_notes pre)) (os_notes cur)"

definition newest_seq :: "owner_snapshot \<Rightarrow> int" where
  "newest_seq s = (case os_history s of [] \<Rightarrow> -1 | i # _ \<Rightarrow> int (ai_seq i))"

definition snapshotChanged :: "owner_snapshot \<Rightarrow> owner_snapshot \<Rightarrow> bool" where
  "snapshotChanged pre cur \<longleftrightarrow>
     (if length (os_notes pre) \<noteq> length (os_notes cur) \<or> length (os_history pre) \<noteq> length (os_history cur) then True
      else if os_historyNextBefore pre \<noteq> os_historyNextBefore cur then True
      else if newest_seq pre \<noteq> newest_seq cur then True
      else noteSetChanged pre cur)"

record 'w refresh_sinks =
  rs_applySnapshot :: "owner_snapshot \<Rightarrow> 'w \<Rightarrow> 'w"
  rs_setBanner :: "read_failure option \<Rightarrow> 'w \<Rightarrow> 'w"
  rs_toast :: "'w \<Rightarrow> 'w"
  rs_signOut :: "'w \<Rightarrow> 'w"
  rs_setNotice :: "bool \<Rightarrow> 'w \<Rightarrow> 'w"

text \<open>The texts are fixed by their sinks: the notice is the reconnect notice or none, the toast the refresh toast.\<close>

definition runRefresh ::
  "(string \<times> string) option \<Rightarrow> (string \<Rightarrow> string \<Rightarrow> ('w, string, owner_snapshot) eff) \<Rightarrow> 'w refresh_sinks \<Rightarrow> bool \<Rightarrow> owner_snapshot option \<Rightarrow>
     bool \<Rightarrow> 'w \<Rightarrow> 'w" where
  "runRefresh session load sinks manual skipUnchangedFrom authFree w =
     (case (refreshPlan session authFree, session) of
        (PlanRead, Some (token, owner)) \<Rightarrow>
          (case load token owner (rs_setNotice sinks False w) of
             (w1, Inr snap) \<Rightarrow>
               rs_setBanner sinks None
                 (if \<not> (case skipUnchangedFrom of None \<Rightarrow> False | Some pre \<Rightarrow> \<not> snapshotChanged pre snap)
                  then rs_applySnapshot sinks snap w1 else w1)
           | (w1, Inl e) \<Rightarrow>
               (case classifyReadFailure e of
                  Expired \<Rightarrow> rs_signOut sinks w1
                | failure \<Rightarrow>
                    (let w2 = rs_setBanner sinks (Some failure) w1 in if manual then rs_toast sinks w2 else w2)))
      | _ \<Rightarrow> rs_setBanner sinks None (rs_setNotice sinks True w))"

definition actionReflected :: "owner_snapshot \<Rightarrow> owner_snapshot \<Rightarrow> string \<Rightarrow> bool" where
  "actionReflected pre cur txHash \<longleftrightarrow>
     (if list_ex (\<lambda>i. toLowerCase (ai_txHash i) = toLowerCase txHash) (os_history cur) then True
      else if length (os_history cur) > length (os_history pre) then True
      else if length (os_notes cur) \<noteq> length (os_notes pre) then True
      else noteSetChanged pre cur)"

definition pollForAction ::
  "(nat \<Rightarrow> 'w \<Rightarrow> 'w) \<Rightarrow> nat \<Rightarrow> nat \<Rightarrow> ('w, 'e, owner_snapshot) eff \<Rightarrow> owner_snapshot \<Rightarrow> string \<Rightarrow> 'w \<Rightarrow>
     'w \<times> (bool \<times> owner_snapshot option)" where
  "pollForAction sleep interval cap load pre txHash = pollUntil sleep interval cap load (\<lambda>cur. actionReflected pre cur txHash)"

subsection \<open>The activity list\<close>

text \<open>The source has a neutral direction for kinds this build does not know; no modelled kind has it.\<close>

datatype activity_direction = FlowIn | FlowOut | FlowNone

fun activityDirection :: "history_kind \<Rightarrow> activity_direction" where
  "activityDirection HReceived = FlowIn"
| "activityDirection HDeposit = FlowIn"
| "activityDirection HSent = FlowOut"
| "activityDirection HWithdraw = FlowOut"

definition appendHistoryPage :: "activity_item list \<Rightarrow> activity_item list \<Rightarrow> activity_item list" where
  "appendHistoryPage existing page = existing @ filter (\<lambda>i. ai_seq i \<notin> ai_seq ` set existing) page"

end
