(* ===== verification/Session_Correct.thy ===== *)
theory Session_Correct
  imports Scan_Session Self_Scan_Correct
begin

text \<open>
  The scan session under interleaving: passes of several owners in flight, account switches, sign-outs
  and clean-device forgets. No owner is ever served another owner's state; a pass that a forget overtakes
  brings the forgotten row back. A refresh that is skipped as unchanged shows the balance it would have
  applied.
\<close>

subsection \<open>Passes in flight\<close>

record session_world =
  sw_session :: scan_session
  sw_store :: scan_store
  sw_flight :: "(string \<times> self_scan_state) list"    \<comment> \<open>owner and the state its pass started from\<close>

text \<open>
  \<open>scans o prev st\<close>: a scan with the keys of owner \<open>o\<close> that starts from \<open>prev\<close> may end in \<open>st\<close>. A locked pass
  does not await and writes what it read.
\<close>

inductive session_step ::
  "(string \<Rightarrow> self_scan_state \<Rightarrow> self_scan_state \<Rightarrow> bool) \<Rightarrow> session_world \<Rightarrow> session_world \<Rightarrow> bool"
  for scans :: "string \<Rightarrow> self_scan_state \<Rightarrow> self_scan_state \<Rightarrow> bool" where
  pass_begins: "session_step scans w (w\<lparr>sw_flight := sw_flight w @ [(owner, scan_prev (sw_session w) (sw_store w) owner)]\<rparr>)"
| pass_ends: "(owner, prev) \<in> set (sw_flight w) \<Longrightarrow> scans owner prev st \<Longrightarrow> scan_write (sw_store w) owner st = (s, m) \<Longrightarrow>
    session_step scans w (w\<lparr>sw_session := s, sw_store := m, sw_flight := remove1 (owner, prev) (sw_flight w)\<rparr>)"
| pass_fails: "session_step scans w (w\<lparr>sw_flight := remove1 x (sw_flight w)\<rparr>)"
| locked_pass: "scan_write (sw_store w) owner (scan_prev (sw_session w) (sw_store w) owner) = (s, m) \<Longrightarrow>
    session_step scans w (w\<lparr>sw_session := s, sw_store := m\<rparr>)"
| switch_account: "session_step scans w (w\<lparr>sw_session := detach (sw_session w)\<rparr>)"
| sign_out: "session_step scans w (w\<lparr>sw_session := end_session (sw_session w)\<rparr>)"
| forget: "forgetOwner (sw_session w, sw_store w) = (s, m) \<Longrightarrow> session_step scans w (w\<lparr>sw_session := s, sw_store := m\<rparr>)"

inductive session_run ::
  "(string \<Rightarrow> self_scan_state \<Rightarrow> self_scan_state \<Rightarrow> bool) \<Rightarrow> session_world \<Rightarrow> session_world \<Rightarrow> bool"
  for scans :: "string \<Rightarrow> self_scan_state \<Rightarrow> self_scan_state \<Rightarrow> bool" where
  session_start: "session_run scans w w"
| session_more: "session_run scans w w1 \<Longrightarrow> session_step scans w1 w2 \<Longrightarrow> session_run scans w w2"

definition page_opened :: "scan_store \<Rightarrow> session_world" where
  "page_opened store = \<lparr>sw_session = new_scan_session, sw_store = store, sw_flight = []\<rparr>"

text \<open>Everything that is held or stored for an owner comes from that owner's scans.\<close>

definition belongs :: "(string \<Rightarrow> self_scan_state \<Rightarrow> bool) \<Rightarrow> session_world \<Rightarrow> bool" where
  "belongs P w \<longleftrightarrow> (\<forall>owner st. sw_store w owner = Some st \<longrightarrow> P owner st) \<and>
     (\<forall>owner st. sx_owner (sw_session w) = Some owner \<longrightarrow> sx_state (sw_session w) = Some st \<longrightarrow> P owner st) \<and>
     (sx_owner (sw_session w) = None \<longrightarrow> sx_state (sw_session w) = None) \<and>
     (\<forall>(owner, prev)\<in>set (sw_flight w). P owner prev)"

lemma scan_prev_belongs:
  assumes "belongs P w" and "P owner EMPTY_SCAN_STATE"
  shows "P owner (scan_prev (sw_session w) (sw_store w) owner)"
  using assms by (auto simp: belongs_def scan_prev_def split: option.splits if_splits)

lemma session_step_belongs:
  assumes "session_step scans w w'" and "belongs P w" and "\<And>owner. P owner EMPTY_SCAN_STATE"
    and "\<And>owner prev st. P owner prev \<Longrightarrow> scans owner prev st \<Longrightarrow> P owner st"
  shows "belongs P w'"
  using assms(1)
proof cases
  case (pass_begins owner)
  then show ?thesis using assms(2) scan_prev_belongs [OF assms(2,3), of owner] by (auto simp: belongs_def)
next
  case (pass_ends owner prev st s m)
  then have "P owner st" using assms(2,4) by (auto simp: belongs_def)
  then show ?thesis using pass_ends assms(2)
    by (auto simp: belongs_def scan_write_def dest: notin_set_remove1 split: if_splits)
next
  case (pass_fails x)
  then show ?thesis using assms(2) by (auto simp: belongs_def dest: notin_set_remove1)
next
  case (locked_pass owner s m)
  then show ?thesis using assms(2) scan_prev_belongs [OF assms(2,3), of owner]
    by (auto simp: belongs_def scan_write_def split: if_splits)
qed (use assms(2) in \<open>auto simp: belongs_def detach_def end_session_def forgetOwner_def split: option.splits if_splits\<close>)

lemma session_run_belongs:
  assumes "session_run scans w w'" and "belongs P w" and "\<And>owner. P owner EMPTY_SCAN_STATE"
    and "\<And>owner prev st. P owner prev \<Longrightarrow> scans owner prev st \<Longrightarrow> P owner st"
  shows "belongs P w'"
  using assms by (induction rule: session_run.induct) (auto intro: session_step_belongs)

text \<open>
  The scans of the code: with the keys of the owner, whatever the indexer answers. The world counts the
  reads, so an answer may depend on when it is asked for.
\<close>

definition code_scans ::
  "hash2 \<Rightarrow> hashN \<Rightarrow> perm4 \<Rightarrow> (bytes \<Rightarrow> bytes \<Rightarrow> bytes) \<Rightarrow> (string \<Rightarrow> consumer_identity) \<Rightarrow> string \<Rightarrow> self_scan_state \<Rightarrow>
     self_scan_state \<Rightarrow> bool" where
  "code_scans h hN perm decaps keys owner prev st \<longleftrightarrow>
     (\<exists>(io :: (nat, string) self_scan_io) pages w w'. runSelfScan h hN perm decaps io (keys owner) prev pages w = (w', Inr st))"

lemma andThen_Inr: "andThen m f w = (w', Inr y) \<longleftrightarrow> (\<exists>w1 x. m w = (w1, Inr x) \<and> f x w1 = (w', Inr y))"
  by (auto simp: andThen_def split: prod.splits sum.splits)

lemma confirm_all_subset: "confirm_all h io cache cs w = (w', Inr (confirmed, gated)) \<Longrightarrow> set confirmed \<subseteq> set cs"
proof (induction cs arbitrary: cache w w' confirmed gated)
  case (Cons c cs)
  then obtain p w1 w2 conf g where r: "confirm_all h io (cache(dn_leafIndex c \<mapsto> p)) cs w1 = (w2, Inr (conf, g))"
    and c: "confirmed = fst (confirm_verdict h c p) @ conf"
    by (auto simp: andThen_Inr ret_def)
  have "set (fst (confirm_verdict h c p)) \<subseteq> {c}" by (auto simp: confirm_verdict_def split: option.splits if_splits)
  then show ?case using Cons.IH [OF r] c by auto
qed (simp add: ret_def)

lemma own_opens: "own_candidate hN identity ev c \<Longrightarrow>
   dn_commitment c = commitment hN (dn_value c) (dn_salt c) (spend_pub identity) \<and>
   dn_nullifier c = nullifier hN (dn_value c) (dn_salt c) (spend_priv identity)"
  by (simp add: own_candidate_def)

lemma scan_opens:
  assumes "runSelfScan h hN perm decaps io identity prev pages w = (w', Inr st)" and "notes_open hN identity (ss_notes prev)"
  shows "notes_open hN identity (ss_notes st)"
proof -
  obtain nextLeaf drained exhausted reread w1 where
    r: "(let kept = map fst (filter (\<lambda>(p, r). r = None) (zip (ss_pending prev) reread));
          window = map the (filter (\<lambda>r. r \<noteq> None) reread) @ drained
      in case scanEventsPass hN perm decaps identity window of
           Inl e \<Rightarrow> throw (PassFailed e)
         | Inr found \<Rightarrow>
     andThen (confirm_all h io Map.empty (sf_candidates found)) (\<lambda>(confirmed, gated).
     andThen (read_or_fail (si_nullifiers io)) (\<lambda>spent.
     ret \<lparr>ss_cursor = max (ss_cursor prev) (sp_cursor found),
          ss_scannedNextLeafIndex =
            (if exhausted then max (ss_scannedNextLeafIndex prev) nextLeaf
             else covered_leaf (ss_scannedNextLeafIndex prev) drained),
          ss_notes = applySpent (mergeNotes (ss_notes prev) (sf_accepted found @ confirmed)) (set spent),
          ss_pending = dedupePending (kept @ sf_pending found @ gated)\<rparr>))) w1 = (w', Inr st)"
    using assms(1) unfolding runSelfScan_def andThen_Inr [of _ _ w] by (auto simp only: andThen_Inr prod.case split_paired_Ex)
  define window where "window = map the (filter (\<lambda>r. r \<noteq> None) reread) @ drained"
  note r' = r [unfolded Let_def, folded window_def]
  obtain found where pass: "scanEventsPass hN perm decaps identity window = Inr found"
    using r' by (cases "scanEventsPass hN perm decaps identity window") (auto simp: throw_def)
  obtain confirmed gated w2 spent where conf: "confirm_all h io Map.empty (sf_candidates found) w1 = (w2, Inr (confirmed, gated))"
    and st: "ss_notes st = applySpent (mergeNotes (ss_notes prev) (sf_accepted found @ confirmed)) spent"
    using r' by (auto simp: pass andThen_Inr ret_def)
  have fresh: "\<exists>ev. own_candidate hN identity ev c" if "c \<in> set (sf_accepted found @ confirmed)" for c
  proof -
    have "c \<in> set (sf_accepted found) \<or> c \<in> set (sf_candidates found)" using that confirm_all_subset [OF conf] by auto
    then show ?thesis using found_in_window [OF pass] event_own by metis
  qed
  show ?thesis unfolding notes_open_def st applySpent_def
  proof
    fix n assume "n \<in> set (map (\<lambda>n. n\<lparr>sn_spent := dn_nullifier n \<in> spent\<rparr>) (mergeNotes (ss_notes prev) (sf_accepted found @ confirmed)))"
    then obtain m where m: "n = m\<lparr>sn_spent := dn_nullifier m \<in> spent\<rparr>" "m \<in> set (mergeNotes (ss_notes prev) (sf_accepted found @ confirmed))" by auto
    then consider "m \<in> set (ss_notes prev)" | "m \<in> set (merge_fresh (set (map dn_commitment (ss_notes prev))) (sf_accepted found @ confirmed))"
      by (auto simp: mergeNotes_def)
    then show "dn_commitment n = commitment hN (dn_value n) (dn_salt n) (spend_pub identity) \<and>
        dn_nullifier n = nullifier hN (dn_value n) (dn_salt n) (spend_priv identity)"
    proof cases
      case 1
      then show ?thesis using assms(2) m(1) by (simp add: notes_open_def)
    next
      case 2
      obtain c where c: "c \<in> set (sf_accepted found @ confirmed)" "m = scan_candidate.extend c \<lparr>sn_spent = False\<rparr>"
        using merge_fresh_sub [OF 2] by blast
      obtain ev where "own_candidate hN identity ev c" using fresh [OF c(1)] by blast
      from own_opens [OF this] show ?thesis by (simp add: m(1) c(2) scan_candidate.defs)
    qed
  qed
qed

lemma code_scans_open:
  "code_scans h hN perm decaps keys owner prev st \<Longrightarrow> notes_open hN (keys owner) (ss_notes prev) \<Longrightarrow> notes_open hN (keys owner) (ss_notes st)"
  by (auto simp: code_scans_def intro: scan_opens)


text \<open>
  C39: A forgotten device remembers. Whatever the scans answer, there is a run in which the owner's pass is
  in flight, the user disconnects (the row of the owner is cleared and the stamp dropped), and the pass
  then ends: the row with the decrypted amounts is stored again, in memory and on the device, although no
  pass was begun after the disconnect.
\<close>
theorem forgotten_row_returns:
  assumes "scans owner st st'" and "store owner = Some st"
  shows "\<exists>w1 w2 w3. session_run scans (page_opened store) w1 \<and> session_step scans w1 w2 \<and>
    (sw_session w2, sw_store w2) = forgetOwner (sw_session w1, sw_store w1) \<and> sw_store w2 owner = None \<and>
    session_step scans w2 w3 \<and> sw_flight w3 = [] \<and> sw_store w3 owner = Some st' \<and> session_notes (sw_session w3) = ss_notes st'"
proof -
  let ?w0 = "page_opened store"
  have prev0: "scan_prev (sw_session ?w0) (sw_store ?w0) owner = st" using assms(2) by (simp add: page_opened_def scan_prev_def new_scan_session_def)
  define wl where "wl = ?w0\<lparr>sw_session := \<lparr>sx_state = Some st, sx_owner = Some owner\<rparr>, sw_store := store\<rparr>"
  have "scan_write (sw_store ?w0) owner st = (\<lparr>sx_state = Some st, sx_owner = Some owner\<rparr>, store)"
    using assms(2) by (auto simp: scan_write_def page_opened_def)
  then have s1: "session_step scans ?w0 wl" unfolding wl_def by (intro locked_pass [where owner = owner]) (simp only: prev0)
  have prev: "scan_prev (sw_session wl) (sw_store wl) owner = st" by (simp add: wl_def scan_prev_def)
  define w1 where "w1 = wl\<lparr>sw_flight := sw_flight wl @ [(owner, scan_prev (sw_session wl) (sw_store wl) owner)]\<rparr>"
  have s2: "session_step scans wl w1" unfolding w1_def by (rule pass_begins)
  have w1: "sw_flight w1 = [(owner, st)]" "sw_session w1 = \<lparr>sx_state = Some st, sx_owner = Some owner\<rparr>" "sw_store w1 = store"
    unfolding w1_def prev by (simp_all add: wl_def page_opened_def)
  define w2 where "w2 = w1\<lparr>sw_session := new_scan_session, sw_store := store(owner := None)\<rparr>"
  have f: "forgetOwner (sw_session w1, sw_store w1) = (new_scan_session, store(owner := None))"
    by (simp add: forgetOwner_def end_session_def w1 new_scan_session_def)
  have s3: "session_step scans w1 w2" unfolding w2_def by (rule forget [OF f])
  define w3 where "w3 = w2\<lparr>sw_session := \<lparr>sx_state = Some st', sx_owner = Some owner\<rparr>, sw_store := store(owner \<mapsto> st'),
     sw_flight := remove1 (owner, st) (sw_flight w2)\<rparr>"
  have s4: "session_step scans w2 w3" unfolding w3_def
    by (rule pass_ends [where prev = st and st = st']) (use assms(1) in \<open>simp_all add: w2_def w1 scan_write_def\<close>)
  have "session_run scans ?w0 w1" by (rule session_more [OF session_more [OF session_start s1] s2])
  then show ?thesis using s3 s4 f
    by (intro exI [of _ w1] exI [of _ w2] exI [of _ w3]) (simp add: w2_def w3_def w1 session_notes_def)
qed

subsection \<open>A refresh that is skipped\<close>

definition as_selectable :: "snapshot_note \<Rightarrow> selectable_note" where
  "as_selectable n = \<lparr>note_value = wn_value n, note_salt = js_toString (wn_salt n), note_leaf = int (wn_leafIndex n), note_spent = wn_spent n\<rparr>"

definition snapshot_balance :: "owner_snapshot \<Rightarrow> int" where
  "snapshot_balance s = sumUnspent (map as_selectable (os_notes s))"

lemma balance_sum: "snapshot_balance s = sum_list (map wn_value (filter (\<lambda>n. \<not> wn_spent n) (os_notes s)))"
proof -
  have "fold (\<lambda>n total. if note_spent n then total else total + note_value n) (map as_selectable ns) t =
      t + sum_list (map wn_value (filter (\<lambda>n. \<not> wn_spent n) ns))" for t ns
    by (induction ns arbitrary: t) (simp_all add: as_selectable_def)
  then show ?thesis by (simp add: snapshot_balance_def sumUnspent_def)
qed

text \<open>Worth by commitment: what an unspent commitment of the snapshot adds to the balance.\<close>

lemma balance_by_commitment:
  assumes "distinct (map wn_commitment (os_notes s))" and "\<forall>n\<in>set (os_notes s). worth (wn_commitment n) = wn_value n"
  shows "snapshot_balance s = (\<Sum>c\<in>{c. (c, False) \<in> note_key ` set (os_notes s)}. worth c)"
proof -
  let ?u = "filter (\<lambda>n. \<not> wn_spent n) (os_notes s)"
  have "distinct (map wn_commitment ?u)" using assms(1) by (rule distinct_map_filter)
  then have "sum_list (map worth (map wn_commitment ?u)) = (\<Sum>c\<in>set (map wn_commitment ?u). worth c)"
    by (rule sum_list_distinct_conv_sum_set)
  moreover have "map worth (map wn_commitment ?u) = map wn_value ?u" using assms(2) by simp
  moreover have "set (map wn_commitment ?u) = {c. (c, False) \<in> note_key ` set (os_notes s)}" by (force simp: note_key_def)
  ultimately show ?thesis by (simp only: balance_sum)
qed

lemma unchanged_keys:
  assumes "\<not> snapshotChanged pre cur" and "distinct (map wn_commitment (os_notes pre))" and "distinct (map wn_commitment (os_notes cur))"
  shows "note_key ` set (os_notes cur) = note_key ` set (os_notes pre)"
proof -
  have len: "length (os_notes pre) = length (os_notes cur)" and "\<not> noteSetChanged pre cur"
    using assms(1) by (auto simp: snapshotChanged_def split: if_splits)
  then have sub: "note_key ` set (os_notes cur) \<subseteq> note_key ` set (os_notes pre)"
    by (auto simp: noteSetChanged_def list_ex_iff)
  have card: "card (note_key ` set (os_notes s)) = length (os_notes s)" if "distinct (map wn_commitment (os_notes s))" for s
  proof -
    have "map wn_commitment (os_notes s) = map fst (map note_key (os_notes s))" by (simp add: note_key_def)
    then have "distinct (map note_key (os_notes s))" using that distinct_map by metis
    then show ?thesis using distinct_card by fastforce
  qed
  show ?thesis by (rule card_subset_eq [OF _ sub]) (simp_all add: card assms(2,3) len)
qed

text \<open>
  C40: A skipped refresh hides no money. When a fresh read counts as unchanged against the snapshot on the
  screen, both hold the same commitments in the same spent state and have the same balance, so leaving
  the screen as it is shows the balance that was read. Commitments have to be distinct in each read and
  to determine their values.
\<close>
theorem skipped_refresh_same_balance:
  assumes "\<not> snapshotChanged pre cur"
    and "distinct (map wn_commitment (os_notes pre))" and "distinct (map wn_commitment (os_notes cur))"
    and "\<forall>n\<in>set (os_notes pre) \<union> set (os_notes cur). worth (wn_commitment n) = wn_value n"
  shows "note_key ` set (os_notes cur) = note_key ` set (os_notes pre) \<and> snapshot_balance cur = snapshot_balance pre"
proof -
  note keys = unchanged_keys [OF assms(1-3)]
  have "snapshot_balance s = (\<Sum>c\<in>{c. (c, False) \<in> note_key ` set (os_notes s)}. worth c)" if "s = pre \<or> s = cur" for s
    using that assms(2-4) by (intro balance_by_commitment) auto
  then show ?thesis using keys by simp
qed

subsection \<open>Runs of the properties\<close>

definition demo_state :: self_scan_state where
  "demo_state = EMPTY_SCAN_STATE\<lparr>ss_cursor := 7\<rparr>"


theorem forgotten_row_returns_witness:
  "\<exists>w. session_run (\<lambda>_ _ st. st = demo_state) (page_opened [''alice'' \<mapsto> EMPTY_SCAN_STATE]) w \<and> sw_store w ''alice'' = Some demo_state"
proof -
  obtain w1 w2 w3 where "session_run (\<lambda>_ _ st. st = demo_state) (page_opened [''alice'' \<mapsto> EMPTY_SCAN_STATE]) w1"
    "session_step (\<lambda>_ _ st. st = demo_state) w1 w2" "session_step (\<lambda>_ _ st. st = demo_state) w2 w3" "sw_store w3 ''alice'' = Some demo_state"
    using forgotten_row_returns [of "\<lambda>_ _ st. st = demo_state" "''alice''" EMPTY_SCAN_STATE demo_state "[''alice'' \<mapsto> EMPTY_SCAN_STATE]"]
    by auto
  then show ?thesis using session_more [OF session_more] by blast
qed

definition demo_note :: "int \<Rightarrow> bool \<Rightarrow> snapshot_note" where
  "demo_note v sp = \<lparr>wn_owner = (0, 1), wn_value = v, wn_salt = 1, wn_leafIndex = 0, wn_commitment = 100 + v, wn_txHash = [], wn_spent = sp\<rparr>"

definition demo_snapshot :: "snapshot_note list \<Rightarrow> owner_snapshot" where
  "demo_snapshot ns = \<lparr>os_notes = ns, os_history = [], os_historyNextBefore = None\<rparr>"

theorem skipped_refresh_same_balance_witness:
  "snapshot_balance (demo_snapshot [demo_note 5 False, demo_note 9 True]) = snapshot_balance (demo_snapshot [demo_note 9 True, demo_note 5 False]) \<and>
   snapshot_balance (demo_snapshot [demo_note 5 False, demo_note 9 True]) = 5"
proof -
  have "\<not> snapshotChanged (demo_snapshot [demo_note 9 True, demo_note 5 False]) (demo_snapshot [demo_note 5 False, demo_note 9 True])"
    by code_simp
  then have "snapshot_balance (demo_snapshot [demo_note 5 False, demo_note 9 True]) = snapshot_balance (demo_snapshot [demo_note 9 True, demo_note 5 False])"
    by (intro conjunct2 [OF skipped_refresh_same_balance [where worth = "\<lambda>c. c - 100"]]) (auto simp: demo_snapshot_def demo_note_def)
  then show ?thesis by (simp add: balance_sum demo_snapshot_def demo_note_def)
qed

end
