(* ===== verification/Spec2Isabelle.thy ===== *)
theory Spec2Isabelle
  imports Mirror_Correct Spend_Correct Envelope Pubkey_Correct Feed_Correct Kem_Correct Ledger_Correct
    Portal_Correct Ingest_Safety Log_Scan_Correct Poll_Correct Leg_Correct Scan_Resume Key_Correct Session_Correct
begin

text \<open>
  A verification library for bongtu, a shielded payment pool: notes (value, salt, owner key) live as
  Poseidon commitments in one on-chain Merkle tree, spends publish nullifiers, and every operation
  publishes ciphertexts from which receivers, and an arbiter, recover the notes. The TypeScript of the
  repository is an indexer that follows the chain (\<open>apps/indexer\<close>), the shared cryptographic and wire code
  (\<open>packages/core\<close>), the wallets' client (\<open>packages/client\<close>) and web applications over it. The library models
  the indexer's state machines, the client's planning, building, running and discovery, and the code
  of \<open>packages/core\<close> they both rest on.

  \<^bold>\<open>How the parts interact.\<close> The client plans a spend (\<open>Spend_Plan\<close>), builds the witness of each leg
  (\<open>Spend_Build\<close>, \<open>Consumer_Ops\<close>) and runs the legs through wallet, prover, pool and indexer (\<open>Leg_Driver\<close>). The
  pool's events come back as logs: the poll loop (\<open>Poll_Loop\<close>) scans a block range (\<open>Log_Scan\<close>), feeds the
  logs to one pass (\<open>Ingest\<close>) that drives the mirror of the tree (\<open>Mirror_Tree\<close> over \<open>Imt\<close>), the module
  registry and the chunk transport (\<open>Kem_Chunks\<close>), the feed (\<open>Feed_Store\<close>), the arbiter's ledger (\<open>Ledger\<close>) and
  the announcement registry (\<open>Portal\<close>), and persists what changed (\<open>Pg_Store\<close>) before the cursor moves. The
  wallet discovers its notes from the feed (\<open>Self_Scan\<close>) and confirms them against the mirror's paths.

  \<^bold>\<open>Conventions.\<close> A \<open>bigint\<close> is an \<open>int\<close>, an index a \<open>nat\<close>, a byte an \<open>8 word\<close>; decimal strings of the wire are
  the integers they denote, typed amounts stay strings and are parsed by \<open>js_BigInt\<close> (\<open>Js_Number\<close>). A method
  that mutates and may throw returns the state it leaves behind together with an optional error, because
  the caller keeps the object after a throw; a function that only answers or throws returns a sum. Maps
  whose order is observed are association lists. Poseidon, Keccak, SHA-256, ML-KEM and the provider are
  parameters. \<open>async\<close> code is a transition at each \<open>await\<close> where two calls can interleave (the portal registry,
  the client's scan session and key cache), and otherwise an effect \<open>'w \<Rightarrow> 'w \<times> ('e + 'a)\<close> over an arbitrary world.

  \<^bold>\<open>Foundations.\<close>
  \<^item> \<open>Prelude\<close>: sparse JavaScript arrays, block arithmetic, \<open>traverse\<close>, the lemma collections.
    \<open>Js_Number\<close>: \<open>trim\<close>, \<open>BigInt(s)\<close>, \<open>toString\<close>. \<open>Replay\<close>: the retry contract of the poll loop, the locale
    \<open>replay_safe\<close>: a step that marks its event, skips a marked event and keeps marks under compatible
    events; its lemmas (replaying a processed prefix changes nothing, a retried longer range resumes) are
    proved once and reached through its five interpretations, on the mirror, the feed store, the chunk
    transport, the module registry and the ledger.
  \<^item> \<open>Imt\<close>, \<open>Imt_Correct\<close> (\<open>packages/core/src/imt.ts\<close>): the incremental tree with single inserts, subtree
    attachment and paths; its abstract specification is the dense list of leaves, and the frontier root
    is the root of the padded dense tree.
  \<^item> \<open>Babyjub\<close>, \<open>Note_Crypto\<close>, \<open>Envelope\<close> (\<open>packages/core/src/crypto/babyjub.ts\<close>, \<open>kem.ts\<close>, \<open>envelope.ts\<close>,
    \<open>notes/note.ts\<close>, \<open>notes/consumer.ts\<close>): curve and field arithmetic, keys, commitments, the sponge cipher,
    the arbiter's envelope, sealed consumer outputs. Round trips of the sponge, the envelope and the
    sealed output, for every permutation and hash.
  \<^item> \<open>Pubkey\<close>, \<open>Pubkey_Correct\<close> (\<open>packages/core/src/crypto/pubkey.ts\<close>): compression with Tonelli-Shanks, base
    58, addresses; soundness of decompression and both directions of the address codec.

  \<^bold>\<open>The indexer.\<close>
  \<^item> \<open>Mirror_Tree\<close>, \<open>Mirror_Correct\<close> (\<open>apps/indexer/src/tree.ts\<close>): leaf records, batch tags, served paths.
    Every path that is served folds to the current root; replay of an applied range changes nothing.
  \<^item> \<open>Feed_Store\<close>, \<open>Feed_Correct\<close> (\<open>disclosure.ts\<close>, \<open>projection.ts\<close>, \<open>store.ts\<close>): the feed is the first sight of
    each log, pages resume, slices tile the ciphertext, and a consumer batch whose disclosure verifies
    can be filled and served.
  \<^item> \<open>Kem_Chunks\<close>, \<open>Kem_Correct\<close> (\<open>kemchunks.ts\<close>, \<open>modules.ts\<close>): the chunk transport and the registry with
    their tables; memory is what the database gives back over any interleaving of logs, flushes and
    restarts, and assembly is exact.
  \<^item> \<open>Ledger\<close>, \<open>Ledger_Correct\<close> (\<open>ledger.ts\<close>, the ledger part of \<open>postgres.ts\<close>): derivation of notes from an
    envelope, spends, history. Only notes the chain vouches for, an honest envelope is recovered whole,
    the activity adds up, pages are exact, the two maps index one heap.
  \<^item> \<open>Portal\<close>, \<open>Portal_Correct\<close> (\<open>portal.ts\<close>, its reads in \<open>api/routes/portal.ts\<close>, \<open>notes/stealth.ts\<close>): a step relation over
    concurrent issues, sweeps and flushes; first write wins in every interleaving.
  \<^item> \<open>Pg_Store\<close> (\<open>postgres.ts\<close>, \<open>persist.ts\<close>): the durable store, its tables, and the one transaction.
  \<^item> \<open>Ingest\<close>, \<open>Ingest_Correct\<close>, \<open>Ingest_Safety\<close> (\<open>ingest.ts\<close>, \<open>applyLogs\<close>): the gate, both passes, every
    handler and the drain; the exact correlation of an operation with the tree events and audit anchors
    of its transaction, and what no foreign log can do.
  \<^item> \<open>Log_Scan\<close>, \<open>Log_Scan_Correct\<close>, \<open>Poll_Loop\<close>, \<open>Poll_Correct\<close> (\<open>ingest.ts\<close>, \<open>chain.ts\<close>, \<open>host.ts\<close>): range scan, retries,
    one pass with its persist, the boot, the loop. A cursor only names a block at which the mirror
    equals the contract.

  \<^bold>\<open>The client.\<close>
  \<^item> \<open>Spend_Plan\<close>, \<open>Spend_Correct\<close> (\<open>packages/client/src/ops/spend/plan.ts\<close>): selection is a smallest cover; a
    planned chain runs leg by leg on what the wallet holds, conserves value, and is as short as can be.
  \<^item> \<open>Spend_Build\<close>, \<open>Spend_Build_Correct\<close> (\<open>ops/spend/assemble.ts\<close>, \<open>builders.ts\<close>, \<open>crypto.ts\<close>, \<open>ops/deposit.ts\<close>): the
    witnesses of the enterprise circuits; a built request satisfies the circuit and says what was typed.
  \<^item> \<open>Leg_Driver\<close>, \<open>Leg_Correct\<close> (\<open>ops/driver.ts\<close>, \<open>ops/spend/run.ts\<close>, \<open>pollUntil\<close> of \<open>scan/refresh.ts\<close>): the chain
    runner with its guards and bounded waits; the calculus \<open>emits\<close> bounds the calls an effect makes and
    their order.
  \<^item> \<open>Consumer_Ops\<close> (\<open>ops/consumer/plan.ts\<close>, \<open>requests.ts\<close>, \<open>run.ts\<close>): recipients, sealed outputs and the consumer
    family over the same driver.
  \<^item> \<open>Self_Scan\<close>, \<open>Self_Scan_Correct\<close>, \<open>Scan_Resume\<close> (\<open>scan/selfscan/engine.ts\<close>, \<open>run.ts\<close>, \<open>scan/balance.ts\<close>): the
    scan pass and the resumable scan. What a scan claims is the wallet's own and in the tree; a payment
    built by \<open>Consumer_Ops\<close>, published by \<open>Feed_Store\<close>'s projection and served is found by its payee; two runs
    are one run.
  \<^item> \<open>Scan_Session\<close>, \<open>Session_Correct\<close> (\<open>scan/session.ts\<close>, \<open>scan/refresh.ts\<close>, \<open>scan/activity.ts\<close>, the read classifier of
    \<open>packages/core/src/errors.ts\<close>): the owner of the scan state and the refresh policy. In every interleaving
    of passes, switches, sign-outs and forgets no owner is served another owner's notes; a pass that a
    forget overtakes stores the forgotten row again; a refresh skipped as unchanged has the same balance.
  \<^item> \<open>Key_Cache\<close>, \<open>Key_Correct\<close> (\<open>keys/keyCache.ts\<close>, the session check of \<open>keys/identity.ts\<close>): the lock, as a step
    relation over calls in flight, the selected account and the clock. Keys stay with their session and
    account, an unattended wallet locks; an unlock that waits for a signature survives a logout.

  \<^bold>\<open>Bounds and fuel.\<close> The tree has depth \<open>H_TREE = 32\<close>. Loops that are bounded in the code keep their bound as
  the recursion: the pages of a drain (\<open>drain\<close>, whose theorems ask that the pages hold the feed), the
  attempts of a retry. \<open>pollUntil\<close> recurses on the remaining budget; its interval is positive in every caller
  (3 seconds by default), and the range scan recurses on the length of the range, which halves. Sums of
  inputs below \<open>2 ^ 100\<close> satisfy the circuits' range checks. Witnesses use small trees and hashes given by
  arithmetic; the theorems are for every hash.

  \<^bold>\<open>Not modelled.\<close> The Poseidon and ML-KEM libraries, the ABI decoder, the JSON codecs and the transport are
  parameters or left out. The contracts and circuits are Solidity, Rust and Circom; what the circuits check is
  stated in \<open>Spend_Build_Correct\<close> as the predicate a witness satisfies.
  The web views, the HTTP routes (but for the reads of the portal feed), registered names and view
  tokens, the second chain's indexer and rails, key derivation from wallet signatures, the login flow
  with its browser records, the classifiers of wallet and proving errors, the amount formatter, the relayer,
  the sweeper and the deployment scripts are not modelled: they are wiring around libraries and
  transports, or views over the parts above.
\<close>

end
